(* ===== verification/Prelude.thy ===== *)
theory Prelude
  imports Main "HOL-Library.State_Monad"
begin

text \<open>
  Shared vocabulary of the development: Go's run-time panics as values, Go maps and slices,
  external calls as a history of events, and the two list patterns the packages share, the
  UID cache that drops duplicates and the buckets that index objects by a string.
\<close>

named_theorems const_defs \<open>definitions of the string constants of the code\<close>
named_theorems run_defs \<open>unfolding a stateful operation into its effect on the history\<close>

section \<open>Panics\<close>

text \<open>
  The run-time errors the modelled code can hit. A panic is not recovered anywhere in the
  code, so an operation that panics has the panic as its value.
\<close>

datatype go_panic = NilDereference | IndexOutOfRange

type_synonym 'a go = "go_panic + 'a"

definition go_bind :: "'a go \<Rightarrow> ('a \<Rightarrow> 'b go) \<Rightarrow> 'b go" where
  "go_bind m f = (case m of Inl e \<Rightarrow> Inl e | Inr x \<Rightarrow> f x)"

lemma go_bind_simps [simp]:
  "go_bind (Inl e) f = Inl e"
  "go_bind (Inr x) f = f x"
  by (simp_all add: go_bind_def)

lemma go_bind_Inr_iff: "go_bind m f = Inr y \<longleftrightarrow> (\<exists>x. m = Inr x \<and> f x = Inr y)"
  by (cases m) simp_all

lemma go_bind_assoc: "go_bind (go_bind m f) g = go_bind m (\<lambda>x. go_bind (f x) g)"
  by (cases m) simp_all

lemma go_bind_cong [fundef_cong]:
  "m = m' \<Longrightarrow> (\<And>x. m' = Inr x \<Longrightarrow> f x = f' x) \<Longrightarrow> go_bind m f = go_bind m' f'"
  by (cases m') simp_all

text \<open>Reading the first element of a slice: \<open>xs[0]\<close> panics on an empty slice.\<close>

fun index0 :: "'a list \<Rightarrow> 'a go" where
  "index0 [] = Inl IndexOutOfRange"
| "index0 (x # xs) = Inr x"

text \<open>Dereferencing a pointer; \<open>None\<close> is nil.\<close>

fun deref :: "'a option \<Rightarrow> 'a go" where
  "deref None = Inl NilDereference"
| "deref (Some x) = Inr x"

section \<open>Strings\<close>

text \<open>
  \<open>strings.Split(s, sep)\<close> for a one-byte separator: the pieces between the separators,
  always at least one.
\<close>

fun split_char :: "char \<Rightarrow> string \<Rightarrow> string list" where
  "split_char sep [] = [[]]"
| "split_char sep (c # cs) =
     (if c = sep then [] # split_char sep cs
      else (case split_char sep cs of [] \<Rightarrow> [[c]] | p # ps \<Rightarrow> (c # p) # ps))"

lemma split_char_ne: "split_char sep s \<noteq> []"
  by (induction s) (auto split: list.split)

lemma index0_split_char: "index0 (split_char sep s) = Inr (takeWhile (\<lambda>c. c \<noteq> sep) s)"
proof (induction s)
  case (Cons c s)
  then show ?case
    using split_char_ne [of sep s] by (cases "split_char sep s") auto
qed simp

section \<open>Lists\<close>

text \<open>Where an element of a concatenation is.\<close>

lemma append_past:
  assumes "us @ e # vs = xs @ ys" and "list_all P xs" and "\<not> P e"
  shows "\<exists>zs. us = xs @ zs \<and> zs @ e # vs = ys"
  using assms
proof (induction xs arbitrary: us)
  case (Cons x xs)
  then show ?case by (cases us) auto
qed simp

lemma append_before:
  assumes "us @ e # vs = xs @ ys" and "e \<notin> set ys"
  shows "\<exists>zs. xs = us @ e # zs \<and> vs = zs @ ys"
  using assms by (auto simp: append_eq_append_conv2 append_eq_Cons_conv Cons_eq_append_conv)

lemma append_within:
  assumes "us @ e # vs = xs @ ys"
  obtains (first) zs where "xs = us @ e # zs" | (second) zs where "us = xs @ zs" "zs @ e # vs = ys"
  using assms by (auto simp: append_eq_append_conv2 append_eq_Cons_conv Cons_eq_append_conv)

lemma concat_at:
  assumes "concat xss = us @ e # vs"
  shows "\<exists>yss xs ys zss. xss = yss @ (xs @ e # ys) # zss \<and> us = concat yss @ xs"
  using assms
proof (induction xss arbitrary: us)
  case (Cons x xss)
  then have "x @ concat xss = us @ e # vs" by simp
  then consider (here) zs where "x = us @ e # zs" | (later) zs where "us = x @ zs" "concat xss = zs @ e # vs"
    by (auto simp: append_eq_append_conv2 append_eq_Cons_conv Cons_eq_append_conv)
  then show ?case
  proof cases
    case here
    then show ?thesis by (intro exI [of _ "[]"] exI [of _ us] exI [of _ zs] exI [of _ xss]) simp
  next
    case later
    from Cons.IH [OF later(2)] obtain yss xs ys zss where
      "xss = yss @ (xs @ e # ys) # zss" "zs = concat yss @ xs" by blast
    with later(1) show ?thesis by (intro exI [of _ "x # yss"] exI [of _ xs] exI [of _ ys] exI [of _ zss]) simp
  qed
qed simp

section \<open>Sets\<close>

lemma image_meets:
  "f ` A \<inter> f ` B \<noteq> {} \<longleftrightarrow> (\<exists>e l. e \<in> B \<and> l \<in> A \<and> f e = f l)"
proof
  assume "f ` A \<inter> f ` B \<noteq> {}"
  then obtain y where "y \<in> f ` A" "y \<in> f ` B" by blast
  then obtain l e where "l \<in> A" "y = f l" "e \<in> B" "y = f e" by (elim imageE)
  then show "\<exists>e l. e \<in> B \<and> l \<in> A \<and> f e = f l" by metis
next
  assume "\<exists>e l. e \<in> B \<and> l \<in> A \<and> f e = f l"
  then obtain e l where "e \<in> B" "l \<in> A" "f e = f l" by (elim exE conjE)
  then have "f l \<in> f ` A \<inter> f ` B" by (metis IntI imageI)
  then show "f ` A \<inter> f ` B \<noteq> {}" by blast
qed

lemma distinct_extend:
  assumes "distinct (map f xs)" and "f ` set xs \<subseteq> A" and "distinct (map f ys)"
    and "f ` set ys \<subseteq> {a}" and "a \<notin> A"
  shows "distinct (map f (xs @ ys)) \<and> f ` set (xs @ ys) \<subseteq> insert a A"
proof -
  have "f ` set xs \<inter> f ` set ys = {}" using assms(2,4,5) by blast
  moreover have "f ` set xs \<union> f ` set ys \<subseteq> insert a A" using assms(2,4) by blast
  ultimately show ?thesis using assms(1,3) by (simp add: image_Un)
qed

section \<open>External calls\<close>

text \<open>
  Calls that leave the program (the API server, the kernel, other processes, sleeping,
  starting a goroutine) are events. A stateful operation runs in the state monad over the
  history of the events so far. What an external call answers is a parameter: a function of
  the history before the call, so the environment is arbitrary and may change its answer
  from one call to the next.
\<close>

type_synonym ('ev, 'a) io = "('ev list, 'a) state"

definition perform :: "('ev list \<Rightarrow> 'r) \<Rightarrow> 'ev \<Rightarrow> ('ev, 'r) io" where
  "perform answer ev = State (\<lambda>h. (answer h, h @ [ev]))"

text \<open>A call whose answer is part of its event.\<close>

definition observe :: "('ev list \<Rightarrow> 'r) \<Rightarrow> ('r \<Rightarrow> 'ev) \<Rightarrow> ('ev, 'r) io" where
  "observe answer ev = State (\<lambda>h. (answer h, h @ [ev (answer h)]))"

definition emit :: "'ev \<Rightarrow> ('ev, unit) io" where
  "emit ev = State (\<lambda>h. ((), h @ [ev]))"

lemma run_perform [simp]: "run_state (perform answer ev) h = (answer h, h @ [ev])"
  by (simp add: perform_def)

lemma run_observe [simp]: "run_state (observe answer ev) h = (answer h, h @ [ev (answer h)])"
  by (simp add: observe_def)

lemma run_emit [simp]: "run_state (emit ev) h = ((), h @ [ev])"
  by (simp add: emit_def)

abbreviation ret :: "'a \<Rightarrow> ('ev, 'a) io" where
  "ret \<equiv> State_Monad.return"

text \<open>An operation only adds to the history.\<close>

definition extends :: "('ev, 'a) io \<Rightarrow> bool" where
  "extends m \<longleftrightarrow> (\<forall>h. \<exists>t. snd (run_state m h) = h @ t)"

lemma extends_ret [intro, simp]: "extends (ret x)"
  by (simp add: extends_def)

lemma extends_perform [intro, simp]: "extends (perform a ev)"
  by (simp add: extends_def)

lemma extends_observe [intro, simp]: "extends (observe a ev)"
  by (simp add: extends_def)

lemma extends_emit [intro, simp]: "extends (emit ev)"
  by (simp add: extends_def)

lemma extends_bind [intro]:
  assumes "extends m" and "\<And>x. extends (f x)"
  shows "extends (State_Monad.bind m f)"
proof -
  have "\<exists>t. snd (run_state (State_Monad.bind m f) h) = h @ t" for h
  proof -
    obtain x h' where m: "run_state m h = (x, h')" by fastforce
    with assms(1) obtain t where "h' = h @ t"
      unfolding extends_def by (metis snd_conv)
    moreover obtain t' where "snd (run_state (f x) h') = h' @ t'"
      using assms(2) unfolding extends_def by blast
    ultimately show ?thesis using m by auto
  qed
  then show ?thesis by (simp add: extends_def)
qed

lemma extendsE:
  assumes "extends m" and "run_state m h = (x, h')"
  obtains t where "h' = h @ t"
  using assms unfolding extends_def by (metis snd_conv)

section \<open>UID caches: first occurrence wins\<close>

text \<open>
  \<open>types.UID\<close> is a string type; a \<open>UidCache\<close> is a Go map from UIDs to booleans, of which
  the code only asks whether a key is present.
\<close>

type_synonym uid = string
type_synonym uid_cache = "uid \<rightharpoonup> bool"

text \<open>The reference: keep an element when its key is not in \<open>S\<close> and did not occur before.\<close>

fun dedup :: "('a \<Rightarrow> 'k) \<Rightarrow> 'k set \<Rightarrow> 'a list \<Rightarrow> 'a list" where
  "dedup key S [] = []"
| "dedup key S (x # xs) =
     (if key x \<in> S then dedup key S xs else x # dedup key (insert (key x) S) xs)"

lemma dedup_append:
  "dedup key S (xs @ ys) = dedup key S xs @ dedup key (S \<union> key ` set xs) ys"
  by (induction xs arbitrary: S) (auto simp: insert_absorb)

lemma set_dedup_subset: "set (dedup key S xs) \<subseteq> set xs"
  by (induction xs arbitrary: S) (auto split: if_splits)

lemma keys_dedup [simp]: "key ` set (dedup key S xs) = key ` set xs - S"
  by (induction xs arbitrary: S) auto

lemma distinct_dedup: "distinct (map key (dedup key S xs))"
proof (induction xs arbitrary: S)
  case (Cons x xs)
  have "key x \<notin> key ` set (dedup key (insert (key x) S) xs)" by simp
  with Cons show ?case by auto
qed simp

lemma set_dedup_inj:
  assumes "inj_on key (set xs)"
  shows "set (dedup key {} xs) = set xs"
proof
  show "set (dedup key {} xs) \<subseteq> set xs" by (rule set_dedup_subset)
  show "set xs \<subseteq> set (dedup key {} xs)"
  proof
    fix x assume x: "x \<in> set xs"
    then have "key x \<in> key ` set (dedup key {} xs)" by simp
    then obtain y where y: "y \<in> set (dedup key {} xs)" "key y = key x"
      unfolding image_iff by metis
    from y(1) have "y \<in> set xs" using set_dedup_subset [of key "{}" xs] by blast
    with x y assms show "x \<in> set (dedup key {} xs)"
      by (metis inj_onD)
  qed
qed

lemma dedup_filter_id: "distinct (map key xs) \<Longrightarrow> key ` set xs \<inter> S = {} \<Longrightarrow> dedup key S xs = xs"
  by (induction xs arbitrary: S) auto

text \<open>
  The interface of a loop that fills a list through a UID cache. Every instance of the
  pattern in the code is an interpretation; the lemma reduces it to \<open>dedup\<close>.
\<close>

locale uid_loop =
  fixes key :: "'a \<Rightarrow> uid"
    and loop :: "'a list \<Rightarrow> 'a list \<Rightarrow> uid_cache \<Rightarrow> 'a list \<times> uid_cache"
  assumes loop_Nil: "loop [] acc c = (acc, c)"
    and loop_seen: "c (key x) \<noteq> None \<Longrightarrow> loop (x # xs) acc c = loop xs acc c"
    and loop_new: "c (key x) = None \<Longrightarrow>
      loop (x # xs) acc c = loop xs (acc @ [x]) (c(key x \<mapsto> True))"
begin

lemma loop_dedup:
  "fst (loop xs acc c) = acc @ dedup key (dom c) xs \<and>
   dom (snd (loop xs acc c)) = dom c \<union> key ` set xs"
proof (induction xs arbitrary: acc c)
  case Nil
  show ?case by (simp add: loop_Nil)
next
  case (Cons x xs)
  show ?case
  proof (cases "c (key x)")
    case None
    have "dom (c(key x \<mapsto> True)) = insert (key x) (dom c)" by simp
    with Cons [of "acc @ [x]" "c(key x \<mapsto> True)"] None show ?thesis
      by (simp only: loop_new) (auto simp: domIff simp del: dom_fun_upd)
  next
    case (Some b)
    with Cons [of acc c] show ?thesis by (auto simp: loop_seen domIff)
  qed
qed

lemma loop_list: "fst (loop xs acc c) = acc @ dedup key (dom c) xs"
  by (simp add: loop_dedup)

lemma loop_cache_dom: "dom (snd (loop xs acc c)) = dom c \<union> key ` set xs"
  by (simp add: loop_dedup)

end

end
