(* ===== verification/Buckets.thy ===== *)
theory Buckets
  imports Prelude
begin

text \<open>
  Buckets: Go maps from strings to slices, filled with \<open>m[k] = append(m[k], x)\<close>. The policy
  set and the endpoint set are both such indexes, and their readers rely only on the contract
  stated by the locale \<open>bucket_index\<close> at the end of this theory.
\<close>

type_synonym 'a buckets = "string \<rightharpoonup> 'a list"

text \<open>Reading a missing key gives the nil slice, which behaves as the empty one.\<close>

definition bucket_get :: "'a buckets \<Rightarrow> string \<Rightarrow> 'a list" where
  "bucket_get m k = (case m k of None \<Rightarrow> [] | Some xs \<Rightarrow> xs)"

definition bucket_add :: "'a buckets \<Rightarrow> string \<Rightarrow> 'a \<Rightarrow> 'a buckets" where
  "bucket_add m k x = m(k \<mapsto> bucket_get m k @ [x])"

lemma bucket_get_empty [simp]: "bucket_get Map.empty k = []"
  by (simp add: bucket_get_def)

lemma bucket_get_add:
  "bucket_get (bucket_add m k x) k' = bucket_get m k' @ (if k' = k then [x] else [])"
  by (simp add: bucket_add_def bucket_get_def)

lemma dom_bucket_add [simp]: "dom (bucket_add m k x) = insert k (dom m)"
  by (simp add: bucket_add_def)

text \<open>Adding one object under several keys, in order.\<close>

definition add_under :: "string list \<Rightarrow> 'a \<Rightarrow> 'a buckets \<Rightarrow> 'a buckets" where
  "add_under ks x m = fold (\<lambda>k m. bucket_add m k x) ks m"

lemma add_under_simps [simp]:
  "add_under [] x m = m"
  "add_under (k # ks) x m = add_under ks x (bucket_add m k x)"
  by (simp_all add: add_under_def)

lemma bucket_get_add_under:
  "bucket_get (add_under ks x m) k = bucket_get m k @ replicate (count_list ks k) x"
  by (induction ks arbitrary: m) (simp_all add: bucket_get_add replicate_app_Cons_same)

lemma dom_add_under: "dom (add_under ks x m) = dom m \<union> set ks"
  by (induction ks arbitrary: m) auto

lemma bucket_get_Some: "k \<in> dom m \<Longrightarrow> m k = Some (bucket_get m k)"
  by (auto simp: bucket_get_def)

lemma bucket_get_None: "k \<notin> dom m \<Longrightarrow> bucket_get m k = []"
  by (auto simp: bucket_get_def domIff)

section \<open>The contract of an index\<close>

text \<open>
  An index over \<open>items\<close>: a bucket holds only items filed under its key, every item filed
  under a key is in that bucket up to its UID, and no bucket is empty.
\<close>

locale bucket_index =
  fixes ident :: "'a \<Rightarrow> uid"
    and items :: "'a list"
    and keys :: "'a \<Rightarrow> string list"
    and buckets :: "'a buckets"
  assumes sound: "x \<in> set (bucket_get buckets k) \<Longrightarrow> x \<in> set items \<and> k \<in> set (keys x)"
    and complete: "x \<in> set items \<Longrightarrow> k \<in> set (keys x) \<Longrightarrow>
      \<exists>y. y \<in> set (bucket_get buckets k) \<and> ident y = ident x"
    and inhabited: "k \<in> dom buckets \<Longrightarrow> bucket_get buckets k \<noteq> []"
begin

definition hits :: "string list \<Rightarrow> 'a set" where
  "hits ks = {x. x \<in> set items \<and> set (keys x) \<inter> set ks \<noteq> {}}"

definition union_of :: "string list \<Rightarrow> 'a list" where
  "union_of ks = concat (map (bucket_get buckets) ks)"

lemma in_dom_iff: "k \<in> dom buckets \<longleftrightarrow> (\<exists>x. x \<in> set items \<and> k \<in> set (keys x))"
proof
  assume "k \<in> dom buckets"
  then obtain x where "x \<in> set (bucket_get buckets k)"
    using inhabited by (metis list.set_intros(1) neq_Nil_conv)
  then show "\<exists>x. x \<in> set items \<and> k \<in> set (keys x)" using sound by blast
next
  assume "\<exists>x. x \<in> set items \<and> k \<in> set (keys x)"
  then obtain x where "x \<in> set items" "k \<in> set (keys x)" by (elim exE conjE)
  from complete [OF this] obtain y where "y \<in> set (bucket_get buckets k)"
    by (elim exE conjE)
  then show "k \<in> dom buckets"
    using bucket_get_None [of k buckets] by (cases "k \<in> dom buckets") simp_all
qed

lemma union_of_subset: "set (union_of ks) \<subseteq> hits ks"
  by (auto simp: union_of_def hits_def dest: sound)

lemma ident_union_of: "ident ` set (union_of ks) = ident ` hits ks"
proof
  show "ident ` set (union_of ks) \<subseteq> ident ` hits ks"
    using union_of_subset by blast
  show "ident ` hits ks \<subseteq> ident ` set (union_of ks)"
  proof
    fix u assume "u \<in> ident ` hits ks"
    then obtain x k where x: "u = ident x" "x \<in> set items" "k \<in> set (keys x)" "k \<in> set ks"
      by (auto simp: hits_def)
    from complete [OF x(2,3)] obtain y where "y \<in> set (bucket_get buckets k)" "ident y = u"
      using x(1) by metis
    moreover from this x(4) have "y \<in> set (union_of ks)" by (auto simp: union_of_def)
    ultimately show "u \<in> ident ` set (union_of ks)" by (auto intro: rev_image_eqI)
  qed
qed

lemma set_union_of:
  assumes "inj_on ident (set items)"
  shows "set (union_of ks) = hits ks"
proof
  show "set (union_of ks) \<subseteq> hits ks" by (rule union_of_subset)
  show "hits ks \<subseteq> set (union_of ks)"
  proof
    fix x assume x: "x \<in> hits ks"
    then have "ident x \<in> ident ` set (union_of ks)" by (simp add: ident_union_of)
    then obtain y where y: "y \<in> set (union_of ks)" "ident y = ident x"
      unfolding image_iff by metis
    with x union_of_subset [of ks] have "y = x"
      using assms by (auto simp: hits_def dest: inj_onD)
    with y show "x \<in> set (union_of ks)" by simp
  qed
qed

lemma union_of_empty_iff: "union_of ks = [] \<longleftrightarrow> hits ks = {}"
  using ident_union_of [of ks] by (metis image_is_empty set_empty)

end

end
