(* ===== verification/Poltypes.thy ===== *)
theory Poltypes
  imports Buckets
begin

text \<open>
  The data of the policer: the Kubernetes and DANM objects with the fields the code reads,
  the DanmNetworkPolicy API (\<open>crd/api/netpol/v1/types.go\<close>), and the types and constants of
  \<open>types/poltypes/poltypes.go\<close>.
\<close>

section \<open>Objects of the Kubernetes and DANM APIs\<close>

text \<open>
  A Go map value that the code only ranges over (labels, match labels) is the list of its
  entries in the order in which the range loop of this run visits them; Go leaves that order
  open, so the lists are arbitrary. No modelled operation ranges over one map value twice.
\<close>

type_synonym labels = "(string \<times> string) list"

record object_meta =
  Name :: string
  Namespace :: string
  UID :: uid
  Labels :: labels
  ResourceVersion :: string

record pod =
  PodMeta :: object_meta
  NodeName :: string
  Phase :: string

record danm_iface =
  IfaceName :: string
  Address :: string
  AddressIPv6 :: string

record danm_ep_spec =
  NetworkName :: string
  NetworkType :: string
  ApiType :: string
  PodName :: string
  PodUID :: uid
  Netns :: string
  Iface :: danm_iface

record danm_ep =
  EpMeta :: object_meta
  EpSpec :: danm_ep_spec

abbreviation ep_uid :: "danm_ep \<Rightarrow> uid" where
  "ep_uid dep \<equiv> UID (EpMeta dep)"

text \<open>The options of a DANM network the programs read, \<open>Pool\<close> and \<open>Pool6\<close> flattened.\<close>

record danm_net_options =
  Alloc :: string
  Alloc6 :: string
  Cidr :: string
  PoolStart :: string
  PoolEnd :: string
  Pool6Cidr :: string
  Pool6Start :: string
  Pool6End :: string

record danm_net =
  NetMeta :: object_meta
  Options :: danm_net_options

record label_requirement =
  ReqKey :: string
  ReqOperator :: string
  ReqValues :: "string list"

record label_selector =
  MatchLabels :: labels
  MatchExpressions :: "label_requirement list"

text \<open>
  What the policer takes from its libraries, and a parameter of every operation that uses it:
  \<open>metav1.LabelSelectorAsMap\<close>, which answers with an error or with the entries of the
  resulting map, and the constant \<open>ipam.NoneAllocType\<close>, the address of an interface that
  asked for no IP.
\<close>

record libs =
  LabelSelectorAsMap :: "label_selector \<Rightarrow> string + labels"
  NoneAllocType :: string

text \<open>\<open>intstr.IntOrString\<close> and \<open>networking.NetworkPolicyPort\<close>: \<open>None\<close> is a nil pointer.\<close>

datatype int_or_string_type = IosInt | IosString

record int_or_string =
  IosType :: int_or_string_type
  IntVal :: int
  StrVal :: string

record network_policy_port =
  Protocol :: "string option"
  Port :: "int_or_string option"

section \<open>The DanmNetworkPolicy API\<close>

record network_selector =
  SelName :: string
  SelType :: string

record network_policy_peer =
  PeerPodSelector :: label_selector
  PeerNamespaceSelector :: label_selector
  PeerNetworkSelector :: "network_selector list"

record network_policy_ingress_rule =
  IngressPorts :: "network_policy_port list"
  From :: "network_policy_peer list"

record network_policy_egress_rule =
  EgressPorts :: "network_policy_port list"
  To :: "network_policy_peer list"

record netpol_spec =
  PodSelector :: label_selector
  Ingress :: "network_policy_ingress_rule list"
  Egress :: "network_policy_egress_rule list"
  PolicyTypes :: "string list"

record type_meta =
  Kind :: string
  APIVersion :: string

record danm_network_policy =
  PolTypeMeta :: type_meta
  PolMeta :: object_meta
  PolSpec :: netpol_spec

abbreviation pol_uid :: "danm_network_policy \<Rightarrow> uid" where
  "pol_uid policy \<equiv> UID (PolMeta policy)"

section \<open>Constants of poltypes\<close>

definition DefaultBucketName :: string where [const_defs]:
  "DefaultBucketName = ''default''"

definition CustomBucketPostfix :: string where [const_defs]:
  "CustomBucketPostfix = ''bucket42''"

definition IptablesReject :: string where [const_defs]:
  "IptablesReject = ''REJECT''"

definition IptablesAccept :: string where [const_defs]:
  "IptablesAccept = ''ACCEPT''"

definition IptablesReturn :: string where [const_defs]:
  "IptablesReturn = ''RETURN''"

definition IngressV4ChainName :: string where [const_defs]:
  "IngressV4ChainName = ''DANM_INGRESS_V4''"

definition IngressV6ChainName :: string where [const_defs]:
  "IngressV6ChainName = ''DANM_INGRESS_V6''"

definition EgressV4ChainName :: string where [const_defs]:
  "EgressV4ChainName = ''DANM_EGRESS_V4''"

definition EgressV6ChainName :: string where [const_defs]:
  "EgressV6ChainName = ''DANM_EGRESS_V6''"

definition StateEstablishedRelated :: string where [const_defs]:
  "StateEstablishedRelated = ''ESTABLISHED,RELATED''"

definition StateNewEstablished :: string where [const_defs]:
  "StateNewEstablished = ''NEW,ESTABLISHED''"

definition DanmNetKind :: string where [const_defs]:
  "DanmNetKind = ''DanmNet''"

definition ClusterNetworkKind :: string where [const_defs]:
  "ClusterNetworkKind = ''ClusterNetwork''"

text \<open>The key under which a label is filed: \<open>key + value + poltypes.CustomBucketPostfix\<close>.\<close>

definition label_bucket :: "string \<times> string \<Rightarrow> string" where
  "label_bucket kv = fst kv @ snd kv @ CustomBucketPostfix"

lemma label_bucket_eq_iff: "label_bucket e = label_bucket l \<longleftrightarrow> fst e @ snd e = fst l @ snd l"
  unfolding label_bucket_def by (simp flip: append_assoc)

lemma label_bucket_not_default [simp]: "label_bucket kv \<noteq> DefaultBucketName"
proof
  assume "label_bucket kv = DefaultBucketName"
  then have "last (label_bucket kv) = last DefaultBucketName" by simp
  then show False by (simp add: label_bucket_def const_defs)
qed

lemma default_not_label_bucket [simp]: "DefaultBucketName \<noteq> label_bucket kv"
  using label_bucket_not_default [of kv] by (rule not_sym)

section \<open>Rules, chains and rule sets\<close>

record danm_ep_set =
  DanmEpsByLabel :: "danm_ep buckets"
  DanmEpsByNetwork :: "danm_ep buckets"
  PodEps :: "danm_ep list"

record net_rule =
  SourceIp :: string
  SourcePort :: string
  SourceIface :: string
  DestIp :: string
  DestPort :: string
  DestIface :: string
  RuleProtocol :: string
  Operation :: string
  CtState :: string

text \<open>The zero value of a rule, which composite literals start from.\<close>

definition zero_rule :: net_rule where
  "zero_rule = \<lparr>SourceIp = [], SourcePort = [], SourceIface = [], DestIp = [], DestPort = [],
     DestIface = [], RuleProtocol = [], Operation = [], CtState = []\<rparr>"

record net_rule_chain =
  ChainName :: string
  Rules :: "net_rule list"

record net_rule_set =
  IngressV4Chain :: net_rule_chain
  IngressV6Chain :: net_rule_chain
  EgressV4Chain :: net_rule_chain
  EgressV6Chain :: net_rule_chain
  RuleNetns :: string

definition NetRule_String :: "net_rule \<Rightarrow> string" where
  "NetRule_String rule =
     (if RuleProtocol rule \<noteq> [] then ''protocol:'' @ RuleProtocol rule else []) @
     (if SourcePort rule \<noteq> [] then '' source port:'' @ SourcePort rule else []) @
     (if DestPort rule \<noteq> [] then '' dest port:'' @ DestPort rule else []) @
     (if SourceIface rule \<noteq> [] then '' source dev:'' @ SourceIface rule else []) @
     (if DestIface rule \<noteq> [] then '' dest dev:'' @ DestIface rule else []) @
     (if SourceIp rule \<noteq> [] then '' source IP:'' @ SourceIp rule else []) @
     (if DestIp rule \<noteq> [] then '' dest IP:'' @ DestIp rule else []) @
     (if Operation rule \<noteq> [] then '' op:'' @ Operation rule else []) @
     (if CtState rule \<noteq> [] then '' state:'' @ CtState rule else [])"

end
