(* ===== verification/Polset.thy ===== *)
theory Polset
  imports Poltypes
begin

text \<open>
  \<open>pkg/polset\<close>: the DanmNetworkPolicies of a namespace sorted into buckets by the labels of
  their Pod selector, and the selection of the policies that apply to a Pod.
\<close>

section \<open>Sorting policies into buckets\<close>

fun addToSelectorBuckets ::
  "labels \<Rightarrow> danm_network_policy \<Rightarrow> danm_network_policy buckets \<Rightarrow> danm_network_policy buckets" where
  "addToSelectorBuckets [] policy polBuckets = polBuckets"
| "addToSelectorBuckets (kv # selectors) policy polBuckets =
     addToSelectorBuckets selectors policy (bucket_add polBuckets (label_bucket kv) policy)"

fun sortPolicies ::
  "libs \<Rightarrow> danm_network_policy list \<Rightarrow> danm_network_policy buckets \<Rightarrow> danm_network_policy buckets" where
  "sortPolicies lib [] polBuckets = polBuckets"
| "sortPolicies lib (policy # netPols) polBuckets =
     (case LabelSelectorAsMap lib (PodSelector (PolSpec policy)) of
        Inl err \<Rightarrow> sortPolicies lib netPols polBuckets
      | Inr selectors \<Rightarrow>
          if length selectors = 0
          then sortPolicies lib netPols (bucket_add polBuckets DefaultBucketName policy)
          else sortPolicies lib netPols (addToSelectorBuckets selectors policy polBuckets))"

definition sortPoliciesIntoBuckets ::
  "libs \<Rightarrow> danm_network_policy list \<Rightarrow> danm_network_policy buckets" where
  "sortPoliciesIntoBuckets lib netPols = sortPolicies lib netPols Map.empty"

text \<open>\<open>NewPolicySet\<close> after its list call answered; a failed call leaves the set empty.\<close>

definition NewPolicySet ::
  "libs \<Rightarrow> string + danm_network_policy list \<Rightarrow> danm_network_policy buckets" where
  "NewPolicySet lib netPols =
     (case netPols of
        Inl err \<Rightarrow> Map.empty
      | Inr items \<Rightarrow> sortPoliciesIntoBuckets lib items)"

section \<open>Filtering the applicable policies\<close>

fun filterPoliciesWithoutDupes ::
  "danm_network_policy list \<Rightarrow> danm_network_policy list \<Rightarrow> uid_cache \<Rightarrow>
   danm_network_policy list \<times> uid_cache" where
  "filterPoliciesWithoutDupes [] applicablePolicies podUidCache = (applicablePolicies, podUidCache)"
| "filterPoliciesWithoutDupes (policy # policies) applicablePolicies podUidCache =
     (if podUidCache (pol_uid policy) = None
      then filterPoliciesWithoutDupes policies (applicablePolicies @ [policy])
             (podUidCache(pol_uid policy \<mapsto> True))
      else filterPoliciesWithoutDupes policies applicablePolicies podUidCache)"

fun filterByLabels ::
  "danm_network_policy buckets \<Rightarrow> labels \<Rightarrow> danm_network_policy list \<Rightarrow> uid_cache \<Rightarrow>
   danm_network_policy list \<times> uid_cache" where
  "filterByLabels netPols [] applicablePolicies polUidCache = (applicablePolicies, polUidCache)"
| "filterByLabels netPols (kv # podLabels) applicablePolicies polUidCache =
     (case netPols (label_bucket kv) of
        Some policies \<Rightarrow>
          (let (applicablePolicies', polUidCache') =
             filterPoliciesWithoutDupes policies applicablePolicies polUidCache
           in filterByLabels netPols podLabels applicablePolicies' polUidCache')
      | None \<Rightarrow> filterByLabels netPols podLabels applicablePolicies polUidCache)"

definition FilterApplicablePolicies ::
  "danm_network_policy buckets \<Rightarrow> pod \<Rightarrow> danm_network_policy list" where
  "FilterApplicablePolicies netPols pod =
     (let (applicablePolicies, polUidCache) =
        filterByLabels netPols (Labels (PodMeta pod)) [] Map.empty
      in case netPols DefaultBucketName of
           Some policies \<Rightarrow>
             fst (filterPoliciesWithoutDupes policies applicablePolicies polUidCache)
         | None \<Rightarrow> applicablePolicies)"

section \<open>The buckets are an index\<close>

text \<open>The keys a policy is filed under, and the keys a Pod looks up.\<close>

definition policy_keys :: "libs \<Rightarrow> danm_network_policy \<Rightarrow> string list" where
  "policy_keys lib policy =
     (case LabelSelectorAsMap lib (PodSelector (PolSpec policy)) of
        Inl err \<Rightarrow> []
      | Inr selectors \<Rightarrow>
          if selectors = [] then [DefaultBucketName] else map label_bucket selectors)"

definition pod_keys :: "pod \<Rightarrow> string list" where
  "pod_keys pod = map label_bucket (Labels (PodMeta pod)) @ [DefaultBucketName]"

lemma addToSelectorBuckets_eq:
  "addToSelectorBuckets es policy m = add_under (map label_bucket es) policy m"
  by (induction es arbitrary: m) simp_all

lemma sortPolicies_eq:
  "sortPolicies lib ps m = fold (\<lambda>p. add_under (policy_keys lib p) p) ps m"
  by (induction ps arbitrary: m)
    (auto simp: policy_keys_def addToSelectorBuckets_eq split: sum.split)

lemma sortPolicies_member:
  "x \<in> set (bucket_get (sortPolicies lib ps m) k) \<longleftrightarrow>
     x \<in> set (bucket_get m k) \<or> x \<in> set ps \<and> k \<in> set (policy_keys lib x)"
  unfolding sortPolicies_eq
proof (induction ps arbitrary: m)
  case (Cons p ps)
  have "0 < count_list ks k \<longleftrightarrow> k \<in> set ks" for ks :: "string list"
    using count_list_0_iff [of ks k] by (metis neq0_conv)
  with Cons show ?case by (auto simp: bucket_get_add_under)
qed simp

lemma dom_sortPolicies:
  "dom (sortPolicies lib ps m) = dom m \<union> (\<Union>p \<in> set ps. set (policy_keys lib p))"
  unfolding sortPolicies_eq
  by (induction ps arbitrary: m) (auto simp: dom_add_under)

interpretation pi: bucket_index pol_uid items "policy_keys lib" "sortPoliciesIntoBuckets lib items"
  for items lib
proof
  fix x k
  show "x \<in> set (bucket_get (sortPoliciesIntoBuckets lib items) k) \<Longrightarrow>
      x \<in> set items \<and> k \<in> set (policy_keys lib x)"
    by (simp add: sortPoliciesIntoBuckets_def sortPolicies_member)
  show "x \<in> set items \<Longrightarrow> k \<in> set (policy_keys lib x) \<Longrightarrow>
      \<exists>y. y \<in> set (bucket_get (sortPoliciesIntoBuckets lib items) k) \<and> pol_uid y = pol_uid x"
    by (auto simp: sortPoliciesIntoBuckets_def sortPolicies_member)
next
  fix k
  assume "k \<in> dom (sortPoliciesIntoBuckets lib items)"
  then obtain p where "p \<in> set items" "k \<in> set (policy_keys lib p)"
    by (auto simp: sortPoliciesIntoBuckets_def dom_sortPolicies)
  then have "p \<in> set (bucket_get (sortPoliciesIntoBuckets lib items) k)"
    by (simp add: sortPoliciesIntoBuckets_def sortPolicies_member)
  then show "bucket_get (sortPoliciesIntoBuckets lib items) k \<noteq> []" by auto
qed

section \<open>The filter reads the index without duplicates\<close>

interpretation fp: uid_loop pol_uid filterPoliciesWithoutDupes
  by unfold_locales auto

lemma filterByLabels_eq:
  "filterByLabels netPols ls acc c =
     filterPoliciesWithoutDupes (concat (map (bucket_get netPols) (map label_bucket ls))) acc c"
proof (induction ls arbitrary: acc c)
  case (Cons kv ls)
  have app: "filterPoliciesWithoutDupes (xs @ ys) acc c =
      (let (acc', c') = filterPoliciesWithoutDupes xs acc c
       in filterPoliciesWithoutDupes ys acc' c')" for xs ys acc c
    by (induction xs arbitrary: acc c) auto
  show ?case
    by (auto simp: Cons.IH app bucket_get_def split: option.split prod.split)
qed simp

theorem FilterApplicablePolicies_eq:
  "FilterApplicablePolicies netPols pod =
     dedup pol_uid {} (concat (map (bucket_get netPols) (pod_keys pod)))"
proof -
  let ?xs = "concat (map (bucket_get netPols) (map label_bucket (Labels (PodMeta pod))))"
  let ?r = "filterPoliciesWithoutDupes ?xs [] Map.empty"
  have "FilterApplicablePolicies netPols pod =
      fst (filterPoliciesWithoutDupes (bucket_get netPols DefaultBucketName) (fst ?r) (snd ?r))"
    by (auto simp: FilterApplicablePolicies_def filterByLabels_eq bucket_get_def Let_def
        split: option.split prod.split)
  also have "\<dots> = dedup pol_uid {} (?xs @ bucket_get netPols DefaultBucketName)"
    by (simp add: fp.loop_list fp.loop_cache_dom dedup_append)
  finally show ?thesis by (simp add: pod_keys_def)
qed

section \<open>Which policies apply\<close>

text \<open>
  What the code selects: the selector parses and is empty, or one of its entries and one of
  the Pod's labels are the same once key and value are concatenated.
\<close>

definition code_selects :: "libs \<Rightarrow> danm_network_policy \<Rightarrow> pod \<Rightarrow> bool" where
  "code_selects lib policy pod =
     (case LabelSelectorAsMap lib (PodSelector (PolSpec policy)) of
        Inl err \<Rightarrow> False
      | Inr selectors \<Rightarrow> selectors = [] \<or>
          list_ex (\<lambda>e. list_ex (\<lambda>l. fst e @ snd e = fst l @ snd l) (Labels (PodMeta pod))) selectors)"

text \<open>The Kubernetes rule: every entry of the selector is a label of the Pod.\<close>

definition k8s_selects :: "libs \<Rightarrow> danm_network_policy \<Rightarrow> pod \<Rightarrow> bool" where
  "k8s_selects lib policy pod =
     (case LabelSelectorAsMap lib (PodSelector (PolSpec policy)) of
        Inl err \<Rightarrow> False
      | Inr selectors \<Rightarrow> list_all (\<lambda>kv. kv \<in> set (Labels (PodMeta pod))) selectors)"

lemma keys_meet_iff_code_selects:
  "set (policy_keys lib policy) \<inter> set (pod_keys pod) \<noteq> {} \<longleftrightarrow> code_selects lib policy pod"
proof -
  have meet: "set (map label_bucket es) \<inter> set (pod_keys pod) \<noteq> {} \<longleftrightarrow>
      list_ex (\<lambda>e. list_ex (\<lambda>l. fst e @ snd e = fst l @ snd l) (Labels (PodMeta pod))) es" for es
  proof -
    have "set (map label_bucket es) \<inter> set (pod_keys pod) \<noteq> {} \<longleftrightarrow>
        (\<exists>e \<in> set es. \<exists>l \<in> set (Labels (PodMeta pod)). label_bucket e = label_bucket l)"
      by (auto simp: pod_keys_def)
    then show ?thesis by (simp add: list_ex_iff label_bucket_eq_iff)
  qed
  show ?thesis
  proof (cases "LabelSelectorAsMap lib (PodSelector (PolSpec policy))")
    case (Inl e)
    then show ?thesis by (simp add: policy_keys_def code_selects_def)
  next
    case (Inr es)
    show ?thesis
    proof (cases "es = []")
      case True
      with Inr show ?thesis by (simp add: policy_keys_def code_selects_def pod_keys_def)
    next
      case False
      with Inr meet [of es] show ?thesis by (simp add: policy_keys_def code_selects_def)
    qed
  qed
qed

lemma hits_eq: "pi.hits items lib (pod_keys pod) = {p. p \<in> set items \<and> code_selects lib p pod}"
  using keys_meet_iff_code_selects by (auto simp: pi.hits_def)

lemma applicable_eq_dedup_union:
  "FilterApplicablePolicies (NewPolicySet lib (Inr items)) pod =
     dedup pol_uid {} (pi.union_of lib items (pod_keys pod))"
  by (simp add: FilterApplicablePolicies_eq NewPolicySet_def pi.union_of_def)

lemma uids_applicable:
  "pol_uid ` set (FilterApplicablePolicies (NewPolicySet lib (Inr items)) pod) =
     pol_uid ` {p. p \<in> set items \<and> code_selects lib p pod}"
  by (simp only: applicable_eq_dedup_union keys_dedup Diff_empty pi.ident_union_of hits_eq)

lemma set_applicable:
  assumes "inj_on pol_uid (set items)"
  shows "set (FilterApplicablePolicies (NewPolicySet lib (Inr items)) pod) =
     {p. p \<in> set items \<and> code_selects lib p pod}"
proof -
  have "set (pi.union_of lib items (pod_keys pod)) = pi.hits items lib (pod_keys pod)"
    using assms by (rule pi.set_union_of)
  moreover have "inj_on pol_uid (pi.hits items lib (pod_keys pod))"
    using assms by (rule inj_on_subset) (auto simp: pi.hits_def)
  ultimately show ?thesis
    by (simp add: applicable_eq_dedup_union set_dedup_inj hits_eq)
qed

lemma k8s_selects_code_selects:
  assumes "k8s_selects lib policy pod"
  shows "code_selects lib policy pod"
proof (cases "LabelSelectorAsMap lib (PodSelector (PolSpec policy))")
  case (Inr es)
  with assms have all: "\<forall>e \<in> set es. e \<in> set (Labels (PodMeta pod))"
    by (simp add: k8s_selects_def list_all_iff)
  show ?thesis
  proof (cases es)
    case (Cons e es')
    with all Inr show ?thesis by (auto simp: code_selects_def list_ex_iff)
  qed (simp add: code_selects_def Inr)
qed (use assms in \<open>simp add: k8s_selects_def\<close>)

section \<open>Properties\<close>

text \<open>
  C10: The policies applied to a Pod are exactly the listed ones that \<open>code_selects\<close> picks, each
  of them once: the buckets, the UID cache and the default bucket lose and duplicate nothing.
\<close>

theorem applicable_policies_exact:
  assumes "inj_on pol_uid (set items)"
  shows "set (FilterApplicablePolicies (NewPolicySet lib (Inr items)) pod) =
      {p. p \<in> set items \<and> code_selects lib p pod} \<and>
    distinct (map pol_uid (FilterApplicablePolicies (NewPolicySet lib (Inr items)) pod))"
  by (simp add: set_applicable [OF assms]) (simp add: applicable_eq_dedup_union distinct_dedup)

text \<open>
  No isolation is missed: a policy whose selector the Pod's labels satisfy in the Kubernetes
  sense is among the applicable ones, up to policies that share its UID.
\<close>

theorem selected_policies_apply:
  assumes "p \<in> set items" and "k8s_selects lib p pod"
  shows "pol_uid p \<in> pol_uid ` set (FilterApplicablePolicies (NewPolicySet lib (Inr items)) pod)"
  using assms k8s_selects_code_selects by (simp add: uids_applicable)

text \<open>
  One label suffices: a policy with several match labels applies to a Pod as soon as one of
  its entries and one of the Pod's labels agree in the concatenation of key and value.
\<close>

theorem one_label_suffices:
  assumes "p \<in> set items" and "LabelSelectorAsMap lib (PodSelector (PolSpec p)) = Inr es"
    and "(k, v) \<in> set es" and "(k', v') \<in> set (Labels (PodMeta pod))" and "k @ v = k' @ v'"
  shows "pol_uid p \<in> pol_uid ` set (FilterApplicablePolicies (NewPolicySet lib (Inr items)) pod)"
proof -
  have "code_selects lib p pod"
    using assms(2,5) bexI [OF bexI [OF _ assms(4)] assms(3),
      of "\<lambda>e l. fst e @ snd e = fst l @ snd l"]
    by (simp add: code_selects_def list_ex_iff)
  with assms(1) show ?thesis by (simp add: uids_applicable)
qed

text \<open>
  The order in which Go visits the Pod's labels does not matter: two visits of the same
  labels find policies with the same UIDs.
\<close>

theorem label_order_irrelevant:
  assumes "set (Labels (PodMeta pod)) = set (Labels (PodMeta pod'))"
  shows "pol_uid ` set (FilterApplicablePolicies (NewPolicySet lib (Inr items)) pod) =
     pol_uid ` set (FilterApplicablePolicies (NewPolicySet lib (Inr items)) pod')"
proof -
  have "code_selects lib p pod = code_selects lib p pod'" for p
    using assms by (simp add: code_selects_def list_ex_iff split: sum.split)
  then show ?thesis by (simp add: uids_applicable)
qed

section \<open>The properties at concrete inputs\<close>

definition plain_meta :: "string \<Rightarrow> uid \<Rightarrow> labels \<Rightarrow> object_meta" where
  "plain_meta name u ls = \<lparr>Name = name, Namespace = ''ns'', UID = u, Labels = ls, ResourceVersion = []\<rparr>"

definition no_selector :: label_selector where
  "no_selector = \<lparr>MatchLabels = [], MatchExpressions = []\<rparr>"

definition label_policy :: "uid \<Rightarrow> labels \<Rightarrow> danm_network_policy" where
  "label_policy u ls = \<lparr>PolTypeMeta = \<lparr>Kind = [], APIVersion = []\<rparr>, PolMeta = plain_meta ''p'' u [],
     PolSpec = \<lparr>PodSelector = \<lparr>MatchLabels = ls, MatchExpressions = []\<rparr>, Ingress = [], Egress = [],
       PolicyTypes = []\<rparr>\<rparr>"

definition label_pod :: "labels \<Rightarrow> pod" where
  "label_pod ls = \<lparr>PodMeta = plain_meta ''pod'' ''pod-uid'' ls, NodeName = ''node'', Phase = ''Running''\<rparr>"

text \<open>A library that takes the match labels as they are.\<close>

definition match_labels_lib :: libs where
  "match_labels_lib = \<lparr>LabelSelectorAsMap = \<lambda>sel. Inr (MatchLabels sel), NoneAllocType = ''none''\<rparr>"

lemmas polset_example_defs = plain_meta_def label_policy_def label_pod_def match_labels_lib_def
  k8s_selects_def

lemma applicable_policies_exact_witness:
  "set (FilterApplicablePolicies (NewPolicySet match_labels_lib (Inr [label_policy ''u'' []]))
      (label_pod [])) = {p. p \<in> set [label_policy ''u'' []] \<and>
        code_selects match_labels_lib p (label_pod [])}"
  using applicable_policies_exact [of "[label_policy ''u'' []]" match_labels_lib "label_pod []"]
  by simp

lemma selected_policies_apply_witness:
  "''u'' \<in> pol_uid ` set (FilterApplicablePolicies
     (NewPolicySet match_labels_lib (Inr [label_policy ''u'' [(''app'', ''web'')]]))
     (label_pod [(''tier'', ''1''), (''app'', ''web'')]))"
  using selected_policies_apply [of "label_policy ''u'' [(''app'', ''web'')]"
      "[label_policy ''u'' [(''app'', ''web'')]]" match_labels_lib
      "label_pod [(''tier'', ''1''), (''app'', ''web'')]"]
  by (simp add: polset_example_defs)

lemma one_label_suffices_witness:
  "''u'' \<in> pol_uid ` set (FilterApplicablePolicies
     (NewPolicySet match_labels_lib (Inr [label_policy ''u'' [(''app'', ''web''), (''env'', ''prod'')]]))
     (label_pod [(''ap'', ''pweb'')])) \<and>
   \<not> k8s_selects match_labels_lib (label_policy ''u'' [(''app'', ''web''), (''env'', ''prod'')])
     (label_pod [(''ap'', ''pweb'')])"
  using one_label_suffices [of "label_policy ''u'' [(''app'', ''web''), (''env'', ''prod'')]"
      "[label_policy ''u'' [(''app'', ''web''), (''env'', ''prod'')]]" match_labels_lib
      "[(''app'', ''web''), (''env'', ''prod'')]" "''app''" "''web''" "''ap''" "''pweb''"
      "label_pod [(''ap'', ''pweb'')]"]
  by (simp add: polset_example_defs)

lemma label_order_irrelevant_witness:
  "pol_uid ` set (FilterApplicablePolicies (NewPolicySet match_labels_lib (Inr [label_policy ''u'' []]))
      (label_pod [(''a'', ''1''), (''b'', ''2'')])) =
   pol_uid ` set (FilterApplicablePolicies (NewPolicySet match_labels_lib (Inr [label_policy ''u'' []]))
      (label_pod [(''b'', ''2''), (''a'', ''1'')]))"
  by (rule label_order_irrelevant) (auto simp: polset_example_defs)

end
