(* ===== verification/Depset.thy ===== *)
theory Depset
  imports Poltypes
begin

text \<open>
  \<open>pkg/depset\<close>: the DanmEps of a namespace sorted into buckets by label and by network, and
  the endpoints of the Pod itself.
\<close>

section \<open>Sorting endpoints\<close>

definition networkBucketName :: "danm_ep \<Rightarrow> string" where
  "networkBucketName dep =
     NetworkName (EpSpec dep) @ ApiType (EpSpec dep) @
     (if ApiType (EpSpec dep) = [] then DanmNetKind else [])"

text \<open>
  The loop over the labels of one endpoint. \<open>depUidCache\<close> maps a bucket to its UID cache;
  reading the missing (nil) cache finds no UID, writing creates it first.
\<close>

fun addDepLabels ::
  "labels \<Rightarrow> danm_ep \<Rightarrow> danm_ep buckets \<Rightarrow> (string \<rightharpoonup> uid_cache) \<Rightarrow>
   danm_ep buckets \<times> (string \<rightharpoonup> uid_cache)" where
  "addDepLabels [] dep depPodLabelBuckets depUidCache = (depPodLabelBuckets, depUidCache)"
| "addDepLabels (kv # depLabels) dep depPodLabelBuckets depUidCache =
     (let bucket = label_bucket kv;
          cache = (case depUidCache bucket of None \<Rightarrow> Map.empty | Some c \<Rightarrow> c)
      in if cache (ep_uid dep) = None
         then addDepLabels depLabels dep (bucket_add depPodLabelBuckets bucket dep)
                (depUidCache(bucket \<mapsto> cache(ep_uid dep \<mapsto> True)))
         else addDepLabels depLabels dep depPodLabelBuckets depUidCache)"

fun sortDepsLoop ::
  "danm_ep list \<Rightarrow> pod \<Rightarrow> danm_ep buckets \<Rightarrow> danm_ep buckets \<Rightarrow> (string \<rightharpoonup> uid_cache) \<Rightarrow>
   danm_ep list \<Rightarrow> danm_ep buckets \<times> danm_ep buckets \<times> danm_ep list" where
  "sortDepsLoop [] pod depPodLabelBuckets depNetworkBuckets depUidCache podEps =
     (depPodLabelBuckets, depNetworkBuckets, podEps)"
| "sortDepsLoop (dep # deps) pod depPodLabelBuckets depNetworkBuckets depUidCache podEps =
     (let podEps' = (if PodUID (EpSpec dep) = UID (PodMeta pod) then podEps @ [dep] else podEps);
          depNetworkBuckets' = bucket_add depNetworkBuckets (networkBucketName dep) dep;
          (depPodLabelBuckets', depUidCache') =
            addDepLabels (Labels (EpMeta dep)) dep depPodLabelBuckets depUidCache
      in sortDepsLoop deps pod depPodLabelBuckets' depNetworkBuckets' depUidCache' podEps')"

definition sortDeps ::
  "danm_ep list \<Rightarrow> pod \<Rightarrow> danm_ep buckets \<times> danm_ep buckets \<times> danm_ep list" where
  "sortDeps deps pod = sortDepsLoop deps pod Map.empty Map.empty Map.empty []"

text \<open>\<open>NewDanmEpSet\<close> after its list call answered; on an error the set is the zero value.\<close>

definition NewDanmEpSet :: "string + danm_ep list \<Rightarrow> pod \<Rightarrow> danm_ep_set" where
  "NewDanmEpSet deps pod =
     (case deps of
        Inl err \<Rightarrow> \<lparr>DanmEpsByLabel = Map.empty, DanmEpsByNetwork = Map.empty, PodEps = []\<rparr>
      | Inr items \<Rightarrow>
          (let (byLabel, byNetwork, podEps) = sortDeps items pod
           in \<lparr>DanmEpsByLabel = byLabel, DanmEpsByNetwork = byNetwork, PodEps = podEps\<rparr>))"

section \<open>What the loop computes\<close>

definition dep_label_keys :: "danm_ep \<Rightarrow> string list" where
  "dep_label_keys dep = map label_bucket (Labels (EpMeta dep))"

text \<open>The label buckets and the caches agree: a cache holds the UIDs of its bucket.\<close>

definition caches_agree :: "danm_ep buckets \<Rightarrow> (string \<rightharpoonup> uid_cache) \<Rightarrow> bool" where
  "caches_agree m c \<longleftrightarrow> dom c = dom m \<and>
     (\<forall>b. dom (case c b of None \<Rightarrow> Map.empty | Some uc \<Rightarrow> uc) = ep_uid ` set (bucket_get m b))"

lemma caches_agree_empty: "caches_agree Map.empty Map.empty"
  by (simp add: caches_agree_def)

lemma caches_agree_seen:
  assumes "caches_agree m c"
  shows "(case c b of None \<Rightarrow> Map.empty | Some uc \<Rightarrow> uc) u \<noteq> None \<longleftrightarrow>
     u \<in> ep_uid ` set (bucket_get m b)"
  using assms unfolding caches_agree_def by (metis domIff)

lemma caches_agree_add:
  assumes "caches_agree m c"
  shows "caches_agree (bucket_add m b dep)
     (c(b \<mapsto> (case c b of None \<Rightarrow> Map.empty | Some uc \<Rightarrow> uc)(ep_uid dep \<mapsto> True)))"
  using assms by (auto simp: caches_agree_def bucket_get_add)

lemma addDepLabels_spec:
  assumes "addDepLabels ls dep m c = (m', c')" and "caches_agree m c"
  shows "caches_agree m' c' \<and>
    (\<forall>b. bucket_get m' b = bucket_get m b @
       (if b \<in> label_bucket ` set ls \<and> ep_uid dep \<notin> ep_uid ` set (bucket_get m b)
        then [dep] else [])) \<and>
    dom m \<subseteq> dom m' \<and> (\<forall>b. b \<in> dom m' \<longrightarrow> b \<in> dom m \<or> bucket_get m' b \<noteq> [])"
  using assms
proof (induction ls arbitrary: m c)
  case Nil
  then show ?case by simp
next
  case (Cons kv ls)
  let ?b = "label_bucket kv"
  let ?uc = "case c ?b of None \<Rightarrow> Map.empty | Some uc \<Rightarrow> uc"
  show ?case
  proof (cases "?uc (ep_uid dep) = None")
    case True
    with Cons.prems(1) have "addDepLabels ls dep (bucket_add m ?b dep)
        (c(?b \<mapsto> ?uc(ep_uid dep \<mapsto> True))) = (m', c')"
      by (simp add: Let_def)
    note IH = Cons.IH [OF this caches_agree_add [OF Cons.prems(2)]]
    have "ep_uid dep \<notin> ep_uid ` set (bucket_get m ?b)"
      using caches_agree_seen [OF Cons.prems(2), of ?b "ep_uid dep"] True by simp
    with IH show ?thesis by (auto simp: bucket_get_add)
  next
    case False
    with Cons.prems(1) have "addDepLabels ls dep m c = (m', c')" by (simp add: Let_def)
    note IH = Cons.IH [OF this Cons.prems(2)]
    have "ep_uid dep \<in> ep_uid ` set (bucket_get m ?b)"
      using caches_agree_seen [OF Cons.prems(2), of ?b "ep_uid dep"] False by simp
    with IH show ?thesis by auto
  qed
qed

lemma sortDepsLoop_by_label:
  assumes "sortDepsLoop deps pod m n c pe = (m', n', pe')" and "caches_agree m c"
  shows "bucket_get m' b = bucket_get m b @
     dedup ep_uid (ep_uid ` set (bucket_get m b)) [x \<leftarrow> deps. b \<in> set (dep_label_keys x)]"
  using assms
proof (induction deps arbitrary: m n c pe)
  case (Cons dep deps)
  obtain m1 c1 where l: "addDepLabels (Labels (EpMeta dep)) dep m c = (m1, c1)" by fastforce
  note l1 = addDepLabels_spec [OF l Cons.prems(2)]
  from Cons.prems(1) l obtain n1 pe1 where
    "sortDepsLoop deps pod m1 n1 c1 pe1 = (m', n', pe')"
    by (simp add: Let_def)
  from Cons.IH [OF this conjunct1 [OF l1]] l1 show ?case
    by (auto simp: dep_label_keys_def)
qed simp

lemma sortDepsLoop_inhabited:
  assumes "sortDepsLoop deps pod m n c pe = (m', n', pe')" and "caches_agree m c"
    and "\<And>b. b \<in> dom m \<Longrightarrow> bucket_get m b \<noteq> []"
  shows "b \<in> dom m' \<Longrightarrow> bucket_get m' b \<noteq> []"
  using assms
proof (induction deps arbitrary: m n c pe)
  case (Cons dep deps)
  obtain m1 c1 where l: "addDepLabels (Labels (EpMeta dep)) dep m c = (m1, c1)" by fastforce
  note l1 = addDepLabels_spec [OF l Cons.prems(3)]
  have "b \<in> dom m1 \<Longrightarrow> bucket_get m1 b \<noteq> []" for b
    using l1 Cons.prems(4) by (metis append_is_Nil_conv)
  moreover from Cons.prems(2) l obtain n1 pe1 where
    "sortDepsLoop deps pod m1 n1 c1 pe1 = (m', n', pe')"
    by (simp add: Let_def)
  ultimately show ?case using Cons.IH Cons.prems(1) l1 by blast
qed simp

lemma sortDepsLoop_by_network:
  assumes "sortDepsLoop deps pod m n c pe = (m', n', pe')"
  shows "bucket_get n' k = bucket_get n k @ [x \<leftarrow> deps. networkBucketName x = k] \<and>
     dom n' = dom n \<union> networkBucketName ` set deps \<and>
     pe' = pe @ [x \<leftarrow> deps. PodUID (EpSpec x) = UID (PodMeta pod)]"
  using assms
proof (induction deps arbitrary: m n c pe)
  case (Cons dep deps)
  obtain m1 c1 where l: "addDepLabels (Labels (EpMeta dep)) dep m c = (m1, c1)" by fastforce
  with Cons.prems have "sortDepsLoop deps pod m1 (bucket_add n (networkBucketName dep) dep) c1
      (if PodUID (EpSpec dep) = UID (PodMeta pod) then pe @ [dep] else pe) = (m', n', pe')"
    by (simp add: Let_def)
  from Cons.IH [OF this] show ?case by (auto simp: bucket_get_add)
qed simp

definition depsByLabel :: "danm_ep list \<Rightarrow> pod \<Rightarrow> danm_ep buckets" where
  "depsByLabel deps pod = DanmEpsByLabel (NewDanmEpSet (Inr deps) pod)"

definition depsByNetwork :: "danm_ep list \<Rightarrow> pod \<Rightarrow> danm_ep buckets" where
  "depsByNetwork deps pod = DanmEpsByNetwork (NewDanmEpSet (Inr deps) pod)"

lemma sortDeps_parts:
  "sortDepsLoop deps pod Map.empty Map.empty Map.empty [] =
     (depsByLabel deps pod, depsByNetwork deps pod, PodEps (NewDanmEpSet (Inr deps) pod))"
  by (simp add: depsByLabel_def depsByNetwork_def NewDanmEpSet_def sortDeps_def
      split: prod.split)

lemmas by_label = sortDepsLoop_by_label [OF sortDeps_parts caches_agree_empty, simplified]
lemmas by_network = sortDepsLoop_by_network [OF sortDeps_parts, simplified]

lemma PodEps_eq:
  "PodEps (NewDanmEpSet (Inr deps) pod) = [x \<leftarrow> deps. PodUID (EpSpec x) = UID (PodMeta pod)]"
  using by_network by simp

lemma PodEps_error [simp]: "PodEps (NewDanmEpSet (Inl err) pod) = []"
  by (simp add: NewDanmEpSet_def)

section \<open>Both bucket maps are indexes\<close>

interpretation li: bucket_index ep_uid deps dep_label_keys "depsByLabel deps pod"
  for deps pod
proof
  fix x k
  assume "x \<in> set (bucket_get (depsByLabel deps pod) k)"
  then show "x \<in> set deps \<and> k \<in> set (dep_label_keys x)"
    using set_dedup_subset [of ep_uid "{}" "[x \<leftarrow> deps. k \<in> set (dep_label_keys x)]"]
    by (auto simp: by_label)
next
  fix x k
  assume "x \<in> set deps" "k \<in> set (dep_label_keys x)"
  then have "ep_uid x \<in> ep_uid ` set (bucket_get (depsByLabel deps pod) k)"
    by (simp add: by_label)
  then show "\<exists>y. y \<in> set (bucket_get (depsByLabel deps pod) k) \<and> ep_uid y = ep_uid x"
    unfolding image_iff by metis
next
  fix k
  assume "k \<in> dom (depsByLabel deps pod)"
  then show "bucket_get (depsByLabel deps pod) k \<noteq> []"
    using sortDepsLoop_inhabited [OF sortDeps_parts caches_agree_empty] by simp
qed

interpretation ni: bucket_index ep_uid deps "\<lambda>dep. [networkBucketName dep]" "depsByNetwork deps pod"
  for deps pod
proof
  fix k
  assume "k \<in> dom (depsByNetwork deps pod)"
  then obtain x where "x \<in> set deps" "k = networkBucketName x" using by_network by auto
  then have "x \<in> set (bucket_get (depsByNetwork deps pod) k)" by (simp add: by_network)
  then show "bucket_get (depsByNetwork deps pod) k \<noteq> []" by auto
qed (auto simp: by_network)

section \<open>Network bucket names\<close>

text \<open>
  Names and kinds are concatenated without a separator; for the three kinds of networks DANM
  has, the concatenation is unambiguous.
\<close>

definition known_kind :: "string \<Rightarrow> bool" where
  "known_kind k \<longleftrightarrow> k \<in> {''DanmNet'', ''TenantNetwork'', ''ClusterNetwork''}"

lemma append_eq_suffix: "a @ k = b @ l \<Longrightarrow> length k \<le> length l \<Longrightarrow> k = drop (length l - length k) l"
proof -
  assume e: "a @ k = b @ l" and le: "length k \<le> length l"
  have "rev k = take (length k) (rev l)"
    using arg_cong [OF e, of "\<lambda>xs. take (length k) (rev xs)"] le by simp
  then have "k = rev (take (length k) (rev l))" by (metis rev_rev_ident)
  then show ?thesis by (simp add: rev_take)
qed

lemma known_kind_suffix_free:
  assumes "a @ k = b @ l" "known_kind k" "known_kind l" "length k \<le> length l"
  shows "k = l"
  using append_eq_suffix [OF assms(1,4)] assms(2,3)
  by (auto simp: known_kind_def)

lemma kind_concat_inj:
  assumes "a @ k = b @ l" "known_kind k" "known_kind l"
  shows "a = b \<and> k = l"
proof -
  have "k = l"
  proof (cases "length k \<le> length l")
    case True
    with assms show ?thesis by (rule known_kind_suffix_free)
  next
    case False
    with known_kind_suffix_free [OF assms(1) [symmetric] assms(3,2)] show ?thesis by simp
  qed
  with assms(1) show ?thesis by simp
qed

section \<open>Properties\<close>

text \<open>
  The endpoints filed under a label are those with a label of the same concatenation, in
  list order, and of the endpoints that share a UID only the first.
\<close>

theorem label_buckets_exact:
  "bucket_get (DanmEpsByLabel (NewDanmEpSet (Inr deps) pod)) (label_bucket kv) =
     dedup ep_uid {} [d \<leftarrow> deps. list_ex (\<lambda>l. fst l @ snd l = fst kv @ snd kv) (Labels (EpMeta d))]"
proof -
  have "label_bucket kv \<in> set (dep_label_keys d) \<longleftrightarrow>
      list_ex (\<lambda>l. fst l @ snd l = fst kv @ snd kv) (Labels (EpMeta d))" for d
    by (auto simp: dep_label_keys_def list_ex_iff label_bucket_eq_iff image_iff intro: sym)
  then show ?thesis by (simp add: by_label flip: depsByLabel_def)
qed

text \<open>
  The network buckets partition the endpoints: every endpoint is in exactly the bucket of
  its network name and kind, in list order, and the endpoints of the Pod are those that carry
  its UID.
\<close>

theorem network_buckets_exact:
  "bucket_get (DanmEpsByNetwork (NewDanmEpSet (Inr deps) pod)) k =
     [d \<leftarrow> deps. networkBucketName d = k] \<and>
   dom (DanmEpsByNetwork (NewDanmEpSet (Inr deps) pod)) = networkBucketName ` set deps \<and>
   PodEps (NewDanmEpSet (Inr deps) pod) = [d \<leftarrow> deps. PodUID (EpSpec d) = UID (PodMeta pod)]"
  by (simp add: by_network flip: depsByNetwork_def)

end
