(* ===== verification/Netruleset.thy ===== *)
theory Netruleset
  imports Depset
begin

text \<open>
  \<open>pkg/netruleset\<close>: the rules that whitelist the interfaces a policy selects. Reading the
  endpoint buckets goes through the interpretations \<open>li\<close> and \<open>ni\<close> of \<open>bucket_index\<close>.
\<close>

section \<open>Selecting endpoints\<close>

fun selectByLabels :: "danm_ep_set \<Rightarrow> labels \<Rightarrow> danm_ep list \<Rightarrow> danm_ep list" where
  "selectByLabels depSet [] selectedDeps = selectedDeps"
| "selectByLabels depSet (kv # selectors) selectedDeps =
     selectByLabels depSet selectors
       (selectedDeps @ bucket_get (DanmEpsByLabel depSet) (label_bucket kv))"

definition filterDepsByPodSelector :: "libs \<Rightarrow> danm_ep_set \<Rightarrow> label_selector \<Rightarrow> danm_ep list" where
  "filterDepsByPodSelector lib depSet podSelector =
     (if length (MatchLabels podSelector) = 0 then []
      else case LabelSelectorAsMap lib podSelector of
             Inl err \<Rightarrow> []
           | Inr selectors \<Rightarrow> selectByLabels depSet selectors [])"

definition selectorBucketName :: "network_selector \<Rightarrow> string" where
  "selectorBucketName netSelector =
     SelName netSelector @ SelType netSelector @
     (if SelType netSelector = [] then DanmNetKind else [])"

fun selectByNetworks :: "danm_ep_set \<Rightarrow> network_selector list \<Rightarrow> danm_ep list \<Rightarrow> danm_ep list" where
  "selectByNetworks depSet [] selectedDeps = selectedDeps"
| "selectByNetworks depSet (netSelector # networkSelectors) selectedDeps =
     selectByNetworks depSet networkSelectors
       (selectedDeps @ bucket_get (DanmEpsByNetwork depSet) (selectorBucketName netSelector))"

definition filterDepsByNetworkSelector ::
  "danm_ep_set \<Rightarrow> network_selector list \<Rightarrow> danm_ep list" where
  "filterDepsByNetworkSelector depSet networkSelectors =
     (if length networkSelectors = 0 then [] else selectByNetworks depSet networkSelectors [])"

fun indexDeps :: "danm_ep list \<Rightarrow> uid_cache \<Rightarrow> uid_cache" where
  "indexDeps [] secondSetIndex = secondSetIndex"
| "indexDeps (dep # secondSet) secondSetIndex =
     indexDeps secondSet
       (if secondSetIndex (ep_uid dep) = None then secondSetIndex(ep_uid dep \<mapsto> True)
        else secondSetIndex)"

fun keepIndexed :: "uid_cache \<Rightarrow> danm_ep list \<Rightarrow> danm_ep list \<Rightarrow> danm_ep list" where
  "keepIndexed secondSetIndex [] intersectedDeps = intersectedDeps"
| "keepIndexed secondSetIndex (dep # firstSet) intersectedDeps =
     keepIndexed secondSetIndex firstSet
       (if secondSetIndex (ep_uid dep) \<noteq> None then intersectedDeps @ [dep] else intersectedDeps)"

definition intersectDepSets :: "danm_ep list \<Rightarrow> danm_ep list \<Rightarrow> danm_ep list" where
  "intersectDepSets firstSet secondSet =
     (if length firstSet = 0 then secondSet
      else if length secondSet = 0 then firstSet
      else keepIndexed (indexDeps secondSet Map.empty) firstSet [])"

text \<open>The three selection lines at the head of the peer loop.\<close>

definition finalDeps :: "libs \<Rightarrow> danm_ep_set \<Rightarrow> network_policy_peer \<Rightarrow> danm_ep list" where
  "finalDeps lib depSet peer =
     intersectDepSets (filterDepsByPodSelector lib depSet (PeerPodSelector peer))
       (filterDepsByNetworkSelector depSet (PeerNetworkSelector peer))"

section \<open>Rules from endpoints\<close>

type_synonym rule_parser = "string \<Rightarrow> network_policy_port list \<Rightarrow> net_rule list go"

fun ingressPortRules :: "string \<Rightarrow> network_policy_port list \<Rightarrow> net_rule list \<Rightarrow> net_rule list go" where
  "ingressPortRules address [] ingressRules = Inr ingressRules"
| "ingressPortRules address (port # ports) ingressRules =
     go_bind (index0 (split_char (CHR ''/'') address)) (\<lambda>ip.
     go_bind (deref (Port port)) (\<lambda>p.
     go_bind (deref (Protocol port)) (\<lambda>proto.
       ingressPortRules address ports
         (ingressRules @
           [zero_rule\<lparr>SourceIp := ip, SourcePort := StrVal p, RuleProtocol := proto\<rparr>]))))"

definition newIngressNetRules :: rule_parser where
  "newIngressNetRules address ports =
     (if length ports = 0
      then go_bind (index0 (split_char (CHR ''/'') address)) (\<lambda>ip. Inr [zero_rule\<lparr>SourceIp := ip\<rparr>])
      else ingressPortRules address ports [])"

fun egressPortRules :: "string \<Rightarrow> network_policy_port list \<Rightarrow> net_rule list \<Rightarrow> net_rule list go" where
  "egressPortRules address [] egressRules = Inr egressRules"
| "egressPortRules address (port # ports) egressRules =
     go_bind (index0 (split_char (CHR ''/'') address)) (\<lambda>ip.
     go_bind (deref (Port port)) (\<lambda>p.
     go_bind (deref (Protocol port)) (\<lambda>proto.
       egressPortRules address ports
         (egressRules @
           [zero_rule\<lparr>DestIp := ip, DestPort := StrVal p, RuleProtocol := proto\<rparr>]))))"

definition newEgressNetRules :: rule_parser where
  "newEgressNetRules address ports =
     (if length ports = 0
      then go_bind (index0 (split_char (CHR ''/'') address)) (\<lambda>ip. Inr [zero_rule\<lparr>DestIp := ip\<rparr>])
      else egressPortRules address ports [])"

definition has_address :: "libs \<Rightarrow> string \<Rightarrow> bool" where
  "has_address lib a \<longleftrightarrow> a \<noteq> [] \<and> a \<noteq> NoneAllocType lib"

text \<open>The loop over the selected endpoints of one peer, with its UID cache.\<close>

fun addDepRules ::
  "libs \<Rightarrow> rule_parser \<Rightarrow> network_policy_port list \<Rightarrow> danm_ep list \<Rightarrow> uid_cache \<Rightarrow>
   net_rule list \<Rightarrow> net_rule list \<Rightarrow> (net_rule list \<times> net_rule list) go" where
  "addDepRules lib parserFunc ports [] depCache v4Rules v6Rules = Inr (v4Rules, v6Rules)"
| "addDepRules lib parserFunc ports (dep # deps) depCache v4Rules v6Rules =
     (if depCache (ep_uid dep) = None then
        go_bind (if has_address lib (Address (Iface (EpSpec dep)))
                 then parserFunc (Address (Iface (EpSpec dep))) ports else Inr []) (\<lambda>r4.
        go_bind (if has_address lib (AddressIPv6 (Iface (EpSpec dep)))
                 then parserFunc (AddressIPv6 (Iface (EpSpec dep))) ports else Inr []) (\<lambda>r6.
          addDepRules lib parserFunc ports deps (depCache(ep_uid dep \<mapsto> True))
            (v4Rules @ r4) (v6Rules @ r6)))
      else addDepRules lib parserFunc ports deps depCache v4Rules v6Rules)"

fun parsePeers ::
  "libs \<Rightarrow> danm_ep_set \<Rightarrow> network_policy_peer list \<Rightarrow> network_policy_port list \<Rightarrow> rule_parser \<Rightarrow>
   net_rule list \<Rightarrow> net_rule list \<Rightarrow> (net_rule list \<times> net_rule list) go" where
  "parsePeers lib depSet [] ports parserFunc v4Rules v6Rules = Inr (v4Rules, v6Rules)"
| "parsePeers lib depSet (peer # peers) ports parserFunc v4Rules v6Rules =
     go_bind (addDepRules lib parserFunc ports (finalDeps lib depSet peer) Map.empty v4Rules v6Rules)
       (\<lambda>(v4Rules', v6Rules'). parsePeers lib depSet peers ports parserFunc v4Rules' v6Rules')"

definition parsePolicyRules ::
  "libs \<Rightarrow> danm_ep_set \<Rightarrow> network_policy_peer list \<Rightarrow> network_policy_port list \<Rightarrow> rule_parser \<Rightarrow>
   (net_rule list \<times> net_rule list) go" where
  "parsePolicyRules lib depSet peers ports parserFunc =
     parsePeers lib depSet peers ports parserFunc [] []"

section \<open>The rule set of a Pod\<close>

definition addIngress :: "libs \<Rightarrow> danm_ep_set \<Rightarrow> danm_network_policy \<Rightarrow> net_rule_set \<Rightarrow> net_rule_set go" where
  "addIngress lib depSet policy ruleSet =
     (case Ingress (PolSpec policy) of
        [] \<Rightarrow> Inr ruleSet
      | ingress # _ \<Rightarrow>
          go_bind (parsePolicyRules lib depSet (From ingress) (IngressPorts ingress) newIngressNetRules)
            (\<lambda>(v4, v6). Inr (ruleSet
               \<lparr>IngressV4Chain := (IngressV4Chain ruleSet)\<lparr>Rules := Rules (IngressV4Chain ruleSet) @ v4\<rparr>,
                IngressV6Chain := (IngressV6Chain ruleSet)\<lparr>Rules := Rules (IngressV6Chain ruleSet) @ v6\<rparr>\<rparr>)))"

definition addEgress :: "libs \<Rightarrow> danm_ep_set \<Rightarrow> danm_network_policy \<Rightarrow> net_rule_set \<Rightarrow> net_rule_set go" where
  "addEgress lib depSet policy ruleSet =
     (case Egress (PolSpec policy) of
        [] \<Rightarrow> Inr ruleSet
      | egress # _ \<Rightarrow>
          go_bind (parsePolicyRules lib depSet (To egress) (EgressPorts egress) newEgressNetRules)
            (\<lambda>(v4, v6). Inr (ruleSet
               \<lparr>EgressV4Chain := (EgressV4Chain ruleSet)\<lparr>Rules := Rules (EgressV4Chain ruleSet) @ v4\<rparr>,
                EgressV6Chain := (EgressV6Chain ruleSet)\<lparr>Rules := Rules (EgressV6Chain ruleSet) @ v6\<rparr>\<rparr>)))"

fun addPolicies ::
  "libs \<Rightarrow> danm_ep_set \<Rightarrow> danm_network_policy list \<Rightarrow> net_rule_set \<Rightarrow> net_rule_set go" where
  "addPolicies lib depSet [] ruleSet = Inr ruleSet"
| "addPolicies lib depSet (policy # polSet) ruleSet =
     go_bind (addIngress lib depSet policy ruleSet) (\<lambda>ruleSet1.
     go_bind (addEgress lib depSet policy ruleSet1) (\<lambda>ruleSet2.
       addPolicies lib depSet polSet ruleSet2))"

definition NewNetRuleSet ::
  "libs \<Rightarrow> danm_network_policy list \<Rightarrow> danm_ep_set \<Rightarrow> net_rule_set go" where
  "NewNetRuleSet lib polSet depSet =
     go_bind (index0 (PodEps depSet)) (\<lambda>ep.
       addPolicies lib depSet polSet
         \<lparr>IngressV4Chain = \<lparr>ChainName = IngressV4ChainName, Rules = []\<rparr>,
          IngressV6Chain = \<lparr>ChainName = IngressV6ChainName, Rules = []\<rparr>,
          EgressV4Chain = \<lparr>ChainName = EgressV4ChainName, Rules = []\<rparr>,
          EgressV6Chain = \<lparr>ChainName = EgressV6ChainName, Rules = []\<rparr>,
          RuleNetns = Netns (EpSpec ep)\<rparr>)"

section \<open>The selections as sets\<close>

lemma selectByLabels_eq:
  "selectByLabels depSet es sel =
     sel @ concat (map (bucket_get (DanmEpsByLabel depSet)) (map label_bucket es))"
  by (induction es arbitrary: sel) simp_all

lemma selectByNetworks_eq:
  "selectByNetworks depSet ns sel =
     sel @ concat (map (bucket_get (DanmEpsByNetwork depSet)) (map selectorBucketName ns))"
  by (induction ns arbitrary: sel) simp_all

lemma dom_indexDeps: "dom (indexDeps deps c) = dom c \<union> ep_uid ` set deps"
  by (induction deps arbitrary: c) auto

lemma keepIndexed_eq:
  "keepIndexed c deps acc = acc @ [d \<leftarrow> deps. ep_uid d \<in> dom c]"
  by (induction deps arbitrary: acc) (auto simp: domIff)

lemma intersectDepSets_eq:
  "intersectDepSets xs ys =
     (if xs = [] then ys else if ys = [] then xs
      else [d \<leftarrow> xs. ep_uid d \<in> ep_uid ` set ys])"
  by (simp add: intersectDepSets_def keepIndexed_eq dom_indexDeps)

text \<open>The endpoints the two selectors of a peer pick from the namespace's endpoints.\<close>

definition pod_selected :: "libs \<Rightarrow> danm_ep list \<Rightarrow> label_selector \<Rightarrow> danm_ep set" where
  "pod_selected lib deps sel =
     (if MatchLabels sel = [] then {}
      else case LabelSelectorAsMap lib sel of
             Inl err \<Rightarrow> {}
           | Inr es \<Rightarrow> {d. d \<in> set deps \<and>
               (\<exists>e l. e \<in> set es \<and> l \<in> set (Labels (EpMeta d)) \<and> fst e @ snd e = fst l @ snd l)})"

definition network_selected :: "danm_ep list \<Rightarrow> network_selector list \<Rightarrow> danm_ep set" where
  "network_selected deps ns =
     {d. d \<in> set deps \<and> (\<exists>n. n \<in> set ns \<and> selectorBucketName n = networkBucketName d)}"

lemma set_filterDepsByPodSelector:
  assumes "inj_on ep_uid (set deps)"
  shows "set (filterDepsByPodSelector lib (NewDanmEpSet (Inr deps) pod) sel) =
     pod_selected lib deps sel"
proof (cases "LabelSelectorAsMap lib sel")
  case (Inr es)
  have "set (li.union_of deps pod (map label_bucket es)) = li.hits deps (map label_bucket es)"
    using assms by (rule li.set_union_of)
  also have "\<dots> = {d. d \<in> set deps \<and>
      (\<exists>e l. e \<in> set es \<and> l \<in> set (Labels (EpMeta d)) \<and> label_bucket e = label_bucket l)}"
    by (simp only: li.hits_def dep_label_keys_def set_map image_meets)
  finally have "set (selectByLabels (NewDanmEpSet (Inr deps) pod) es []) = \<dots>"
    by (simp only: selectByLabels_eq li.union_of_def append_Nil flip: depsByLabel_def)
  with Inr show ?thesis
    by (simp add: filterDepsByPodSelector_def pod_selected_def label_bucket_eq_iff)
qed (simp add: filterDepsByPodSelector_def pod_selected_def)

lemma set_filterDepsByNetworkSelector:
  "set (filterDepsByNetworkSelector (NewDanmEpSet (Inr deps) pod) ns) = network_selected deps ns"
  by (auto simp: filterDepsByNetworkSelector_def selectByNetworks_eq network_selected_def
      by_network simp flip: depsByNetwork_def)

lemma set_finalDeps:
  fixes lib :: libs and deps :: "danm_ep list"
  assumes "inj_on ep_uid (set deps)"
  defines "P peer \<equiv> pod_selected lib deps (PeerPodSelector peer)"
    and "N peer \<equiv> network_selected deps (PeerNetworkSelector peer)"
  shows "set (finalDeps lib (NewDanmEpSet (Inr deps) pod) peer) =
     (if P peer = {} then N peer else if N peer = {} then P peer else P peer \<inter> N peer)"
proof -
  let ?ps = "filterDepsByPodSelector lib (NewDanmEpSet (Inr deps) pod) (PeerPodSelector peer)"
  let ?ns = "filterDepsByNetworkSelector (NewDanmEpSet (Inr deps) pod) (PeerNetworkSelector peer)"
  have P: "set ?ps = P peer" and N: "set ?ns = N peer"
    unfolding P_def N_def
    using assms(1) by (simp_all only: set_filterDepsByPodSelector set_filterDepsByNetworkSelector)
  have "set [d \<leftarrow> ?ps. ep_uid d \<in> ep_uid ` set ?ns] = P peer \<inter> N peer"
  proof -
    have "d \<in> N peer" if "d \<in> P peer" "ep_uid d \<in> ep_uid ` N peer" for d
    proof -
      from that(2) obtain n where n: "n \<in> N peer" "ep_uid d = ep_uid n"
        unfolding image_iff by metis
      have "d \<in> set deps" "n \<in> set deps"
        using that(1) n(1)
        by (auto simp: P_def N_def pod_selected_def network_selected_def split: if_splits sum.splits)
      with n assms(1) show ?thesis by (metis inj_onD)
    qed
    then show ?thesis using P N by auto
  qed
  with P N show ?thesis
    by (auto simp: finalDeps_def intersectDepSets_eq)
qed

section \<open>Rule parsers\<close>

definition host_part :: "string \<Rightarrow> string" where
  "host_part address = takeWhile (\<lambda>c. c \<noteq> CHR ''/'') address"

definition port_ok :: "network_policy_port \<Rightarrow> bool" where
  "port_ok p \<longleftrightarrow> Port p \<noteq> None \<and> Protocol p \<noteq> None"

definition ports_ok :: "network_policy_port list \<Rightarrow> bool" where
  "ports_ok ps \<longleftrightarrow> list_all port_ok ps"

definition port_string :: "network_policy_port \<Rightarrow> string" where
  "port_string p = (case Port p of None \<Rightarrow> [] | Some x \<Rightarrow> StrVal x)"

definition proto_string :: "network_policy_port \<Rightarrow> string" where
  "proto_string p = (case Protocol p of None \<Rightarrow> [] | Some x \<Rightarrow> x)"

text \<open>The rules a parser gives for a usable address: one universal rule, or one per port.\<close>

definition ingress_rules :: "string \<Rightarrow> network_policy_port list \<Rightarrow> net_rule list" where
  "ingress_rules a ports =
     (if ports = [] then [zero_rule\<lparr>SourceIp := host_part a\<rparr>]
      else map (\<lambda>p. zero_rule\<lparr>SourceIp := host_part a, SourcePort := port_string p,
                   RuleProtocol := proto_string p\<rparr>) ports)"

definition egress_rules :: "string \<Rightarrow> network_policy_port list \<Rightarrow> net_rule list" where
  "egress_rules a ports =
     (if ports = [] then [zero_rule\<lparr>DestIp := host_part a\<rparr>]
      else map (\<lambda>p. zero_rule\<lparr>DestIp := host_part a, DestPort := port_string p,
                   RuleProtocol := proto_string p\<rparr>) ports)"

lemma ingressPortRules_ok:
  "ports_ok ports \<Longrightarrow> ingressPortRules a ports acc =
     Inr (acc @ map (\<lambda>p. zero_rule\<lparr>SourceIp := host_part a, SourcePort := port_string p,
                   RuleProtocol := proto_string p\<rparr>) ports)"
  by (induction ports arbitrary: acc)
    (auto simp: ports_ok_def port_ok_def index0_split_char host_part_def port_string_def proto_string_def)

lemma ingressPortRules_nil: "\<not> ports_ok ports \<Longrightarrow> ingressPortRules a ports acc = Inl NilDereference"
proof (induction ports arbitrary: acc)
  case (Cons p ports)
  then show ?case
    by (cases "Port p"; cases "Protocol p") (auto simp: ports_ok_def port_ok_def index0_split_char)
qed (simp add: ports_ok_def)

lemma egressPortRules_ok:
  "ports_ok ports \<Longrightarrow> egressPortRules a ports acc =
     Inr (acc @ map (\<lambda>p. zero_rule\<lparr>DestIp := host_part a, DestPort := port_string p,
                   RuleProtocol := proto_string p\<rparr>) ports)"
  by (induction ports arbitrary: acc)
    (auto simp: ports_ok_def port_ok_def index0_split_char host_part_def port_string_def proto_string_def)

lemma egressPortRules_nil: "\<not> ports_ok ports \<Longrightarrow> egressPortRules a ports acc = Inl NilDereference"
proof (induction ports arbitrary: acc)
  case (Cons p ports)
  then show ?case
    by (cases "Port p"; cases "Protocol p") (auto simp: ports_ok_def port_ok_def index0_split_char)
qed (simp add: ports_ok_def)

text \<open>The usable addresses of endpoints, and the endpoints of the peers without duplicates.\<close>

definition usable_v4 :: "libs \<Rightarrow> danm_ep list \<Rightarrow> string list" where
  "usable_v4 lib deps = filter (has_address lib) (map (\<lambda>d. Address (Iface (EpSpec d))) deps)"

definition usable_v6 :: "libs \<Rightarrow> danm_ep list \<Rightarrow> string list" where
  "usable_v6 lib deps = filter (has_address lib) (map (\<lambda>d. AddressIPv6 (Iface (EpSpec d))) deps)"

lemma usable_simps [simp]:
  "usable_v4 lib [] = []" "usable_v6 lib [] = []"
  "usable_v4 lib (d # ds) = (if has_address lib (Address (Iface (EpSpec d)))
     then Address (Iface (EpSpec d)) # usable_v4 lib ds else usable_v4 lib ds)"
  "usable_v6 lib (d # ds) = (if has_address lib (AddressIPv6 (Iface (EpSpec d)))
     then AddressIPv6 (Iface (EpSpec d)) # usable_v6 lib ds else usable_v6 lib ds)"
  by (simp_all add: usable_v4_def usable_v6_def)

lemma usable_append:
  "usable_v4 lib (xs @ ys) = usable_v4 lib xs @ usable_v4 lib ys"
  "usable_v6 lib (xs @ ys) = usable_v6 lib xs @ usable_v6 lib ys"
  by (simp_all add: usable_v4_def usable_v6_def)

definition peer_deps :: "libs \<Rightarrow> danm_ep_set \<Rightarrow> network_policy_peer list \<Rightarrow> danm_ep list" where
  "peer_deps lib depSet peers = concat (map (\<lambda>p. dedup ep_uid {} (finalDeps lib depSet p)) peers)"

text \<open>
  A section (the peers and ports of one rule) is total when no nil pointer is reached: its
  ports are complete, or it selects no usable address.
\<close>

definition section_total ::
  "libs \<Rightarrow> danm_ep_set \<Rightarrow> network_policy_peer list \<Rightarrow> network_policy_port list \<Rightarrow> bool" where
  "section_total lib depSet peers ports \<longleftrightarrow> ports_ok ports \<or>
     usable_v4 lib (peer_deps lib depSet peers) = [] \<and>
     usable_v6 lib (peer_deps lib depSet peers) = []"

definition section_rules ::
  "(string \<Rightarrow> network_policy_port list \<Rightarrow> net_rule list) \<Rightarrow> string list \<Rightarrow>
   network_policy_port list \<Rightarrow> net_rule list" where
  "section_rules rules_of addresses ports = concat (map (\<lambda>a. rules_of a ports) addresses)"

text \<open>
  The contract of \<open>RuleParser\<close>: with complete ports a parser gives rules, with a nil port or
  protocol it panics. The peer loop is analysed once, for any parser with this contract.
\<close>

locale parser_contract =
  fixes parser :: rule_parser and rules_of :: "string \<Rightarrow> network_policy_port list \<Rightarrow> net_rule list"
  assumes parser_ok: "ports_ok ports \<Longrightarrow> parser a ports = Inr (rules_of a ports)"
    and parser_nil: "\<not> ports_ok ports \<Longrightarrow> parser a ports = Inl NilDereference"
begin

lemma addDepRules_ok:
  assumes "ports_ok ports"
  shows "addDepRules lib parser ports deps c v4 v6 = Inr
     (v4 @ concat (map (\<lambda>a. rules_of a ports) (usable_v4 lib (dedup ep_uid (dom c) deps))),
      v6 @ concat (map (\<lambda>a. rules_of a ports) (usable_v6 lib (dedup ep_uid (dom c) deps))))"
proof (induction deps arbitrary: c v4 v6)
  case (Cons d deps)
  have d: "dom (c(ep_uid d \<mapsto> True)) = insert (ep_uid d) (dom c)" by simp
  show ?case
  proof (cases "c (ep_uid d)")
    case None
    then show ?thesis
      using assms by (simp add: Cons.IH [of "c(ep_uid d \<mapsto> True)", unfolded d] parser_ok domIff)
  next
    case (Some b)
    then show ?thesis by (simp add: Cons.IH domIff)
  qed
qed simp

lemma addDepRules_nil:
  assumes "\<not> ports_ok ports"
  shows "addDepRules lib parser ports deps c v4 v6 =
     (if usable_v4 lib (dedup ep_uid (dom c) deps) @ usable_v6 lib (dedup ep_uid (dom c) deps) = []
      then Inr (v4, v6) else Inl NilDereference)"
proof (induction deps arbitrary: c v4 v6)
  case (Cons d deps)
  have d: "dom (c(ep_uid d \<mapsto> True)) = insert (ep_uid d) (dom c)" by simp
  show ?case
  proof (cases "c (ep_uid d)")
    case None
    then show ?thesis
      using assms by (simp add: Cons.IH [of "c(ep_uid d \<mapsto> True)", unfolded d] parser_nil domIff)
  next
    case (Some b)
    then show ?thesis by (simp add: Cons.IH domIff)
  qed
qed simp

lemma parsePeers_ok:
  assumes "ports_ok ports"
  shows "parsePeers lib depSet peers ports parser v4 v6 = Inr
     (v4 @ concat (map (\<lambda>a. rules_of a ports) (usable_v4 lib (peer_deps lib depSet peers))),
      v6 @ concat (map (\<lambda>a. rules_of a ports) (usable_v6 lib (peer_deps lib depSet peers))))"
  by (induction peers arbitrary: v4 v6)
    (simp_all add: addDepRules_ok [OF assms] peer_deps_def usable_append)

lemma parsePeers_nil:
  assumes "\<not> ports_ok ports"
  shows "parsePeers lib depSet peers ports parser v4 v6 =
     (if usable_v4 lib (peer_deps lib depSet peers) @ usable_v6 lib (peer_deps lib depSet peers) = []
      then Inr (v4, v6) else Inl NilDereference)"
  by (induction peers arbitrary: v4 v6)
    (simp_all add: addDepRules_nil [OF assms] peer_deps_def usable_append)

lemma parse_eq:
  "parsePolicyRules lib depSet peers ports parser =
     (if section_total lib depSet peers ports
      then Inr (section_rules rules_of (usable_v4 lib (peer_deps lib depSet peers)) ports,
                section_rules rules_of (usable_v6 lib (peer_deps lib depSet peers)) ports)
      else Inl NilDereference)"
  by (cases "ports_ok ports")
    (auto simp: parsePolicyRules_def parsePeers_ok parsePeers_nil section_total_def section_rules_def)

end

interpretation ir: parser_contract newIngressNetRules ingress_rules
  by unfold_locales
    (auto simp: newIngressNetRules_def ingress_rules_def ingressPortRules_ok ingressPortRules_nil
      index0_split_char host_part_def ports_ok_def)

interpretation er: parser_contract newEgressNetRules egress_rules
  by unfold_locales
    (auto simp: newEgressNetRules_def egress_rules_def egressPortRules_ok egressPortRules_nil
      index0_split_char host_part_def ports_ok_def)

section \<open>The rule set in closed form\<close>

text \<open>Only the first ingress and the first egress section of a policy are read.\<close>

definition ingress_peers :: "danm_network_policy \<Rightarrow> network_policy_peer list" where
  "ingress_peers policy = (case Ingress (PolSpec policy) of [] \<Rightarrow> [] | i # _ \<Rightarrow> From i)"

definition ingress_ports :: "danm_network_policy \<Rightarrow> network_policy_port list" where
  "ingress_ports policy = (case Ingress (PolSpec policy) of [] \<Rightarrow> [] | i # _ \<Rightarrow> IngressPorts i)"

definition egress_peers :: "danm_network_policy \<Rightarrow> network_policy_peer list" where
  "egress_peers policy = (case Egress (PolSpec policy) of [] \<Rightarrow> [] | e # _ \<Rightarrow> To e)"

definition egress_ports :: "danm_network_policy \<Rightarrow> network_policy_port list" where
  "egress_ports policy = (case Egress (PolSpec policy) of [] \<Rightarrow> [] | e # _ \<Rightarrow> EgressPorts e)"

definition policy_total :: "libs \<Rightarrow> danm_ep_set \<Rightarrow> danm_network_policy \<Rightarrow> bool" where
  "policy_total lib depSet policy \<longleftrightarrow>
     section_total lib depSet (ingress_peers policy) (ingress_ports policy) \<and>
     section_total lib depSet (egress_peers policy) (egress_ports policy)"

definition ingress_of ::
  "(libs \<Rightarrow> danm_ep list \<Rightarrow> string list) \<Rightarrow> libs \<Rightarrow> danm_ep_set \<Rightarrow> danm_network_policy \<Rightarrow> net_rule list" where
  "ingress_of usable lib depSet policy =
     section_rules ingress_rules (usable lib (peer_deps lib depSet (ingress_peers policy)))
       (ingress_ports policy)"

definition egress_of ::
  "(libs \<Rightarrow> danm_ep list \<Rightarrow> string list) \<Rightarrow> libs \<Rightarrow> danm_ep_set \<Rightarrow> danm_network_policy \<Rightarrow> net_rule list" where
  "egress_of usable lib depSet policy =
     section_rules egress_rules (usable lib (peer_deps lib depSet (egress_peers policy)))
       (egress_ports policy)"

definition add_chain_rules :: "net_rule list \<Rightarrow> net_rule_chain \<Rightarrow> net_rule_chain" where
  "add_chain_rules rs chain = chain\<lparr>Rules := Rules chain @ rs\<rparr>"

lemma addIngress_eq:
  "addIngress lib ds p rs =
     (if section_total lib ds (ingress_peers p) (ingress_ports p)
      then Inr (rs\<lparr>IngressV4Chain := add_chain_rules (ingress_of usable_v4 lib ds p) (IngressV4Chain rs),
                   IngressV6Chain := add_chain_rules (ingress_of usable_v6 lib ds p) (IngressV6Chain rs)\<rparr>)
      else Inl NilDereference)"
  by (simp add: addIngress_def ingress_of_def ingress_peers_def ingress_ports_def ir.parse_eq
      add_chain_rules_def section_total_def peer_deps_def section_rules_def split: list.split)

lemma addEgress_eq:
  "addEgress lib ds p rs =
     (if section_total lib ds (egress_peers p) (egress_ports p)
      then Inr (rs\<lparr>EgressV4Chain := add_chain_rules (egress_of usable_v4 lib ds p) (EgressV4Chain rs),
                   EgressV6Chain := add_chain_rules (egress_of usable_v6 lib ds p) (EgressV6Chain rs)\<rparr>)
      else Inl NilDereference)"
  by (simp add: addEgress_def egress_of_def egress_peers_def egress_ports_def er.parse_eq
      add_chain_rules_def section_total_def peer_deps_def section_rules_def split: list.split)

lemma addPolicies_eq:
  "addPolicies lib ds ps rs =
     (if list_all (policy_total lib ds) ps
      then Inr (rs
        \<lparr>IngressV4Chain := add_chain_rules (concat (map (ingress_of usable_v4 lib ds) ps)) (IngressV4Chain rs),
         IngressV6Chain := add_chain_rules (concat (map (ingress_of usable_v6 lib ds) ps)) (IngressV6Chain rs),
         EgressV4Chain := add_chain_rules (concat (map (egress_of usable_v4 lib ds) ps)) (EgressV4Chain rs),
         EgressV6Chain := add_chain_rules (concat (map (egress_of usable_v6 lib ds) ps)) (EgressV6Chain rs)\<rparr>)
      else Inl NilDereference)"
proof (induction ps arbitrary: rs)
  case Nil
  show ?case by (simp add: add_chain_rules_def)
next
  case (Cons p ps)
  show ?case
    by (simp add: addIngress_eq addEgress_eq Cons.IH policy_total_def add_chain_rules_def)
qed

section \<open>Where the rules come from\<close>

text \<open>The endpoints some peer of some policy selects.\<close>

definition whitelisted ::
  "libs \<Rightarrow> danm_ep_set \<Rightarrow> (danm_network_policy \<Rightarrow> network_policy_peer list) \<Rightarrow>
   danm_network_policy list \<Rightarrow> danm_ep set" where
  "whitelisted lib ds peers_of ps =
     {d. \<exists>p peer. p \<in> set ps \<and> peer \<in> set (peers_of p) \<and> d \<in> set (finalDeps lib ds peer)}"

lemma parser_addresses:
  "SourceIp ` set (ingress_rules a ports) = {host_part a}"
  "DestIp ` set (egress_rules a ports) = {host_part a}"
  by (cases ports; auto simp: ingress_rules_def egress_rules_def zero_rule_def image_image)+

lemma section_addresses:
  "SourceIp ` set (section_rules ingress_rules as ports) = host_part ` set as"
  "DestIp ` set (section_rules egress_rules as ports) = host_part ` set as"
  by (simp_all add: section_rules_def image_UN parser_addresses) blast+

lemma set_usable:
  "set (usable_v4 lib deps) =
     {a. a \<in> (\<lambda>d. Address (Iface (EpSpec d))) ` set deps \<and> has_address lib a}"
  "set (usable_v6 lib deps) =
     {a. a \<in> (\<lambda>d. AddressIPv6 (Iface (EpSpec d))) ` set deps \<and> has_address lib a}"
  by (auto simp: usable_v4_def usable_v6_def)

lemma set_peer_deps:
  assumes "inj_on ep_uid (set deps)"
  shows "set (peer_deps lib (NewDanmEpSet (Inr deps) pod) peers) =
     (\<Union>peer \<in> set peers. set (finalDeps lib (NewDanmEpSet (Inr deps) pod) peer))"
proof -
  have "set (finalDeps lib (NewDanmEpSet (Inr deps) pod) peer) \<subseteq> set deps" for peer
    by (auto simp: set_finalDeps [OF assms] pod_selected_def network_selected_def
        split: if_splits sum.splits)
  then have "set (dedup ep_uid {} (finalDeps lib (NewDanmEpSet (Inr deps) pod) peer)) =
      set (finalDeps lib (NewDanmEpSet (Inr deps) pod) peer)" for peer
    by (intro set_dedup_inj inj_on_subset [OF assms])
  then show ?thesis by (simp add: peer_deps_def)
qed

lemma rule_sources:
  assumes "inj_on ep_uid (set deps)" and "ds = NewDanmEpSet (Inr deps) pod"
    and "\<And>deps. set (usable lib deps) = {a. a \<in> addr ` set deps \<and> has_address lib a}"
  shows "SourceIp ` set (concat (map (ingress_of usable lib ds) ps)) =
      host_part ` {a. a \<in> addr ` whitelisted lib ds ingress_peers ps \<and> has_address lib a}"
    and "DestIp ` set (concat (map (egress_of usable lib ds) ps)) =
      host_part ` {a. a \<in> addr ` whitelisted lib ds egress_peers ps \<and> has_address lib a}"
proof -
  have union: "(\<Union>p \<in> set ps. set (usable lib (peer_deps lib ds (peers_of p)))) =
      {a. a \<in> addr ` whitelisted lib ds peers_of ps \<and> has_address lib a}" for peers_of
  proof -
    have w: "whitelisted lib ds peers_of ps =
        (\<Union>p \<in> set ps. \<Union>peer \<in> set (peers_of p). set (finalDeps lib ds peer))"
      by (auto simp: whitelisted_def)
    have d: "set (peer_deps lib ds peers) = (\<Union>peer \<in> set peers. set (finalDeps lib ds peer))" for peers
      unfolding assms(2) by (rule set_peer_deps [OF assms(1)])
    show ?thesis
      unfolding w assms(3) d by blast
  qed
  show "SourceIp ` set (concat (map (ingress_of usable lib ds) ps)) =
      host_part ` {a. a \<in> addr ` whitelisted lib ds ingress_peers ps \<and> has_address lib a}"
    unfolding union [symmetric]
    by (simp add: ingress_of_def image_UN section_addresses)
  show "DestIp ` set (concat (map (egress_of usable lib ds) ps)) =
      host_part ` {a. a \<in> addr ` whitelisted lib ds egress_peers ps \<and> has_address lib a}"
    unfolding union [symmetric]
    by (simp add: egress_of_def image_UN section_addresses)
qed

section \<open>Properties\<close>

definition kind_or_default :: "string \<Rightarrow> string" where
  "kind_or_default k = (if k = [] then DanmNetKind else k)"

text \<open>
  A network selector finds exactly the endpoints on the network of its name and kind (an
  empty kind standing for DanmNet): for DANM's network kinds the concatenated bucket names
  never confuse two networks.
\<close>

theorem network_selector_exact:
  assumes "\<And>d. d \<in> set deps \<Longrightarrow> ApiType (EpSpec d) = [] \<or> known_kind (ApiType (EpSpec d))"
    and "SelType n = [] \<or> known_kind (SelType n)"
  shows "set (filterDepsByNetworkSelector (NewDanmEpSet (Inr deps) pod) [n]) =
     {d. d \<in> set deps \<and> NetworkName (EpSpec d) = SelName n \<and>
         kind_or_default (ApiType (EpSpec d)) = kind_or_default (SelType n)}"
proof -
  have kind: "known_kind (kind_or_default k)" if "k = [] \<or> known_kind k" for k
    using that by (auto simp: kind_or_default_def known_kind_def const_defs)
  have names: "networkBucketName d = NetworkName (EpSpec d) @ kind_or_default (ApiType (EpSpec d))"
    "selectorBucketName n = SelName n @ kind_or_default (SelType n)" for d
    by (simp_all add: networkBucketName_def selectorBucketName_def kind_or_default_def)
  have "selectorBucketName n = networkBucketName d \<longleftrightarrow> NetworkName (EpSpec d) = SelName n \<and>
      kind_or_default (ApiType (EpSpec d)) = kind_or_default (SelType n)" if "d \<in> set deps" for d
    using kind_concat_inj [of "SelName n" "kind_or_default (SelType n)" "NetworkName (EpSpec d)"
        "kind_or_default (ApiType (EpSpec d))"] kind [OF assms(1) [OF that]] kind [OF assms(2)]
    unfolding names by metis
  then show ?thesis
    by (auto simp: set_filterDepsByNetworkSelector network_selected_def)
qed

text \<open>
  C23: What a peer selects: with \<open>P\<close> the endpoints its Pod selector finds and \<open>N\<close> those its network
  selector finds, it selects \<open>P\<close> and \<open>N\<close> together as their intersection; but a selector that finds
  nothing, given or not, restricts nothing, so a network selector naming only networks without
  endpoints whitelists every endpoint the Pod selector finds, on any network.
\<close>

theorem peer_selection_exact:
  fixes lib :: libs and deps :: "danm_ep list" and peer :: network_policy_peer
  assumes "inj_on ep_uid (set deps)"
  defines "P \<equiv> pod_selected lib deps (PeerPodSelector peer)"
    and "N \<equiv> network_selected deps (PeerNetworkSelector peer)"
  shows "set (finalDeps lib (NewDanmEpSet (Inr deps) pod) peer) =
     (if P = {} then N else if N = {} then P else P \<inter> N)"
  unfolding P_def N_def by (rule set_finalDeps [OF assms(1)])

text \<open>
  C9: The rule set in closed form, panics included: without an endpoint of the Pod the code
  panics on the first index, a policy whose complete ports are missing while an address is
  selected panics on a nil pointer, and otherwise each chain holds, in policy order, the rules
  of the first section of each policy.
\<close>

theorem NewNetRuleSet_closed_form:
  "NewNetRuleSet lib ps ds =
     (case PodEps ds of
        [] \<Rightarrow> Inl IndexOutOfRange
      | ep # _ \<Rightarrow>
          if list_all (policy_total lib ds) ps
          then Inr
            \<lparr>IngressV4Chain = \<lparr>ChainName = IngressV4ChainName, Rules = concat (map (ingress_of usable_v4 lib ds) ps)\<rparr>,
             IngressV6Chain = \<lparr>ChainName = IngressV6ChainName, Rules = concat (map (ingress_of usable_v6 lib ds) ps)\<rparr>,
             EgressV4Chain = \<lparr>ChainName = EgressV4ChainName, Rules = concat (map (egress_of usable_v4 lib ds) ps)\<rparr>,
             EgressV6Chain = \<lparr>ChainName = EgressV6ChainName, Rules = concat (map (egress_of usable_v6 lib ds) ps)\<rparr>,
             RuleNetns = Netns (EpSpec ep)\<rparr>
          else Inl NilDereference)"
  by (cases "PodEps ds") (simp_all add: NewNetRuleSet_def addPolicies_eq add_chain_rules_def)

text \<open>
  The whitelist is exact: in a rule set the code returns, the source addresses of the
  ingress chains and the destination addresses of the egress chains are the host parts of the
  usable addresses, of that family, of the endpoints that the policies' peers select.
\<close>

theorem whitelist_exact:
  assumes "inj_on ep_uid (set deps)"
    and "NewNetRuleSet lib ps (NewDanmEpSet (Inr deps) pod) = Inr rs"
  defines "addresses peers_of addr \<equiv> host_part ` {a. has_address lib a \<and>
      a \<in> addr ` whitelisted lib (NewDanmEpSet (Inr deps) pod) peers_of ps}"
  shows
    "SourceIp ` set (Rules (IngressV4Chain rs)) =
       addresses ingress_peers (\<lambda>d. Address (Iface (EpSpec d))) \<and>
     SourceIp ` set (Rules (IngressV6Chain rs)) =
       addresses ingress_peers (\<lambda>d. AddressIPv6 (Iface (EpSpec d))) \<and>
     DestIp ` set (Rules (EgressV4Chain rs)) =
       addresses egress_peers (\<lambda>d. Address (Iface (EpSpec d))) \<and>
     DestIp ` set (Rules (EgressV6Chain rs)) =
       addresses egress_peers (\<lambda>d. AddressIPv6 (Iface (EpSpec d)))"
proof -
  let ?ds = "NewDanmEpSet (Inr deps) pod"
  have rs: "Rules (IngressV4Chain rs) = concat (map (ingress_of usable_v4 lib ?ds) ps)"
    "Rules (IngressV6Chain rs) = concat (map (ingress_of usable_v6 lib ?ds) ps)"
    "Rules (EgressV4Chain rs) = concat (map (egress_of usable_v4 lib ?ds) ps)"
    "Rules (EgressV6Chain rs) = concat (map (egress_of usable_v6 lib ?ds) ps)"
    using assms(2) by (cases "PodEps ?ds"; auto simp: NewNetRuleSet_def addPolicies_eq
        add_chain_rules_def split: if_splits)+
  note v4 = rule_sources [where usable = usable_v4 and addr = "\<lambda>d. Address (Iface (EpSpec d))"
      and lib = lib and pod = pod and ps = ps, OF assms(1) refl set_usable(1)]
  note v6 = rule_sources [where usable = usable_v6 and addr = "\<lambda>d. AddressIPv6 (Iface (EpSpec d))"
      and lib = lib and pod = pod and ps = ps, OF assms(1) refl set_usable(2)]
  show ?thesis
    unfolding rs addresses_def v4 v6 by (simp add: conj_commute)
qed

section \<open>The properties at concrete inputs\<close>

definition example_ep :: "uid \<Rightarrow> labels \<Rightarrow> string \<Rightarrow> string \<Rightarrow> danm_ep" where
  "example_ep u ls net addr =
     \<lparr>EpMeta = \<lparr>Name = u, Namespace = ''ns'', UID = u, Labels = ls, ResourceVersion = []\<rparr>,
      EpSpec = \<lparr>NetworkName = net, NetworkType = ''ipvlan'', ApiType = [], PodName = ''pod'',
        PodUID = u, Netns = ''/proc/1/ns/net'',
        Iface = \<lparr>IfaceName = ''eth0'', Address = addr, AddressIPv6 = []\<rparr>\<rparr>\<rparr>"

definition example_deps :: "danm_ep list" where
  "example_deps =
     [example_ep ''a'' [(''app'', ''web'')] ''red'' ''10.0.0.1/24'',
      example_ep ''b'' [(''app'', ''web'')] ''blue'' ''10.0.1.1/24'',
      example_ep ''c'' [] ''blue'' ''10.0.1.2/24'']"

definition example_pod :: pod where
  "example_pod = \<lparr>PodMeta = \<lparr>Name = ''pod'', Namespace = ''ns'', UID = ''a'', Labels = [],
     ResourceVersion = []\<rparr>, NodeName = ''node'', Phase = ''Running''\<rparr>"

definition example_lib :: libs where
  "example_lib = \<lparr>LabelSelectorAsMap = \<lambda>sel. Inr (MatchLabels sel), NoneAllocType = ''none''\<rparr>"

definition example_peer :: "labels \<Rightarrow> network_selector list \<Rightarrow> network_policy_peer" where
  "example_peer ls ns = \<lparr>PeerPodSelector = \<lparr>MatchLabels = ls, MatchExpressions = []\<rparr>,
     PeerNamespaceSelector = \<lparr>MatchLabels = [], MatchExpressions = []\<rparr>, PeerNetworkSelector = ns\<rparr>"

definition example_policy :: "network_policy_peer list \<Rightarrow> danm_network_policy" where
  "example_policy peers = \<lparr>PolTypeMeta = \<lparr>Kind = [], APIVersion = []\<rparr>,
     PolMeta = \<lparr>Name = ''p'', Namespace = ''ns'', UID = ''p'', Labels = [], ResourceVersion = []\<rparr>,
     PolSpec = \<lparr>PodSelector = \<lparr>MatchLabels = [], MatchExpressions = []\<rparr>,
       Ingress = [\<lparr>IngressPorts = [], From = peers\<rparr>], Egress = [], PolicyTypes = []\<rparr>\<rparr>"

lemmas netruleset_example_defs = example_ep_def example_deps_def example_pod_def example_lib_def
  example_peer_def networkBucketName_def selectorBucketName_def const_defs

text \<open>Both selections as filters, to evaluate them.\<close>

lemma pod_selected_code:
  "pod_selected lib deps sel =
     (if MatchLabels sel = [] then {}
      else case LabelSelectorAsMap lib sel of Inl err \<Rightarrow> {}
       | Inr es \<Rightarrow> set [d \<leftarrow> deps. list_ex (\<lambda>e. list_ex (\<lambda>l. fst e @ snd e = fst l @ snd l)
           (Labels (EpMeta d))) es])"
  by (cases "LabelSelectorAsMap lib sel")
    (simp_all add: pod_selected_def list_ex_iff Bex_def)

lemma network_selected_code:
  "network_selected deps ns =
     set [d \<leftarrow> deps. list_ex (\<lambda>n. selectorBucketName n = networkBucketName d) ns]"
  by (auto simp: network_selected_def list_ex_iff)

lemma example_inj: "inj_on ep_uid (set example_deps)"
  by (simp add: example_deps_def example_ep_def)

lemma network_selector_exact_witness:
  "set (filterDepsByNetworkSelector (NewDanmEpSet (Inr example_deps) example_pod)
      [\<lparr>SelName = ''red'', SelType = ''DanmNet''\<rparr>]) =
     {d. d \<in> set example_deps \<and> NetworkName (EpSpec d) = ''red'' \<and>
         kind_or_default (ApiType (EpSpec d)) = ''DanmNet''}"
  by (subst network_selector_exact)
    (auto simp: example_deps_def example_ep_def kind_or_default_def known_kind_def)

lemma peer_selection_exact_witness:
  "set (finalDeps example_lib (NewDanmEpSet (Inr example_deps) example_pod)
      (example_peer [(''app'', ''web'')] [\<lparr>SelName = ''blue'', SelType = []\<rparr>])) = {example_deps ! 1} \<and>
   set (finalDeps example_lib (NewDanmEpSet (Inr example_deps) example_pod)
      (example_peer [(''app'', ''web'')] [\<lparr>SelName = ''green'', SelType = []\<rparr>])) =
     {example_deps ! 0, example_deps ! 1}"
  by (simp only: peer_selection_exact [OF example_inj])
    (simp add: pod_selected_code network_selected_code netruleset_example_defs)

text \<open>A Pod whose policy whitelists the web endpoints gets one rule for each.\<close>

definition example_rules :: net_rule_set where
  "example_rules =
     \<lparr>IngressV4Chain = \<lparr>ChainName = IngressV4ChainName,
        Rules = [zero_rule\<lparr>SourceIp := ''10.0.0.1''\<rparr>, zero_rule\<lparr>SourceIp := ''10.0.1.1''\<rparr>]\<rparr>,
      IngressV6Chain = \<lparr>ChainName = IngressV6ChainName, Rules = []\<rparr>,
      EgressV4Chain = \<lparr>ChainName = EgressV4ChainName, Rules = []\<rparr>,
      EgressV6Chain = \<lparr>ChainName = EgressV6ChainName, Rules = []\<rparr>,
      RuleNetns = ''/proc/1/ns/net''\<rparr>"

lemma example_NewNetRuleSet:
  "NewNetRuleSet example_lib [example_policy [example_peer [(''app'', ''web'')] []]]
     (NewDanmEpSet (Inr example_deps) example_pod) = Inr example_rules"
  by code_simp

lemma whitelist_exact_witness:
  "SourceIp ` set (Rules (IngressV4Chain example_rules)) = host_part ` {a. has_address example_lib a \<and>
      a \<in> (\<lambda>d. Address (Iface (EpSpec d))) ` whitelisted example_lib
        (NewDanmEpSet (Inr example_deps) example_pod) ingress_peers
        [example_policy [example_peer [(''app'', ''web'')] []]]}"
  using whitelist_exact [OF example_inj example_NewNetRuleSet] by (elim conjE)

end
