(* ===== verification/Polctrl.thy ===== *)
theory Polctrl
  imports Polset Netruleset "HOL-Library.Sublist"
begin

text \<open>
  \<open>pkg/polctrl\<close>: the controller. It discovers the policy API, creates the two informers, and
  turns the arrival of a Pod into one run of the rule provisioner, started as a goroutine.
  Calls to the API server, sleeps and started goroutines are events; the lists the API server
  answers with are part of the event.
\<close>

section \<open>External calls\<close>

datatype informer_kind = PolicyInformer | PodInformer

datatype pol_event =
    ListPolicies string "string + danm_network_policy list"
  | ListDanmEps string "string + danm_ep list"
  | PolSleep int
  | SpawnAddRules net_rule_set pod
  | SpawnRun informer_kind
  | SendStop
  | ExitProcess int

text \<open>The answers of the API server, as functions of the history.\<close>

record pol_env =
  list_policies :: "pol_event list \<Rightarrow> string \<Rightarrow> string + danm_network_policy list"
  list_eps :: "pol_event list \<Rightarrow> string \<Rightarrow> string + danm_ep list"

definition MaxRetryCount :: nat where "MaxRetryCount = 5"
definition ShortRetryInterval :: int where "ShortRetryInterval = 100"
definition LongRetryInterval :: int where "LongRetryInterval = 500"

section \<open>Handling Pods\<close>

text \<open>The retry loop; the set is a nil pointer (\<open>None\<close>) before the first attempt.\<close>

fun awaitDeps ::
  "pol_env \<Rightarrow> pod \<Rightarrow> nat \<Rightarrow> danm_ep_set option \<Rightarrow> (pol_event, danm_ep_set option) io" where
  "awaitDeps env pod 0 depSet = ret depSet"
| "awaitDeps env pod (Suc n) depSet = do {
     deps \<leftarrow> observe (\<lambda>h. list_eps env h (Namespace (PodMeta pod))) (ListDanmEps (Namespace (PodMeta pod)));
     let depSet = NewDanmEpSet deps pod;
     (if length (PodEps depSet) \<noteq> 0 then ret (Some depSet)
      else do {
        emit (PolSleep LongRetryInterval);
        awaitDeps env pod n (Some depSet)
      })
   }"

definition AddPod :: "libs \<Rightarrow> pol_env \<Rightarrow> string \<Rightarrow> pod \<Rightarrow> (pol_event, unit go) io" where
  "AddPod lib env ControllerNode pod =
     (if NodeName pod \<noteq> ControllerNode then ret (Inr ()) else do {
        netPols \<leftarrow> observe (\<lambda>h. list_policies env h (Namespace (PodMeta pod)))
          (ListPolicies (Namespace (PodMeta pod)));
        let policySet = NewPolicySet lib netPols;
        let applicablePols = FilterApplicablePolicies policySet pod;
        (if length applicablePols = 0 then ret (Inr ()) else do {
           depSet \<leftarrow> awaitDeps env pod MaxRetryCount None;
           (case depSet of
              None \<Rightarrow> ret (Inl NilDereference)
            | Some depSet \<Rightarrow>
                (if length (PodEps depSet) = 0 then ret (Inr ())
                 else (case NewNetRuleSet lib applicablePols depSet of
                         Inl panic \<Rightarrow> ret (Inl panic)
                       | Inr netRuleSet \<Rightarrow> do {
                           emit (SpawnAddRules netRuleSet pod);
                           ret (Inr ())
                         })))
        })
      })"

definition UpdatePod :: "libs \<Rightarrow> pol_env \<Rightarrow> string \<Rightarrow> pod \<Rightarrow> pod \<Rightarrow> (pol_event, unit go) io" where
  "UpdatePod lib env ControllerNode oldPod newPod =
     (if NodeName oldPod \<noteq> NodeName newPod then AddPod lib env ControllerNode newPod else ret (Inr ()))"

text \<open>The handlers of policy events are still empty in the code.\<close>

definition AddNetPol :: "danm_network_policy \<Rightarrow> (pol_event, unit go) io" where
  "AddNetPol netpol = ret (Inr ())"

definition UpdateNetPol :: "danm_network_policy \<Rightarrow> danm_network_policy \<Rightarrow> (pol_event, unit go) io" where
  "UpdateNetPol oldNetpol newNetpol = ret (Inr ())"

definition DeleteNetPol :: "danm_network_policy \<Rightarrow> (pol_event, unit go) io" where
  "DeleteNetPol netpol = ret (Inr ())"

section \<open>The controller and its informers\<close>

text \<open>
  An informer with the handlers it was given. A resource event the informer has no handler for
  is dropped, as \<open>cache.ResourceEventHandlerFuncs\<close> does. \<open>HasClient\<close> says whether the client it lists
  and watches with is a client or a nil pointer.
\<close>

datatype pol_handler = CallAddNetPol | CallUpdateNetPol | CallDeleteNetPol | CallAddPod | CallUpdatePod

record informer =
  ResyncSeconds :: nat
  AddFunc :: "pol_handler option"
  UpdateFunc :: "pol_handler option"
  DeleteFunc :: "pol_handler option"
  WatchErrors :: bool
  HasClient :: bool

record net_pol_control =
  PolicyController :: "informer option"
  PodController :: "informer option"

definition createPolicyController :: "net_pol_control \<Rightarrow> net_pol_control" where
  "createPolicyController netpolCtrl = netpolCtrl\<lparr>PolicyController := Some
     \<lparr>ResyncSeconds = 30, AddFunc = Some CallAddNetPol, UpdateFunc = Some CallUpdateNetPol,
      DeleteFunc = Some CallDeleteNetPol, WatchErrors = True, HasClient = True\<rparr>\<rparr>"

text \<open>
  \<open>kubernetes.NewForConfig\<close> answers with an error and a nil client, or with a client; the code
  drops the error and goes on with what it got.
\<close>

definition createPodController :: "string option \<Rightarrow> net_pol_control \<Rightarrow> net_pol_control" where
  "createPodController kubeClientErr netpolCtrl = netpolCtrl\<lparr>PodController := Some
     \<lparr>ResyncSeconds = 30, AddFunc = Some CallAddPod, UpdateFunc = Some CallUpdatePod,
      DeleteFunc = None, WatchErrors = True, HasClient = (kubeClientErr = None)\<rparr>\<rparr>"

fun discoverApi :: "pol_env \<Rightarrow> nat \<Rightarrow> net_pol_control \<Rightarrow> (pol_event, net_pol_control) io" where
  "discoverApi env 0 polControl = ret polControl"
| "discoverApi env (Suc n) polControl = do {
     netPols \<leftarrow> observe (\<lambda>h. list_policies env h []) (ListPolicies []);
     (case netPols of
        Inl err \<Rightarrow> do {
          emit (PolSleep ShortRetryInterval);
          discoverApi env n polControl
        }
      | Inr items \<Rightarrow> ret (createPolicyController polControl))
   }"

text \<open>The three client constructors answer with an error or not.\<close>

definition NewNetPolControl ::
  "pol_env \<Rightarrow> string option \<Rightarrow> string option \<Rightarrow> string option \<Rightarrow> (pol_event, string + net_pol_control) io" where
  "NewNetPolControl env polClientErr danmClientErr kubeClientErr =
     (case polClientErr of Some err \<Rightarrow> ret (Inl err) | None \<Rightarrow>
     (case danmClientErr of Some err \<Rightarrow> ret (Inl err) | None \<Rightarrow> do {
        polControl \<leftarrow> discoverApi env MaxRetryCount \<lparr>PolicyController = None, PodController = None\<rparr>;
        (if PolicyController polControl = None
         then ret (Inl ''DanmNetworkPolicy API is not installed in the cluster, DANM Network Policy Controller cannot start!'')
         else ret (Inr (createPodController kubeClientErr polControl)))
      }))"

definition Run :: "(pol_event, unit) io" where
  "Run = do { emit (SpawnRun PolicyInformer); emit (SpawnRun PodInformer) }"

text \<open>
  The error classes are decided by \<open>apierrors\<close> and by the identity of \<open>io.EOF\<close>: a parameter.
  The process ends with its last event.
\<close>

definition WatchErrorHandler :: "('e \<Rightarrow> bool) \<Rightarrow> ('e \<Rightarrow> bool) \<Rightarrow> ('e \<Rightarrow> bool) \<Rightarrow> 'e \<Rightarrow> (pol_event, unit) io" where
  "WatchErrorHandler IsResourceExpired IsGone IsEOF err =
     (if IsResourceExpired err \<or> IsGone err \<or> IsEOF err then ret ()
      else do {
        emit SendStop;
        emit (PolSleep 5000);
        emit (ExitProcess 0)
      })"

section \<open>Notifications\<close>

datatype notification =
    PolAdded danm_network_policy
  | PolUpdated danm_network_policy danm_network_policy
  | PolDeleted danm_network_policy
  | PodAdded pod
  | PodUpdated pod pod
  | PodDeleted pod

text \<open>
  What the handlers of a controller do with a notification of an informer. A handler that is
  not of the notification's type does not occur in the controllers created above.
\<close>

definition notify :: "libs \<Rightarrow> pol_env \<Rightarrow> string \<Rightarrow> net_pol_control \<Rightarrow> notification \<Rightarrow> (pol_event, unit go) io" where
  "notify lib env node ctrl n =
     (case n of
        PolAdded p \<Rightarrow> (case Option.bind (PolicyController ctrl) AddFunc of
            Some CallAddNetPol \<Rightarrow> AddNetPol p | _ \<Rightarrow> ret (Inr ()))
      | PolUpdated p p' \<Rightarrow> (case Option.bind (PolicyController ctrl) UpdateFunc of
            Some CallUpdateNetPol \<Rightarrow> UpdateNetPol p p' | _ \<Rightarrow> ret (Inr ()))
      | PolDeleted p \<Rightarrow> (case Option.bind (PolicyController ctrl) DeleteFunc of
            Some CallDeleteNetPol \<Rightarrow> DeleteNetPol p | _ \<Rightarrow> ret (Inr ()))
      | PodAdded p \<Rightarrow> (case Option.bind (PodController ctrl) AddFunc of
            Some CallAddPod \<Rightarrow> AddPod lib env node p | _ \<Rightarrow> ret (Inr ()))
      | PodUpdated p p' \<Rightarrow> (case Option.bind (PodController ctrl) UpdateFunc of
            Some CallUpdatePod \<Rightarrow> UpdatePod lib env node p p' | _ \<Rightarrow> ret (Inr ()))
      | PodDeleted p \<Rightarrow> ret (Inr ()))"

section \<open>The retry loop\<close>

text \<open>The listings and sleeps of \<open>k\<close> attempts that found nothing of the Pod.\<close>

fun attempts :: "string \<Rightarrow> (string + danm_ep list) list \<Rightarrow> pol_event list" where
  "attempts ns [] = []"
| "attempts ns (a # as) = [ListDanmEps ns a, PolSleep LongRetryInterval] @ attempts ns as"

definition finds_pod :: "pod \<Rightarrow> string + danm_ep list \<Rightarrow> bool" where
  "finds_pod pod a \<longleftrightarrow> PodEps (NewDanmEpSet a pod) \<noteq> []"

text \<open>
  The loop lists until an answer holds an endpoint of the Pod, at most \<open>n\<close> times, and sleeps
  after every failed attempt.
\<close>

lemma run_awaitDeps:
  obtains (found) as a where "length as < n" "list_all (\<lambda>a. \<not> finds_pod pod a) as" "finds_pod pod a"
      "run_state (awaitDeps env pod n ds) h =
        (Some (NewDanmEpSet a pod),
         h @ attempts (Namespace (PodMeta pod)) as @ [ListDanmEps (Namespace (PodMeta pod)) a])"
  | (failed) as where "length as = n" "list_all (\<lambda>a. \<not> finds_pod pod a) as"
      "run_state (awaitDeps env pod n ds) h =
        (if as = [] then ds else Some (NewDanmEpSet (last as) pod),
         h @ attempts (Namespace (PodMeta pod)) as)"
proof -
  let ?ns = "Namespace (PodMeta pod)"
  have "(\<exists>as a. length as < n \<and> list_all (\<lambda>a. \<not> finds_pod pod a) as \<and> finds_pod pod a \<and>
      run_state (awaitDeps env pod n ds) h =
        (Some (NewDanmEpSet a pod), h @ attempts ?ns as @ [ListDanmEps ?ns a])) \<or>
    (\<exists>as. length as = n \<and> list_all (\<lambda>a. \<not> finds_pod pod a) as \<and>
      run_state (awaitDeps env pod n ds) h =
        (if as = [] then ds else Some (NewDanmEpSet (last as) pod), h @ attempts ?ns as))"
  proof (induction n arbitrary: ds h)
    case 0
    then show ?case by simp
  next
    case (Suc n)
    define a where "a = list_eps env h ?ns"
    show ?case
    proof (cases "finds_pod pod a")
      case True
      then have "run_state (awaitDeps env pod (Suc n) ds) h =
          (Some (NewDanmEpSet a pod), h @ attempts ?ns [] @ [ListDanmEps ?ns a])"
        by (simp add: Let_def finds_pod_def a_def)
      with True show ?thesis
        by (intro disjI1 exI [of _ "[]"] exI [of _ a]) simp
    next
      case False
      let ?h = "h @ [ListDanmEps ?ns a, PolSleep LongRetryInterval]"
      from False have step: "run_state (awaitDeps env pod (Suc n) ds) h =
          run_state (awaitDeps env pod n (Some (NewDanmEpSet a pod))) ?h"
        by (simp add: Let_def finds_pod_def a_def)
      from Suc.IH [of "Some (NewDanmEpSet a pod)" ?h] show ?thesis
      proof (elim disjE exE conjE)
        fix as a'
        assume as: "length as < n" "list_all (\<lambda>a. \<not> finds_pod pod a) as" "finds_pod pod a'"
          "run_state (awaitDeps env pod n (Some (NewDanmEpSet a pod))) ?h =
            (Some (NewDanmEpSet a' pod), ?h @ attempts ?ns as @ [ListDanmEps ?ns a'])"
        with False step show ?thesis
          by (intro disjI1 exI [of _ "a # as"] exI [of _ a']) simp
      next
        fix as
        assume as: "length as = n" "list_all (\<lambda>a. \<not> finds_pod pod a) as"
          "run_state (awaitDeps env pod n (Some (NewDanmEpSet a pod))) ?h =
            (if as = [] then Some (NewDanmEpSet a pod) else Some (NewDanmEpSet (last as) pod),
             ?h @ attempts ?ns as)"
        with False step show ?thesis
          by (intro disjI2 exI [of _ "a # as"]) auto
      qed
    qed
  qed
  then show ?thesis using found failed by blast
qed

section \<open>What a Pod's arrival does\<close>

definition applicable :: "libs \<Rightarrow> string + danm_network_policy list \<Rightarrow> pod \<Rightarrow> danm_network_policy list" where
  "applicable lib answer pod = FilterApplicablePolicies (NewPolicySet lib answer) pod"

text \<open>
  The four ways a run on this node ends: no policy applies; no endpoint of the Pod was found in
  five attempts; building the rule set panics; or the provisioner is started.
\<close>

lemma run_AddPod:
  assumes "NodeName pod = node"
  defines "ns \<equiv> Namespace (PodMeta pod)"
  obtains (unselected) pols where "applicable lib pols pod = []"
      "run_state (AddPod lib env node pod) h = (Inr (), h @ [ListPolicies ns pols])"
  | (unmanaged) pols as where "applicable lib pols pod \<noteq> []" "length as = 5"
      "list_all (\<lambda>a. \<not> finds_pod pod a) as"
      "run_state (AddPod lib env node pod) h = (Inr (), h @ ListPolicies ns pols # attempts ns as)"
  | (panicked) pols as a panic where "applicable lib pols pod \<noteq> []" "length as < 5" "finds_pod pod a"
      "NewNetRuleSet lib (applicable lib pols pod) (NewDanmEpSet a pod) = Inl panic"
      "run_state (AddPod lib env node pod) h =
        (Inl panic, h @ ListPolicies ns pols # attempts ns as @ [ListDanmEps ns a])"
  | (provisioned) pols as a rs where "applicable lib pols pod \<noteq> []" "length as < 5" "finds_pod pod a"
      "NewNetRuleSet lib (applicable lib pols pod) (NewDanmEpSet a pod) = Inr rs"
      "run_state (AddPod lib env node pod) h =
        (Inr (), h @ ListPolicies ns pols # attempts ns as @ [ListDanmEps ns a, SpawnAddRules rs pod])"
proof -
  define pols where "pols = list_policies env h ns"
  let ?h = "h @ [ListPolicies ns pols]"
  show ?thesis
  proof (cases "applicable lib pols pod = []")
    case True
    then have "run_state (AddPod lib env node pod) h = (Inr (), h @ [ListPolicies ns pols])"
      using assms(1) by (simp add: AddPod_def Let_def applicable_def pols_def ns_def)
    with True show ?thesis by (rule unselected)
  next
    case False
    have step: "run_state (AddPod lib env node pod) h =
        (case run_state (awaitDeps env pod 5 None) ?h of (None, h') \<Rightarrow> (Inl NilDereference, h')
         | (Some ds, h') \<Rightarrow>
             (if PodEps ds = [] then (Inr (), h')
              else case NewNetRuleSet lib (applicable lib pols pod) ds of
                  Inl panic \<Rightarrow> (Inl panic, h')
                | Inr rs \<Rightarrow> (Inr (), h' @ [SpawnAddRules rs pod])))"
      using assms(1) False
      by (auto simp: AddPod_def Let_def applicable_def pols_def ns_def MaxRetryCount_def
          split: prod.split option.split sum.split)
    show ?thesis
    proof (rule run_awaitDeps [of 5 pod env None ?h])
      fix as a
      assume as: "length as < 5" "finds_pod pod a"
        and run: "run_state (awaitDeps env pod 5 None) ?h = (Some (NewDanmEpSet a pod),
          ?h @ attempts (Namespace (PodMeta pod)) as @ [ListDanmEps (Namespace (PodMeta pod)) a])"
      show ?thesis
      proof (cases "NewNetRuleSet lib (applicable lib pols pod) (NewDanmEpSet a pod)")
        case (Inl panic)
        with step run as(2) have "run_state (AddPod lib env node pod) h =
            (Inl panic, h @ ListPolicies ns pols # attempts ns as @ [ListDanmEps ns a])"
          by (simp add: finds_pod_def ns_def)
        with False as Inl show ?thesis by (rule panicked)
      next
        case (Inr rs)
        with step run as(2) have "run_state (AddPod lib env node pod) h =
            (Inr (), h @ ListPolicies ns pols # attempts ns as @ [ListDanmEps ns a, SpawnAddRules rs pod])"
          by (simp add: finds_pod_def ns_def)
        with False as Inr show ?thesis by (rule provisioned)
      qed
    next
      fix as
      assume as: "length as = 5" "list_all (\<lambda>a. \<not> finds_pod pod a) as"
        and run: "run_state (awaitDeps env pod 5 None) ?h =
          (if as = [] then None else Some (NewDanmEpSet (last as) pod),
           ?h @ attempts (Namespace (PodMeta pod)) as)"
      have ne: "as \<noteq> []" using as(1) by auto
      then have "\<not> finds_pod pod (last as)" using as(2) by (simp add: list_all_iff)
      with step run ne have "run_state (AddPod lib env node pod) h =
          (Inr (), h @ ListPolicies ns pols # attempts ns as)"
        by (simp add: finds_pod_def ns_def)
      with False as show ?thesis by (rule unmanaged)
    qed
  qed
qed

lemma applicable_answer:
  assumes "applicable lib a pod \<noteq> []"
  shows "\<exists>pols. a = Inr pols"
proof (cases a)
  case (Inl e)
  have nil: "concat (map (bucket_get (Map.empty :: danm_network_policy buckets)) xs) = []" for xs
    by (induction xs) simp_all
  have "applicable lib a pod = []"
    by (simp only: Inl applicable_def NewPolicySet_def FilterApplicablePolicies_eq sum.case nil
        dedup.simps)
  with assms show ?thesis by simp
qed simp

lemma finds_pod_answer: "finds_pod pod a \<Longrightarrow> \<exists>deps. a = Inr deps"
  by (cases a) (simp_all add: finds_pod_def)

lemma run_AddPod_foreign [simp]:
  "NodeName pod \<noteq> node \<Longrightarrow> run_state (AddPod lib env node pod) h = (Inr (), h)"
  by (simp add: AddPod_def)

section \<open>Calls of a run\<close>

fun is_listing :: "pol_event \<Rightarrow> bool" where
  "is_listing (ListDanmEps ns a) = True"
| "is_listing _ = False"

fun is_spawn :: "pol_event \<Rightarrow> bool" where
  "is_spawn (SpawnAddRules rs p) = True"
| "is_spawn _ = False"

lemma attempts_simps [simp]:
  "length (filter is_listing (attempts ns as)) = length as"
  "filter is_spawn (attempts ns as) = []"
  "ListDanmEps ns a \<in> set (attempts ns as) \<longleftrightarrow> a \<in> set as"
  "SpawnAddRules rs p \<notin> set (attempts ns as)"
  "ListPolicies ns' b \<notin> set (attempts ns as)"
  by (induction as) auto

text \<open>What a run adds to the history says why the provisioner was started.\<close>

definition justified :: "libs \<Rightarrow> pod \<Rightarrow> net_rule_set \<Rightarrow> pol_event list \<Rightarrow> bool" where
  "justified lib pod rs t \<longleftrightarrow>
     (\<exists>pols deps.
        ListPolicies (Namespace (PodMeta pod)) (Inr pols) \<in> set t \<and>
        ListDanmEps (Namespace (PodMeta pod)) (Inr deps) \<in> set t \<and>
        applicable lib (Inr pols) pod \<noteq> [] \<and>
        NewNetRuleSet lib (applicable lib (Inr pols) pod) (NewDanmEpSet (Inr deps) pod) = Inr rs)"

lemma spawn_justified:
  assumes "run_state (AddPod lib env node pod) h = (r, h @ t)" and "SpawnAddRules rs p \<in> set t"
  shows "p = pod \<and> NodeName pod = node \<and> justified lib pod rs t"
proof (cases "NodeName pod = node")
  case False
  with assms show ?thesis by simp
next
  case True
  then show ?thesis
  proof (rule run_AddPod [of pod node lib env h])
    fix pols as a rs'
    assume a: "applicable lib pols pod \<noteq> []" "finds_pod pod a"
      "NewNetRuleSet lib (applicable lib pols pod) (NewDanmEpSet a pod) = Inr rs'"
      and run: "run_state (AddPod lib env node pod) h = (Inr (), h @ ListPolicies (Namespace (PodMeta pod)) pols #
        attempts (Namespace (PodMeta pod)) as @
        [ListDanmEps (Namespace (PodMeta pod)) a, SpawnAddRules rs' pod])"
    from run assms have "p = pod" "rs = rs'" by auto
    moreover obtain ps deps where "pols = Inr ps" "a = Inr deps"
      using applicable_answer [OF a(1)] finds_pod_answer [OF a(2)] by blast
    ultimately show ?thesis
      using a run assms(1) True unfolding justified_def by auto
  qed (use assms in auto)
qed

lemma AddPod_extends: "\<exists>r t. run_state (AddPod lib env node pod) h = (r, h @ t)"
proof (cases "NodeName pod = node")
  case True
  then show ?thesis by (rule run_AddPod [of pod node lib env h]) blast+
next
  case False
  then show ?thesis by simp
qed

section \<open>The controller in service\<close>

text \<open>A panic ends the process: the notifications behind it are not handled.\<close>

fun serve ::
  "libs \<Rightarrow> pol_env \<Rightarrow> string \<Rightarrow> net_pol_control \<Rightarrow> notification list \<Rightarrow> (pol_event, unit go) io" where
  "serve lib env node ctrl [] = ret (Inr ())"
| "serve lib env node ctrl (n # ns) = do {
     r \<leftarrow> notify lib env node ctrl n;
     (case r of Inl panic \<Rightarrow> ret (Inl panic) | Inr u \<Rightarrow> serve lib env node ctrl ns)
   }"

fun arriving :: "notification \<Rightarrow> pod list" where
  "arriving (PodAdded p) = [p]"
| "arriving (PodUpdated p p') = (if NodeName p \<noteq> NodeName p' then [p'] else [])"
| "arriving _ = []"

lemma run_notify:
  "(\<exists>p. p \<in> set (arriving n) \<and>
      run_state (notify lib env node ctrl n) h = run_state (AddPod lib env node p) h) \<or>
   run_state (notify lib env node ctrl n) h = (Inr (), h)"
  by (cases n; cases "PolicyController ctrl"; cases "PodController ctrl")
    (auto simp: notify_def AddNetPol_def UpdateNetPol_def DeleteNetPol_def UpdatePod_def
      split: option.split pol_handler.split)

lemma run_serve:
  "\<exists>r t. run_state (serve lib env node ctrl ns) h = (r, h @ t) \<and>
     (\<forall>rs p. SpawnAddRules rs p \<in> set t \<longrightarrow>
        p \<in> set (concat (map arriving ns)) \<and> NodeName p = node \<and> justified lib p rs t)"
proof (induction ns arbitrary: h)
  case Nil
  then show ?case by simp
next
  case (Cons n ns)
  have "\<exists>r t. run_state (notify lib env node ctrl n) h = (r, h @ t) \<and>
      (\<forall>rs p. SpawnAddRules rs p \<in> set t \<longrightarrow>
         p \<in> set (arriving n) \<and> NodeName p = node \<and> justified lib p rs t)"
    using run_notify [of n lib env node ctrl h]
  proof (elim disjE exE conjE)
    fix p
    assume p: "p \<in> set (arriving n)"
      "run_state (notify lib env node ctrl n) h = run_state (AddPod lib env node p) h"
    obtain r t where run: "run_state (AddPod lib env node p) h = (r, h @ t)"
      using AddPod_extends by blast
    with p show ?thesis using spawn_justified [OF run] by auto
  qed simp
  then obtain r t where first: "run_state (notify lib env node ctrl n) h = (r, h @ t)"
    "\<And>rs p. SpawnAddRules rs p \<in> set t \<Longrightarrow>
       p \<in> set (arriving n) \<and> NodeName p = node \<and> justified lib p rs t" by blast
  show ?case
  proof (cases r)
    case (Inl panic)
    with first show ?thesis by (intro exI [of _ "Inl panic"] exI [of _ t]) auto
  next
    case (Inr u)
    obtain r' t' where rest: "run_state (serve lib env node ctrl ns) (h @ t) = (r', (h @ t) @ t')"
      "\<And>rs p. SpawnAddRules rs p \<in> set t' \<Longrightarrow>
         p \<in> set (concat (map arriving ns)) \<and> NodeName p = node \<and> justified lib p rs t'"
      using Cons.IH [of "h @ t"] by blast
    have mono: "justified lib p rs t1 \<Longrightarrow> set t1 \<subseteq> set t2 \<Longrightarrow> justified lib p rs t2" for p rs t1 t2
      unfolding justified_def by blast
    have "run_state (serve lib env node ctrl (n # ns)) h = (r', h @ t @ t')"
      using first(1) rest(1) Inr by simp
    moreover have "p \<in> set (concat (map arriving (n # ns))) \<and> NodeName p = node \<and>
        justified lib p rs (t @ t')" if "SpawnAddRules rs p \<in> set (t @ t')" for rs p
    proof (cases "SpawnAddRules rs p \<in> set t")
      case True
      from first(2) [OF this] mono [of p rs t "t @ t'"] show ?thesis by simp
    next
      case False
      with that have "SpawnAddRules rs p \<in> set t'" by simp
      from rest(2) [OF this] mono [of p rs t' "t @ t'"] show ?thesis by simp
    qed
    ultimately show ?thesis by blast
  qed
qed

section \<open>What a controller reacts to\<close>

definition serving :: "net_pol_control \<Rightarrow> bool" where
  "serving ctrl \<longleftrightarrow> Option.bind (PodController ctrl) AddFunc = Some CallAddPod \<and>
     Option.bind (PodController ctrl) UpdateFunc = Some CallUpdatePod"

lemma NewNetPolControl_serving:
  assumes "run_state (NewNetPolControl env e1 e2 e3) h = (Inr ctrl, h')"
  shows "serving ctrl"
proof -
  have "serving (createPodController e3 c)" for c by (simp add: serving_def createPodController_def)
  with assms show ?thesis
    by (auto simp: NewNetPolControl_def split: option.splits prod.splits if_splits)
qed

lemma notify_arriving:
  assumes "serving ctrl"
  shows "run_state (notify lib env node ctrl n) h =
     (case arriving n of [] \<Rightarrow> (Inr (), h) | p # ps \<Rightarrow> run_state (AddPod lib env node p) h)"
  using assms by (cases n; cases "PolicyController ctrl")
    (auto simp: notify_def serving_def AddNetPol_def UpdateNetPol_def DeleteNetPol_def UpdatePod_def
      split: option.split pol_handler.split)

text \<open>The Pods of a node that arrive in a sequence of notifications.\<close>

definition own_arrivals :: "string \<Rightarrow> notification list \<Rightarrow> pod list" where
  "own_arrivals node ns = [p \<leftarrow> concat (map arriving ns). NodeName p = node]"

lemma own_arrivals_Cons:
  "own_arrivals node (n # ns) = (case arriving n of [] \<Rightarrow> [] | p # ps \<Rightarrow> if NodeName p = node then [p] else []) @
     own_arrivals node ns"
  by (cases n) (simp_all add: own_arrivals_def)

lemma serve_own_arrivals:
  assumes "serving ctrl"
  shows "run_state (serve lib env node ctrl ns) h =
     run_state (serve lib env node ctrl (map PodAdded (own_arrivals node ns))) h"
proof (induction ns arbitrary: h)
  case Nil
  then show ?case by (simp add: own_arrivals_def)
next
  case (Cons n ns)
  note step = notify_arriving [OF assms]
  show ?case
  proof (cases "arriving n")
    case Nil
    then have "run_state (serve lib env node ctrl (n # ns)) h = run_state (serve lib env node ctrl ns) h"
      by (simp add: step)
    with Cons.IH Nil show ?thesis by (simp add: own_arrivals_Cons)
  next
    case (Cons p ps)
    show ?thesis
    proof (cases "NodeName p = node")
      case False
      with Cons have "run_state (serve lib env node ctrl (n # ns)) h = run_state (serve lib env node ctrl ns) h"
        by (simp add: step)
      with Cons.IH Cons False show ?thesis by (simp add: own_arrivals_Cons)
    next
      case True
      with Cons.IH Cons show ?thesis
        by (simp add: own_arrivals_Cons step split: prod.split sum.split)
    qed
  qed
qed

text \<open>The Pods for which provisioners were started.\<close>

fun spawned_for :: "pol_event list \<Rightarrow> pod list" where
  "spawned_for [] = []"
| "spawned_for (SpawnAddRules rs p # t) = p # spawned_for t"
| "spawned_for (e # t) = spawned_for t"

lemma spawned_for_append [simp]: "spawned_for (xs @ ys) = spawned_for xs @ spawned_for ys"
  by (induction xs rule: spawned_for.induct) simp_all

lemma spawned_for_attempts [simp]: "spawned_for (attempts ns as) = []"
  by (induction as) simp_all

lemma AddPod_spawned: "\<exists>r t. run_state (AddPod lib env node pod) h = (r, h @ t) \<and> subseq (spawned_for t) [pod]"
proof (cases "NodeName pod = node")
  case True
  then show ?thesis by (rule run_AddPod [of pod node lib env h]) auto
qed simp

lemma serve_spawned:
  assumes "serving ctrl"
  shows "\<exists>r t. run_state (serve lib env node ctrl (map PodAdded ps)) h = (r, h @ t) \<and> subseq (spawned_for t) ps"
proof (induction ps arbitrary: h)
  case (Cons p ps)
  obtain r t where first: "run_state (AddPod lib env node p) h = (r, h @ t)" "subseq (spawned_for t) [p]"
    using AddPod_spawned by blast
  show ?case
  proof (cases r)
    case (Inl panic)
    have "subseq [p] (p # ps)" by simp
    with first(2) have "subseq (spawned_for t) (p # ps)" by (rule subseq_order.order_trans)
    with first(1) Inl show ?thesis
      by (intro exI [of _ r] exI [of _ t]) (simp add: notify_arriving [OF assms])
  next
    case (Inr u)
    obtain r' t' where "run_state (serve lib env node ctrl (map PodAdded ps)) (h @ t) = (r', (h @ t) @ t')"
      "subseq (spawned_for t') ps" using Cons.IH by blast
    with first Inr list_emb_append_mono [OF first(2), of "spawned_for t'" ps] show ?thesis
      by (intro exI [of _ r'] exI [of _ "t @ t'"]) (simp add: notify_arriving [OF assms])
  qed
qed simp

section \<open>Discovery\<close>

text \<open>The listings and sleeps of failed discovery attempts, by their errors.\<close>

fun refusals :: "string list \<Rightarrow> pol_event list" where
  "refusals [] = []"
| "refusals (e # es) = [ListPolicies [] (Inl e), PolSleep ShortRetryInterval] @ refusals es"

lemma run_discoverApi:
  "(\<exists>es items. length es < n \<and> run_state (discoverApi env n ctrl) h =
      (createPolicyController ctrl, h @ refusals es @ [ListPolicies [] (Inr items)])) \<or>
   (\<exists>es. length es = n \<and> run_state (discoverApi env n ctrl) h = (ctrl, h @ refusals es))"
proof (induction n arbitrary: h)
  case 0
  then show ?case by simp
next
  case (Suc n)
  show ?case
  proof (cases "list_policies env h []")
    case (Inr items)
    then show ?thesis by (intro disjI1 exI [of _ "[]"] exI [of _ items]) simp
  next
    case (Inl e)
    then have step: "run_state (discoverApi env (Suc n) ctrl) h =
        run_state (discoverApi env n ctrl) (h @ [ListPolicies [] (Inl e), PolSleep ShortRetryInterval])"
      by simp
    from Suc.IH [of "h @ [ListPolicies [] (Inl e), PolSleep ShortRetryInterval]"] show ?thesis
    proof (elim disjE exE conjE)
      fix es items
      assume "length es < n" "run_state (discoverApi env n ctrl)
          (h @ [ListPolicies [] (Inl e), PolSleep ShortRetryInterval]) = (createPolicyController ctrl,
          (h @ [ListPolicies [] (Inl e), PolSleep ShortRetryInterval]) @ refusals es @
          [ListPolicies [] (Inr items)])"
      with step show ?thesis
        by (intro disjI1 exI [of _ "e # es"] exI [of _ items]) simp
    next
      fix es
      assume "length es = n" "run_state (discoverApi env n ctrl)
          (h @ [ListPolicies [] (Inl e), PolSleep ShortRetryInterval]) = (ctrl,
          (h @ [ListPolicies [] (Inl e), PolSleep ShortRetryInterval]) @ refusals es)"
      with step show ?thesis
        by (intro disjI2 exI [of _ "e # es"]) simp
    qed
  qed
qed

text \<open>What makes the rule set of selected policies panic.\<close>

lemma incomplete_port:
  assumes "\<not> list_all (policy_total lib ds) ps"
  shows "\<exists>p \<in> set ps. \<exists>port \<in> set (ingress_ports p) \<union> set (egress_ports p). Port port = None \<or> Protocol port = None"
proof -
  obtain p where p: "p \<in> set ps" "\<not> policy_total lib ds p" using assms by (auto simp: list_all_iff)
  then have "\<not> ports_ok (ingress_ports p) \<or> \<not> ports_ok (egress_ports p)"
    by (auto simp: policy_total_def section_total_def)
  then have "\<exists>port \<in> set (ingress_ports p) \<union> set (egress_ports p). Port port = None \<or> Protocol port = None"
    by (auto simp: ports_ok_def port_ok_def list_all_iff)
  with p(1) show ?thesis by blast
qed

section \<open>Properties\<close>

text \<open>
  The rule provisioner is started only with reason: for the Pod at hand, scheduled on this
  node, with a rule set built from policies and endpoints the API server returned during this
  very run, at least one of the policies applying to the Pod.
\<close>

theorem spawned_rules_justified:
  assumes "run_state (AddPod lib env node pod) h = (r, h @ t)" and "SpawnAddRules rs p \<in> set t"
  shows "p = pod \<and> NodeName pod = node \<and>
     (\<exists>pols deps.
        ListPolicies (Namespace (PodMeta pod)) (Inr pols) \<in> set t \<and>
        ListDanmEps (Namespace (PodMeta pod)) (Inr deps) \<in> set t \<and>
        applicable lib (Inr pols) pod \<noteq> [] \<and>
        NewNetRuleSet lib (applicable lib (Inr pols) pod) (NewDanmEpSet (Inr deps) pod) = Inr rs)"
  using spawn_justified [OF assms] by (simp add: justified_def)

text \<open>
  C12: Why a selected Pod of this node may be left without rules. When a policy that was listed for it
  applies, its handler starts the provisioner, with two exceptions and no other: its endpoints were
  listed five times and never found; or the handler panicked on a port entry without a port or
  protocol, in the first ingress or egress section of a policy that applies.
\<close>

theorem provisioned_or_exhausted:
  assumes "run_state (AddPod lib env node pod) h = (r, h @ t)" and "NodeName pod = node"
    and "ListPolicies (Namespace (PodMeta pod)) (Inr pols) \<in> set t"
    and "applicable lib (Inr pols) pod \<noteq> []"
  shows "r = Inr () \<and> (\<exists>rs. SpawnAddRules rs pod \<in> set t) \<or>
     r = Inr () \<and> length (filter is_listing t) = 5 \<and>
       (\<forall>deps. ListDanmEps (Namespace (PodMeta pod)) (Inr deps) \<in> set t \<longrightarrow>
          [d \<leftarrow> deps. PodUID (EpSpec d) = UID (PodMeta pod)] = []) \<or>
     r = Inl NilDereference \<and>
       (\<exists>p \<in> set (applicable lib (Inr pols) pod). \<exists>port \<in> set (ingress_ports p) \<union> set (egress_ports p).
          Port port = None \<or> Protocol port = None)"
  using assms(2)
proof (rule run_AddPod [of pod node lib env h])
  fix pols' as
  assume none: "list_all (\<lambda>a. \<not> finds_pod pod a) as" "length as = 5"
    and run: "run_state (AddPod lib env node pod) h =
      (Inr (), h @ ListPolicies (Namespace (PodMeta pod)) pols' # attempts (Namespace (PodMeta pod)) as)"
  have "[d \<leftarrow> deps. PodUID (EpSpec d) = UID (PodMeta pod)] = []" if "Inr deps \<in> set as" for deps
    using none(1) that by (auto simp: list_all_iff finds_pod_def PodEps_eq)
  with run assms(1) none(2) show ?thesis by auto
next
  fix pols' as a panic
  assume found: "finds_pod pod a"
    and panic: "NewNetRuleSet lib (applicable lib pols' pod) (NewDanmEpSet a pod) = Inl panic"
    and run: "run_state (AddPod lib env node pod) h =
      (Inl panic, h @ ListPolicies (Namespace (PodMeta pod)) pols' #
        attempts (Namespace (PodMeta pod)) as @ [ListDanmEps (Namespace (PodMeta pod)) a])"
  have pols: "pols' = Inr pols" and r: "r = Inl panic" using run assms(1,3) by auto
  from panic found have "panic = NilDereference"
    and "\<not> list_all (policy_total lib (NewDanmEpSet a pod)) (applicable lib pols' pod)"
    by (cases "PodEps (NewDanmEpSet a pod)";
        auto simp: finds_pod_def NewNetRuleSet_def addPolicies_eq split: if_splits)+
  with incomplete_port [of lib _ "applicable lib pols' pod"] show ?thesis unfolding r pols by blast
qed (use assms in auto)

text \<open>
  C11: The handler of a Pod always ends, whatever the API server answers: at most five endpoint
  listings, at most one started provisioner, and never an index panic.
\<close>

theorem AddPod_bounded:
  "\<exists>r t. run_state (AddPod lib env node pod) h = (r, h @ t) \<and> r \<noteq> Inl IndexOutOfRange \<and>
     length (filter is_listing t) \<le> 5 \<and> length (filter is_spawn t) \<le> 1"
proof (cases "NodeName pod = node")
  case True
  then show ?thesis
  proof (rule run_AddPod [of pod node lib env h])
    fix pols as a panic
    assume a: "length as < 5" "finds_pod pod a"
      and panic: "NewNetRuleSet lib (applicable lib pols pod) (NewDanmEpSet a pod) = Inl panic"
      and run: "run_state (AddPod lib env node pod) h =
        (Inl panic, h @ ListPolicies (Namespace (PodMeta pod)) pols #
          attempts (Namespace (PodMeta pod)) as @ [ListDanmEps (Namespace (PodMeta pod)) a])"
    from panic a(2) have "panic \<noteq> IndexOutOfRange"
      by (cases "PodEps (NewDanmEpSet a pod)")
        (auto simp: finds_pod_def NewNetRuleSet_def addPolicies_eq split: if_splits)
    with run a(1) show ?thesis by auto
  qed auto
qed auto

text \<open>
  A failed policy listing leaves the Pod open: nothing is retried and no rule is provisioned.
\<close>

theorem policy_listing_error_fails_open:
  assumes "NodeName pod = node" and "list_policies env h (Namespace (PodMeta pod)) = Inl err"
  shows "run_state (AddPod lib env node pod) h =
     (Inr (), h @ [ListPolicies (Namespace (PodMeta pod)) (Inl err)])"
proof -
  have "applicable lib (Inl err) pod = []" using applicable_answer by blast
  then show ?thesis using assms by (simp add: AddPod_def Let_def applicable_def)
qed

text \<open>
  C4: Over any sequence of notifications, for any informers, each started provisioner is for a Pod
  that was added, or moved to another node, in that sequence, that is scheduled on this node, and
  its rules are justified by answers of the API server.
\<close>

theorem serve_provisions_own_pods:
  "\<exists>r t. run_state (serve lib env node ctrl ns) h = (r, h @ t) \<and>
     {(rs, p). SpawnAddRules rs p \<in> set t} \<subseteq>
     {(rs, p). p \<in> set (concat (map arriving ns)) \<and> NodeName p = node \<and> justified lib p rs t}"
  using run_serve [of lib env node ctrl ns h] by (elim exE conjE) (intro exI conjI; auto)

text \<open>
  C5: The controller reacts to the arrival of Pods and to nothing else: whatever else it is notified
  of (policies created, changed or deleted, Pods updated in place, resynchronised or removed, Pods of other
  nodes), it behaves as if only the Pods of its node had arrived, one after the other; and it starts
  at most one provisioner per arrival, in the order of the arrivals. So the rules of a Pod are made
  once and are not adapted to later policies or peers.
\<close>

theorem provisioned_once_per_arrival:
  assumes "run_state (NewNetPolControl env0 e1 e2 e3) h0 = (Inr ctrl, h1)"
  shows "run_state (serve lib env node ctrl ns) h =
       run_state (serve lib env node ctrl (map PodAdded [p \<leftarrow> concat (map arriving ns). NodeName p = node])) h \<and>
     (\<exists>r t. run_state (serve lib env node ctrl ns) h = (r, h @ t) \<and>
        subseq (spawned_for t) [p \<leftarrow> concat (map arriving ns). NodeName p = node])"
  using serve_own_arrivals [of ctrl lib env node ns h] serve_spawned [of ctrl lib env node "own_arrivals node ns" h]
    NewNetPolControl_serving [OF assms]
  by (simp add: own_arrivals_def)

text \<open>
  The error of the third client is lost: when the client of the Pods cannot be made, the controller is
  returned all the same, and the informer of the Pods, from which all its work comes, has a nil pointer for
  its client.
\<close>

theorem kube_client_error_ignored:
  assumes "run_state (NewNetPolControl env e1 e2 None) h = (Inr ctrl, h')"
  shows "\<exists>ctrl' informer. run_state (NewNetPolControl env e1 e2 (Some err)) h = (Inr ctrl', h') \<and>
     PodController ctrl' = Some informer \<and> \<not> HasClient informer"
  using assms
  by (auto simp: NewNetPolControl_def createPodController_def split: option.splits prod.splits if_splits)

text \<open>
  Discovery: the controller is created exactly when one of at most five listings succeeds, and
  then has both informers; otherwise the error is returned after five refused listings.
\<close>

theorem discovery_complete:
  "(\<exists>es items ctrl. length es < 5 \<and>
      run_state (NewNetPolControl env None None kubeErr) h =
        (Inr ctrl, h @ refusals es @ [ListPolicies [] (Inr items)]) \<and>
      PolicyController ctrl \<noteq> None \<and> PodController ctrl \<noteq> None) \<or>
   (\<exists>es err. length es = 5 \<and>
      run_state (NewNetPolControl env None None kubeErr) h = (Inl err, h @ refusals es))"
  using run_discoverApi [of MaxRetryCount env "\<lparr>PolicyController = None, PodController = None\<rparr>" h]
  by (elim disjE exE conjE)
    (auto simp: NewNetPolControl_def createPolicyController_def createPodController_def MaxRetryCount_def)

section \<open>The properties at concrete inputs\<close>

text \<open>
  The example Pod, a policy that selects every Pod and whitelists the web endpoints, and an API
  server that answers with them.
\<close>

definition example_policies :: "danm_network_policy list" where
  "example_policies = [example_policy [example_peer [(''app'', ''web'')] []]]"

definition example_api :: pol_env where
  "example_api = \<lparr>list_policies = \<lambda>_ _. Inr example_policies, list_eps = \<lambda>_ _. Inr example_deps\<rparr>"

definition empty_api :: pol_env where
  "empty_api = \<lparr>list_policies = \<lambda>_ _. Inr example_policies, list_eps = \<lambda>_ _. Inr []\<rparr>"

lemma example_applicable:
  "FilterApplicablePolicies (NewPolicySet example_lib (Inr example_policies)) example_pod = example_policies"
  by code_simp

lemma example_run:
  assumes "FilterApplicablePolicies (NewPolicySet example_lib (Inr pols)) example_pod = pols"
    and "pols \<noteq> []"
    and "NewNetRuleSet example_lib pols (NewDanmEpSet (Inr example_deps) example_pod) = Inr rs"
  shows "run_state (AddPod example_lib (example_api\<lparr>list_policies := \<lambda>_ _. Inr pols\<rparr>) ''node'' example_pod) [] =
     (Inr (), [] @ [ListPolicies ''ns'' (Inr pols), ListDanmEps ''ns'' (Inr example_deps),
        SpawnAddRules rs example_pod])"
proof -
  have ns: "NodeName example_pod = ''node''" "Namespace (PodMeta example_pod) = ''ns''"
    by (simp_all add: example_pod_def)
  have eps: "PodEps (NewDanmEpSet (Inr example_deps) example_pod) \<noteq> []"
    by (simp add: PodEps_eq) (simp add: example_pod_def example_deps_def example_ep_def)
  show ?thesis
    using assms eps ns by (simp add: AddPod_def example_api_def MaxRetryCount_def numeral_eq_Suc Let_def)
qed

lemma example_AddPod:
  "run_state (AddPod example_lib example_api ''node'' example_pod) [] =
     (Inr (), [] @ [ListPolicies ''ns'' (Inr example_policies), ListDanmEps ''ns'' (Inr example_deps),
        SpawnAddRules example_rules example_pod])"
proof -
  have "example_api\<lparr>list_policies := \<lambda>_ _. Inr example_policies\<rparr> = example_api" "example_policies \<noteq> []"
    by (simp_all add: example_api_def example_policies_def)
  with example_run [OF example_applicable _ example_NewNetRuleSet [folded example_policies_def]]
  show ?thesis by simp
qed

lemma spawned_rules_justified_witness:
  "\<exists>pols deps. applicable example_lib (Inr pols) example_pod \<noteq> [] \<and>
     NewNetRuleSet example_lib (applicable example_lib (Inr pols) example_pod)
       (NewDanmEpSet (Inr deps) example_pod) = Inr example_rules"
  using spawned_rules_justified [OF example_AddPod, of example_rules example_pod] by auto

lemma provisioned_or_exhausted_witness:
  "\<exists>t. run_state (AddPod example_lib empty_api ''node'' example_pod) [] = (Inr (), [] @ t) \<and>
     ((\<exists>rs. SpawnAddRules rs example_pod \<in> set t) \<or> length (filter is_listing t) = 5)"
proof -
  let ?t = "ListPolicies ''ns'' (Inr example_policies) # attempts ''ns'' (replicate 5 (Inr []))"
  have ns: "NodeName example_pod = ''node''" "Namespace (PodMeta example_pod) = ''ns''"
    "UID (PodMeta example_pod) = ''a''"
    by (simp_all add: example_pod_def)
  have "run_state (AddPod example_lib empty_api ''node'' example_pod) [] = (Inr (), [] @ ?t)"
    by (simp add: AddPod_def example_applicable empty_api_def MaxRetryCount_def numeral_eq_Suc
        PodEps_eq Let_def ns) (simp add: example_policies_def)
  moreover have "applicable example_lib (Inr example_policies) example_pod \<noteq> []"
    by (simp add: applicable_def example_applicable) (simp add: example_policies_def)
  ultimately show ?thesis
    using provisioned_or_exhausted [of example_lib empty_api "''node''" example_pod "[]" "Inr ()" ?t
        example_policies] ns
    by (intro exI [of _ ?t]) auto
qed

lemma policy_listing_error_fails_open_witness:
  "run_state (AddPod example_lib (example_api\<lparr>list_policies := \<lambda>_ _. Inl ''forbidden''\<rparr>) ''node'' example_pod) [] =
     (Inr (), [] @ [ListPolicies (Namespace (PodMeta example_pod)) (Inl ''forbidden'')])"
  by (rule policy_listing_error_fails_open) (simp_all add: example_pod_def)

text \<open>A policy that is created after the Pod arrived, and an update of the Pod in place: one provisioner.\<close>

definition example_ctrl :: net_pol_control where
  "example_ctrl = createPodController None (createPolicyController \<lparr>PolicyController = None, PodController = None\<rparr>)"

lemma example_created:
  "run_state (NewNetPolControl example_api None None None) [] =
     (Inr example_ctrl, [ListPolicies [] (Inr example_policies)])"
  by (simp add: NewNetPolControl_def MaxRetryCount_def numeral_eq_Suc example_api_def example_ctrl_def createPolicyController_def)

lemma kube_client_error_ignored_witness:
  "\<exists>ctrl informer. run_state (NewNetPolControl example_api None None (Some ''bad config'')) [] =
       (Inr ctrl, [ListPolicies [] (Inr example_policies)]) \<and>
     PodController ctrl = Some informer \<and> \<not> HasClient informer"
  by (rule kube_client_error_ignored [OF example_created])

lemma provisioned_once_per_arrival_witness:
  "\<exists>r t. run_state (serve example_lib example_api ''node'' example_ctrl
       [PodAdded example_pod, PolAdded (example_policy []), PodUpdated example_pod example_pod, PodDeleted example_pod]) [] =
     (r, [] @ t) \<and> subseq (spawned_for t) [example_pod]"
proof -
  let ?ns = "[PodAdded example_pod, PolAdded (example_policy []), PodUpdated example_pod example_pod, PodDeleted example_pod]"
  have "[p \<leftarrow> concat (map arriving ?ns). NodeName p = ''node''] = [example_pod]"
    by (simp add: example_pod_def)
  from conjunct2 [OF provisioned_once_per_arrival [OF example_created, of example_lib example_api "''node''" ?ns "[]"], unfolded this]
  show ?thesis .
qed

end
