(* ===== verification/Iptables.thy ===== *)
theory Iptables
  imports Poltypes
begin

text \<open>
  \<open>pkg/provisioner/iptables\<close>: provisioning a rule set into the network namespace of a Pod.
  Every call to the iptables wrapper, to the netns library and to the Go scheduler is an event
  of the history; the answers of the calls whose error the code reads are parameters.
\<close>

section \<open>External calls\<close>

text \<open>The two clients of \<open>IptablesProvisioner\<close>: \<open>V4Provisioner\<close> and \<open>V6Provisioner\<close>.\<close>

datatype fam = V4 | V6

datatype netns = OrigNS | PodNS string

datatype ipt_event =
    LockOSThread
  | UnlockOSThread
  | GetCurrentNS
  | GetNS string
  | SetNS netns
  | CloseNS netns
  | EnsureChain fam string
  | FlushChain fam string
  | EnsureRule fam string "string list"

text \<open>The answers, as functions of the history; \<open>None\<close> is a nil error.\<close>

record ipt_env =
  getCurrentNS_err :: "ipt_event list \<Rightarrow> string option"
  getNS_err :: "ipt_event list \<Rightarrow> string \<Rightarrow> string option"
  setNS_err :: "ipt_event list \<Rightarrow> netns \<Rightarrow> string option"
  ensureChain_err :: "ipt_event list \<Rightarrow> fam \<Rightarrow> string \<Rightarrow> string option"
  ensureRule_err :: "ipt_event list \<Rightarrow> fam \<Rightarrow> string \<Rightarrow> string list \<Rightarrow> string option"

section \<open>Constant chains\<close>

text \<open>The built-in chains of the filter table.\<close>

definition ChainInput :: string where [const_defs]: "ChainInput = ''INPUT''"
definition ChainOutput :: string where [const_defs]: "ChainOutput = ''OUTPUT''"
definition ChainForward :: string where [const_defs]: "ChainForward = ''FORWARD''"

definition DefaultInputRules :: net_rule_chain where
  "DefaultInputRules = \<lparr>ChainName = ChainInput, Rules =
     [zero_rule\<lparr>SourceIface := ''lo'', Operation := IptablesAccept\<rparr>,
      zero_rule\<lparr>CtState := StateEstablishedRelated, Operation := IptablesAccept\<rparr>,
      zero_rule\<lparr>Operation := IptablesReject\<rparr>]\<rparr>"

definition DefaultOutputRules :: net_rule_chain where
  "DefaultOutputRules = \<lparr>ChainName = ChainOutput, Rules =
     [zero_rule\<lparr>DestIface := ''lo'', Operation := IptablesAccept\<rparr>,
      zero_rule\<lparr>CtState := StateEstablishedRelated, Operation := IptablesAccept\<rparr>,
      zero_rule\<lparr>RuleProtocol := ''tcp'', DestPort := ''53'', CtState := StateNewEstablished,
        Operation := IptablesAccept\<rparr>,
      zero_rule\<lparr>RuleProtocol := ''udp'', DestPort := ''53'', CtState := StateNewEstablished,
        Operation := IptablesAccept\<rparr>,
      zero_rule\<lparr>Operation := IptablesReject\<rparr>]\<rparr>"

definition DefaultForwardRules :: net_rule_chain where
  "DefaultForwardRules = \<lparr>ChainName = ChainForward, Rules =
     [zero_rule\<lparr>Operation := IptablesReject\<rparr>]\<rparr>"

definition JumpToV4IngressRule :: net_rule_chain where
  "JumpToV4IngressRule = \<lparr>ChainName = ChainInput, Rules =
     [zero_rule\<lparr>Operation := IngressV4ChainName\<rparr>]\<rparr>"

definition JumpToV4EgressRule :: net_rule_chain where
  "JumpToV4EgressRule = \<lparr>ChainName = ChainOutput, Rules =
     [zero_rule\<lparr>Operation := EgressV4ChainName\<rparr>]\<rparr>"

definition JumpToV6IngressRule :: net_rule_chain where
  "JumpToV6IngressRule = \<lparr>ChainName = ChainInput, Rules =
     [zero_rule\<lparr>Operation := IngressV6ChainName\<rparr>]\<rparr>"

definition JumpToV6EgressRule :: net_rule_chain where
  "JumpToV6EgressRule = \<lparr>ChainName = ChainOutput, Rules =
     [zero_rule\<lparr>Operation := EgressV6ChainName\<rparr>]\<rparr>"

definition DefaultReturnRule :: net_rule where
  "DefaultReturnRule = zero_rule\<lparr>Operation := IptablesReturn\<rparr>"

section \<open>Rules as arguments\<close>

definition createArgsFromRule :: "net_rule \<Rightarrow> string list" where
  "createArgsFromRule rule =
     (if RuleProtocol rule \<noteq> [] then [''-p'', RuleProtocol rule] else []) @
     (if SourcePort rule \<noteq> [] then [''--sport'', SourcePort rule] else []) @
     (if DestPort rule \<noteq> [] then [''--dport'', DestPort rule] else []) @
     (if SourceIface rule \<noteq> [] then [''-i'', SourceIface rule] else []) @
     (if DestIface rule \<noteq> [] then [''-o'', DestIface rule] else []) @
     (if SourceIp rule \<noteq> [] then [''-s'', SourceIp rule] else []) @
     (if DestIp rule \<noteq> [] then [''-d'', DestIp rule] else []) @
     (if CtState rule \<noteq> [] then [''-m'', ''conntrack'', ''--ctstate'', CtState rule] else []) @
     (if Operation rule \<noteq> [] then [''-j'', Operation rule] else [''-j'', IptablesAccept])"

section \<open>Provisioning\<close>

text \<open>A failed \<open>EnsureRule\<close> is logged and the loop goes on.\<close>

fun provisionRules :: "ipt_env \<Rightarrow> fam \<Rightarrow> string \<Rightarrow> net_rule list \<Rightarrow> (ipt_event, unit) io" where
  "provisionRules env f name [] = ret ()"
| "provisionRules env f name (rule # rules) = do {
     let args = createArgsFromRule rule;
     err \<leftarrow> perform (\<lambda>h. ensureRule_err env h f name args) (EnsureRule f name args);
     provisionRules env f name rules
   }"

definition provisionRulesIntoChain :: "ipt_env \<Rightarrow> fam \<Rightarrow> net_rule_chain \<Rightarrow> (ipt_event, unit) io" where
  "provisionRulesIntoChain env f rules = do {
     provisionRules env f (ChainName rules) (Rules rules);
     (if ChainName rules \<noteq> ChainInput \<and> ChainName rules \<noteq> ChainOutput \<and>
         ChainName rules \<noteq> ChainForward \<and> length (Rules rules) > 0
      then do {
        let args = createArgsFromRule DefaultReturnRule;
        err \<leftarrow> perform (\<lambda>h. ensureRule_err env h f (ChainName rules) args)
                 (EnsureRule f (ChainName rules) args);
        ret ()
      }
      else ret ())
   }"

definition ensureChain ::
  "ipt_env \<Rightarrow> fam \<Rightarrow> net_rule_chain \<Rightarrow> net_rule_chain \<Rightarrow> (ipt_event, string option) io" where
  "ensureChain env f chain jumpRule =
     (if length (Rules chain) > 0 then do {
        err \<leftarrow> perform (\<lambda>h. ensureChain_err env h f (ChainName chain)) (EnsureChain f (ChainName chain));
        emit (FlushChain f (ChainName chain));
        provisionRulesIntoChain env f jumpRule;
        ret err
      }
      else ret None)"

definition ensureChains :: "ipt_env \<Rightarrow> net_rule_set \<Rightarrow> (ipt_event, string option) io" where
  "ensureChains env ruleSet = do {
     err \<leftarrow> ensureChain env V4 (IngressV4Chain ruleSet) JumpToV4IngressRule;
     (if err \<noteq> None then ret err else do {
        err \<leftarrow> ensureChain env V6 (IngressV6Chain ruleSet) JumpToV6IngressRule;
        (if err \<noteq> None then ret err else do {
           err \<leftarrow> ensureChain env V4 (EgressV4Chain ruleSet) JumpToV4EgressRule;
           (if err \<noteq> None then ret err
            else ensureChain env V6 (EgressV6Chain ruleSet) JumpToV6EgressRule)
        })
     })
   }"

definition provisionDynamicRules :: "ipt_env \<Rightarrow> net_rule_set \<Rightarrow> (ipt_event, unit) io" where
  "provisionDynamicRules env ruleSet = do {
     provisionRulesIntoChain env V4 (IngressV4Chain ruleSet);
     provisionRulesIntoChain env V6 (IngressV6Chain ruleSet);
     provisionRulesIntoChain env V4 (EgressV4Chain ruleSet);
     provisionRulesIntoChain env V6 (EgressV6Chain ruleSet)
   }"

definition provisionDefaultRules :: "ipt_env \<Rightarrow> (ipt_event, unit) io" where
  "provisionDefaultRules env = do {
     provisionRulesIntoChain env V4 DefaultInputRules;
     provisionRulesIntoChain env V4 DefaultOutputRules;
     provisionRulesIntoChain env V4 DefaultForwardRules;
     provisionRulesIntoChain env V6 DefaultInputRules;
     provisionRulesIntoChain env V6 DefaultOutputRules;
     provisionRulesIntoChain env V6 DefaultForwardRules
   }"

text \<open>
  The two deferred calls run on every return after they were registered, the namespace
  restore (from its registration on) before the unlock.
\<close>

definition AddRulesToNewPod :: "ipt_env \<Rightarrow> net_rule_set \<Rightarrow> (ipt_event, unit) io" where
  "AddRulesToNewPod env ruleSet = do {
     emit LockOSThread;
     err \<leftarrow> perform (getCurrentNS_err env) GetCurrentNS;
     (if err \<noteq> None then emit UnlockOSThread else do {
        err \<leftarrow> perform (\<lambda>h. getNS_err env h (RuleNetns ruleSet)) (GetNS (RuleNetns ruleSet));
        (if err \<noteq> None then emit UnlockOSThread else do {
           err \<leftarrow> perform (\<lambda>h. setNS_err env h (PodNS (RuleNetns ruleSet))) (SetNS (PodNS (RuleNetns ruleSet)));
           (if err \<noteq> None then ret () else do {
              err \<leftarrow> ensureChains env ruleSet;
              (if err \<noteq> None then ret () else do {
                 provisionDynamicRules env ruleSet;
                 provisionDefaultRules env
              })
           });
           emit (CloseNS (PodNS (RuleNetns ruleSet)));
           emit (SetNS OrigNS);
           emit UnlockOSThread
        })
     })
   }"

section \<open>What is called, in order\<close>

text \<open>The argument lists sent for one chain: its rules, and for a chain of our own a RETURN.\<close>

definition custom_chain :: "string \<Rightarrow> bool" where
  "custom_chain name \<longleftrightarrow> name \<noteq> ChainInput \<and> name \<noteq> ChainOutput \<and> name \<noteq> ChainForward"

definition chain_args :: "net_rule_chain \<Rightarrow> string list list" where
  "chain_args chain = map createArgsFromRule (Rules chain) @
     (if custom_chain (ChainName chain) \<and> Rules chain \<noteq> []
      then [createArgsFromRule DefaultReturnRule] else [])"

definition chain_calls :: "fam \<Rightarrow> net_rule_chain \<Rightarrow> ipt_event list" where
  "chain_calls f chain = map (EnsureRule f (ChainName chain)) (chain_args chain)"

definition setup_calls :: "fam \<Rightarrow> net_rule_chain \<Rightarrow> net_rule_chain \<Rightarrow> ipt_event list" where
  "setup_calls f chain jump = (if Rules chain = [] then []
     else [EnsureChain f (ChainName chain), FlushChain f (ChainName chain)] @ chain_calls f jump)"

definition dynamic_calls :: "net_rule_set \<Rightarrow> ipt_event list" where
  "dynamic_calls rs = chain_calls V4 (IngressV4Chain rs) @ chain_calls V6 (IngressV6Chain rs) @
     chain_calls V4 (EgressV4Chain rs) @ chain_calls V6 (EgressV6Chain rs)"

definition default_calls :: "fam \<Rightarrow> ipt_event list" where
  "default_calls f = chain_calls f DefaultInputRules @ chain_calls f DefaultOutputRules @
     chain_calls f DefaultForwardRules"

definition all_setup_calls :: "net_rule_set \<Rightarrow> ipt_event list" where
  "all_setup_calls rs =
     setup_calls V4 (IngressV4Chain rs) JumpToV4IngressRule @
     setup_calls V6 (IngressV6Chain rs) JumpToV6IngressRule @
     setup_calls V4 (EgressV4Chain rs) JumpToV4EgressRule @
     setup_calls V6 (EgressV6Chain rs) JumpToV6EgressRule"

text \<open>The calls inside the Pod's namespace when every chain can be created.\<close>

definition table_calls :: "net_rule_set \<Rightarrow> ipt_event list" where
  "table_calls rs = all_setup_calls rs @ dynamic_calls rs @ default_calls V4 @ default_calls V6"

lemma run_provisionRules:
  "run_state (provisionRules env f name rules) h =
     ((), h @ map (\<lambda>r. EnsureRule f name (createArgsFromRule r)) rules)"
  by (induction rules arbitrary: h) (simp_all add: Let_def)

lemma run_provisionRulesIntoChain [run_defs]:
  "run_state (provisionRulesIntoChain env f chain) h = ((), h @ chain_calls f chain)"
  by (simp add: provisionRulesIntoChain_def run_provisionRules chain_calls_def chain_args_def
      custom_chain_def Let_def comp_def)

lemma run_ensureChain [run_defs]:
  "run_state (ensureChain env f chain jump) h =
     (if Rules chain = [] then None else ensureChain_err env h f (ChainName chain),
      h @ setup_calls f chain jump)"
  by (simp add: ensureChain_def run_provisionRulesIntoChain setup_calls_def)

lemma run_provisionDynamicRules [run_defs]:
  "run_state (provisionDynamicRules env rs) h = ((), h @ dynamic_calls rs)"
  by (simp add: provisionDynamicRules_def run_provisionRulesIntoChain dynamic_calls_def)

lemma run_provisionDefaultRules [run_defs]:
  "run_state (provisionDefaultRules env) h = ((), h @ default_calls V4 @ default_calls V6)"
  by (simp add: provisionDefaultRules_def run_provisionRulesIntoChain default_calls_def)

text \<open>Chain creation is all or a prefix of its calls, the last of them failed.\<close>

definition is_table_call :: "ipt_event \<Rightarrow> bool" where
  "is_table_call e \<longleftrightarrow> (case e of EnsureChain _ _ \<Rightarrow> True | FlushChain _ _ \<Rightarrow> True
     | EnsureRule _ _ _ \<Rightarrow> True | _ \<Rightarrow> False)"

lemma run_ensureChains:
  obtains err t where "run_state (ensureChains env rs) h = (err, h @ t)"
    and "\<exists>u. all_setup_calls rs = t @ u"
    and "err = None \<Longrightarrow> t = all_setup_calls rs"
proof -
  have "\<exists>err t. run_state (ensureChains env rs) h = (err, h @ t) \<and>
      (\<exists>u. all_setup_calls rs = t @ u) \<and> (err = None \<longrightarrow> t = all_setup_calls rs)"
    by (auto simp: ensureChains_def run_ensureChain all_setup_calls_def)
  then show ?thesis using that by blast
qed

lemma run_ensureChains_ok:
  assumes "\<And>h f c. ensureChain_err env h f c = None"
  shows "run_state (ensureChains env rs) h = (None, h @ all_setup_calls rs)"
  using assms by (simp add: ensureChains_def run_ensureChain all_setup_calls_def)

lemma table_calls_are_table_calls:
  "list_all is_table_call (chain_calls f chain)"
  "list_all is_table_call (setup_calls f chain jump)"
  "list_all is_table_call (dynamic_calls rs)"
  "list_all is_table_call (default_calls f)"
  "list_all is_table_call (all_setup_calls rs)"
  by (auto simp: list_all_iff chain_calls_def setup_calls_def dynamic_calls_def default_calls_def
      all_setup_calls_def is_table_call_def)

section \<open>Reading the arguments back\<close>

text \<open>
  The inverse of \<open>createArgsFromRule\<close>: each option sets its field; a list that does not follow
  the option grammar is refused.
\<close>

fun parse_args :: "string list \<Rightarrow> net_rule \<Rightarrow> net_rule option" where
  "parse_args [] r = Some r"
| "parse_args [opt] r = None"
| "parse_args (opt # v # rest) r =
     (if opt = ''-p'' then parse_args rest (r\<lparr>RuleProtocol := v\<rparr>)
      else if opt = ''--sport'' then parse_args rest (r\<lparr>SourcePort := v\<rparr>)
      else if opt = ''--dport'' then parse_args rest (r\<lparr>DestPort := v\<rparr>)
      else if opt = ''-i'' then parse_args rest (r\<lparr>SourceIface := v\<rparr>)
      else if opt = ''-o'' then parse_args rest (r\<lparr>DestIface := v\<rparr>)
      else if opt = ''-s'' then parse_args rest (r\<lparr>SourceIp := v\<rparr>)
      else if opt = ''-d'' then parse_args rest (r\<lparr>DestIp := v\<rparr>)
      else if opt = ''-m'' \<and> v = ''conntrack'' then parse_args rest r
      else if opt = ''--ctstate'' then parse_args rest (r\<lparr>CtState := v\<rparr>)
      else if opt = ''-j'' then parse_args rest (r\<lparr>Operation := v\<rparr>)
      else None)"

text \<open>A rule without an operation is sent, and means, ACCEPT.\<close>

definition with_operation :: "net_rule \<Rightarrow> net_rule" where
  "with_operation r = (if Operation r = [] then r\<lparr>Operation := IptablesAccept\<rparr> else r)"

lemma parse_args_createArgsFromRule:
  "parse_args (createArgsFromRule r) zero_rule = Some (with_operation r)"
  by (cases r) (simp add: createArgsFromRule_def zero_rule_def with_operation_def)

lemma createArgsFromRule_eq_iff:
  "createArgsFromRule r = createArgsFromRule r' \<longleftrightarrow> with_operation r = with_operation r'"
proof
  assume "createArgsFromRule r = createArgsFromRule r'"
  then show "with_operation r = with_operation r'"
    using parse_args_createArgsFromRule by (metis option.inject)
next
  assume "with_operation r = with_operation r'"
  moreover have "createArgsFromRule (with_operation r) = createArgsFromRule r" for r
    by (simp add: createArgsFromRule_def with_operation_def const_defs)
  ultimately show "createArgsFromRule r = createArgsFromRule r'" by metis
qed

section \<open>The thread and its namespace\<close>

text \<open>
  The discipline of a locked thread: table calls happen only inside the Pod's namespace,
  which is entered only by a locked thread, left before the thread is unlocked, and both are
  done by the end.
\<close>

datatype ns_mode = Free | Locked | InPod

fun ns_step :: "ns_mode \<Rightarrow> ipt_event \<Rightarrow> ns_mode option" where
  "ns_step Free LockOSThread = Some Locked"
| "ns_step Locked GetCurrentNS = Some Locked"
| "ns_step Locked (GetNS p) = Some Locked"
| "ns_step Locked (SetNS (PodNS p)) = Some InPod"
| "ns_step Locked UnlockOSThread = Some Free"
| "ns_step InPod (CloseNS ns) = Some InPod"
| "ns_step InPod (SetNS OrigNS) = Some Locked"
| "ns_step InPod e = (if is_table_call e then Some InPod else None)"
| "ns_step m e = None"

fun ns_run :: "ns_mode \<Rightarrow> ipt_event list \<Rightarrow> ns_mode option" where
  "ns_run m [] = Some m"
| "ns_run m (e # es) = (case ns_step m e of None \<Rightarrow> None | Some m' \<Rightarrow> ns_run m' es)"

lemma ns_run_append:
  "ns_run m (xs @ ys) = (case ns_run m xs of None \<Rightarrow> None | Some m' \<Rightarrow> ns_run m' ys)"
  by (induction xs arbitrary: m) (auto split: option.split)

lemma ns_run_table_calls: "list_all is_table_call es \<Longrightarrow> ns_run InPod es = Some InPod"
proof (induction es)
  case (Cons e es)
  then show ?case by (cases e) (auto simp: is_table_call_def)
qed simp

text \<open>
  What runs inside the Pod's namespace is a prefix of the calls of a successful run, and nothing
  when the namespace could not be entered.
\<close>

lemma run_AddRulesToNewPod:
  fixes rs :: net_rule_set
  defines "pod \<equiv> PodNS (RuleNetns rs)"
  obtains (no_current) "run_state (AddRulesToNewPod env rs) h =
      ((), h @ [LockOSThread, GetCurrentNS, UnlockOSThread])"
  | (no_netns) "getCurrentNS_err env (h @ [LockOSThread]) = None"
      "run_state (AddRulesToNewPod env rs) h =
        ((), h @ [LockOSThread, GetCurrentNS, GetNS (RuleNetns rs), UnlockOSThread])"
  | (inside) u v where "getCurrentNS_err env (h @ [LockOSThread]) = None" "table_calls rs = u @ v"
      "setNS_err env (h @ [LockOSThread, GetCurrentNS, GetNS (RuleNetns rs)]) pod \<noteq> None \<Longrightarrow> u = []"
      "run_state (AddRulesToNewPod env rs) h =
        ((), h @ [LockOSThread, GetCurrentNS, GetNS (RuleNetns rs), SetNS pod] @ u @
          [CloseNS pod, SetNS OrigNS, UnlockOSThread])"
proof -
  let ?pre = "[LockOSThread, GetCurrentNS, GetNS (RuleNetns rs), SetNS (PodNS (RuleNetns rs))]"
  let ?post = "[CloseNS (PodNS (RuleNetns rs)), SetNS OrigNS, UnlockOSThread]"
  obtain err w where w: "run_state (ensureChains env rs) (h @ ?pre) = (err, (h @ ?pre) @ w)"
      "\<exists>u. all_setup_calls rs = w @ u" "err = None \<Longrightarrow> w = all_setup_calls rs"
    using run_ensureChains [of env rs "h @ ?pre"] by metis
  note unfold = AddRulesToNewPod_def pod_def
  show ?thesis
  proof (cases "getCurrentNS_err env (h @ [LockOSThread])")
    case (Some e)
    then show ?thesis by (intro no_current) (simp add: unfold)
  next
    case current: None
    show ?thesis
    proof (cases "getNS_err env (h @ [LockOSThread, GetCurrentNS]) (RuleNetns rs)")
      case (Some e)
      with current show ?thesis by (intro no_netns) (simp_all add: unfold)
    next
      case netns: None
      show ?thesis
      proof (cases "setNS_err env (h @ [LockOSThread, GetCurrentNS, GetNS (RuleNetns rs)])
          (PodNS (RuleNetns rs))")
        case (Some e)
        with current netns show ?thesis by (intro inside [of "[]" "table_calls rs"]) (simp_all add: unfold)
      next
        case set: None
        show ?thesis
        proof (cases err)
          case None
          with current netns set w show ?thesis
            by (intro inside [of "table_calls rs" "[]"]) (simp_all add: unfold table_calls_def run_defs)
        next
          case (Some e)
          from w(2) obtain u where "table_calls rs = w @ u" by (auto simp: table_calls_def)
          with Some current netns set w(1) show ?thesis
            by (intro inside [of w u]) (simp_all add: unfold)
        qed
      qed
    qed
  qed
qed

section \<open>Properties\<close>

text \<open>
  Distinct rules are sent as distinct arguments: two rules give the same argument list
  exactly when they are the same rule, a missing operation standing for ACCEPT.
\<close>

theorem createArgsFromRule_injective:
  "createArgsFromRule r = createArgsFromRule r' \<longleftrightarrow> with_operation r = with_operation r'"
  by (rule createArgsFromRule_eq_iff)

text \<open>
  The thread discipline holds on every path: whatever the calls answer, table calls are made
  only by a locked thread inside the Pod's namespace, the original namespace is restored before
  the thread is unlocked, and the thread is unlocked at the end.
\<close>

theorem thread_discipline:
  "\<exists>t. run_state (AddRulesToNewPod env rs) h = ((), h @ t) \<and> ns_run Free t = Some Free"
proof -
  have calls: "ns_run InPod u = Some InPod" if "table_calls rs = u @ v" for u v
    using table_calls_are_table_calls that by (metis list_all_append ns_run_table_calls table_calls_def)
  show ?thesis
    by (rule run_AddRulesToNewPod [of env rs h]) (simp_all add: ns_run_append calls)
qed

text \<open>
  When the namespace is entered and every chain is created, the calls sent to the wrapper
  are those of \<open>table_calls\<close>, in that order, whatever becomes of single rules.
\<close>

theorem successful_run:
  assumes "\<And>h. getCurrentNS_err env h = None" and "\<And>h p. getNS_err env h p = None"
    and "\<And>h n. setNS_err env h n = None" and "\<And>h f c. ensureChain_err env h f c = None"
  shows "filter is_table_call (snd (run_state (AddRulesToNewPod env rs) [])) = table_calls rs"
proof -
  have "list_all is_table_call (table_calls rs)"
    by (simp add: table_calls_def table_calls_are_table_calls)
  then have "filter is_table_call (table_calls rs) = table_calls rs"
    by (simp add: list_all_iff filter_id_conv)
  moreover have "snd (run_state (AddRulesToNewPod env rs) []) =
      [LockOSThread, GetCurrentNS, GetNS (RuleNetns rs), SetNS (PodNS (RuleNetns rs))] @
      table_calls rs @ [CloseNS (PodNS (RuleNetns rs)), SetNS OrigNS, UnlockOSThread]"
    using assms(1-3) run_ensureChains_ok [OF assms(4), of rs]
    by (simp add: AddRulesToNewPod_def table_calls_def run_defs)
  ultimately show ?thesis by (simp add: is_table_call_def)
qed

text \<open>The calls of a run in which nothing fails.\<close>

definition calls_succeed :: "ipt_env \<Rightarrow> bool" where
  "calls_succeed env \<longleftrightarrow> (\<forall>h. getCurrentNS_err env h = None) \<and> (\<forall>h p. getNS_err env h p = None) \<and>
     (\<forall>h n. setNS_err env h n = None) \<and> (\<forall>h f c. ensureChain_err env h f c = None) \<and>
     (\<forall>h f c args. ensureRule_err env h f c args = None)"

lemma run_AddRulesToNewPod_calls:
  assumes "calls_succeed env"
  shows "filter is_table_call (snd (run_state (AddRulesToNewPod env rs) [])) = table_calls rs"
  using assms by (intro successful_run) (simp_all add: calls_succeed_def)

section \<open>When a chain cannot be created\<close>

text \<open>The chains of a rule set, each for the client that creates it, and the requests that jump to them.\<close>

definition own_chains :: "net_rule_set \<Rightarrow> (fam \<times> net_rule_chain) list" where
  "own_chains rs = [(V4, IngressV4Chain rs), (V6, IngressV6Chain rs), (V4, EgressV4Chain rs), (V6, EgressV6Chain rs)]"

definition jump_requests :: "ipt_event list" where
  "jump_requests =
     [EnsureRule V4 ChainInput [''-j'', IngressV4ChainName], EnsureRule V6 ChainInput [''-j'', IngressV6ChainName],
      EnsureRule V4 ChainOutput [''-j'', EgressV4ChainName], EnsureRule V6 ChainOutput [''-j'', EgressV6ChainName]]"

lemma setup_calls_jump:
  "EnsureRule f' c args \<in> set (setup_calls V4 chain JumpToV4IngressRule) \<Longrightarrow> EnsureRule f' c args \<in> set jump_requests"
  "EnsureRule f' c args \<in> set (setup_calls V6 chain JumpToV6IngressRule) \<Longrightarrow> EnsureRule f' c args \<in> set jump_requests"
  "EnsureRule f' c args \<in> set (setup_calls V4 chain JumpToV4EgressRule) \<Longrightarrow> EnsureRule f' c args \<in> set jump_requests"
  "EnsureRule f' c args \<in> set (setup_calls V6 chain JumpToV6EgressRule) \<Longrightarrow> EnsureRule f' c args \<in> set jump_requests"
  by (auto simp: setup_calls_def chain_calls_def chain_args_def custom_chain_def createArgsFromRule_def
      zero_rule_def jump_requests_def JumpToV4IngressRule_def JumpToV6IngressRule_def JumpToV4EgressRule_def
      JumpToV6EgressRule_def const_defs split: if_split_asm)

lemma run_ensureChains_failed:
  assumes "(f, chain) \<in> set (own_chains rs)" and "Rules chain \<noteq> []"
    and "\<And>h. ensureChain_err env h f (ChainName chain) \<noteq> None"
  obtains e t where "run_state (ensureChains env rs) h = (Some e, h @ t)"
    and "\<And>f c args. EnsureRule f c args \<in> set t \<Longrightarrow> EnsureRule f c args \<in> set jump_requests"
proof -
  obtain err t where run: "run_state (ensureChains env rs) h = (err, h @ t)" "\<exists>u. all_setup_calls rs = t @ u"
    by (rule run_ensureChains)
  have fails: "(ensureChain_err env h f (ChainName chain) = None) = False" for h using assms(3) by simp
  from assms(1) have "f = V4 \<and> chain = IngressV4Chain rs \<or> f = V6 \<and> chain = IngressV6Chain rs \<or>
      f = V4 \<and> chain = EgressV4Chain rs \<or> f = V6 \<and> chain = EgressV6Chain rs"
    by (auto simp: own_chains_def)
  then have "fst (run_state (ensureChains env rs) h) \<noteq> None"
    using assms(2) fails
    by (elim disjE conjE) (simp_all add: ensureChains_def run_ensureChain del: not_None_eq)
  with run(1) obtain e where "err = Some e" by auto
  moreover have "EnsureRule f c args \<in> set jump_requests" if "EnsureRule f c args \<in> set t" for f c args
  proof -
    from run(2) that have "EnsureRule f c args \<in> set (all_setup_calls rs)" by auto
    then show ?thesis unfolding all_setup_calls_def by (auto dest: setup_calls_jump)
  qed
  ultimately show ?thesis using run(1) that by blast
qed

text \<open>
  C40: The code fails open: when any of the four chains that have rules cannot be created, then whatever
  the other calls answer, the only rules the run requests are jumps to its own chains. It requests
  neither a rule of the rule set nor any of the default rules, the closing REJECT included, so a run on
  a new Pod restricts nothing.
\<close>

theorem chain_failure_fails_open:
  assumes "(f, chain) \<in> set (own_chains rs)" and "Rules chain \<noteq> []"
    and "\<And>h. ensureChain_err env h f (ChainName chain) \<noteq> None"
  shows "\<exists>t. run_state (AddRulesToNewPod env rs) h = ((), h @ t) \<and>
     (\<forall>f c args. EnsureRule f c args \<in> set t \<longrightarrow> EnsureRule f c args \<in> set jump_requests)"
proof -
  let ?pre = "[LockOSThread, GetCurrentNS, GetNS (RuleNetns rs), SetNS (PodNS (RuleNetns rs))]"
  obtain e t where "run_state (ensureChains env rs) (h @ ?pre) = (Some e, (h @ ?pre) @ t)"
    "\<And>f c args. EnsureRule f c args \<in> set t \<Longrightarrow> EnsureRule f c args \<in> set jump_requests"
    by (rule run_ensureChains_failed [where h = "h @ ?pre", OF assms]) blast
  then show ?thesis by (auto simp: AddRulesToNewPod_def)
qed

section \<open>The properties at concrete inputs\<close>

definition quiet_env :: ipt_env where
  "quiet_env = \<lparr>getCurrentNS_err = \<lambda>_. None, getNS_err = \<lambda>_ _. None, setNS_err = \<lambda>_ _. None,
     ensureChain_err = \<lambda>_ _ _. None, ensureRule_err = \<lambda>_ _ _ _. None\<rparr>"

definition one_rule_set :: net_rule_set where
  "one_rule_set = \<lparr>IngressV4Chain = \<lparr>ChainName = IngressV4ChainName,
       Rules = [zero_rule\<lparr>SourceIp := ''10.0.0.1''\<rparr>]\<rparr>,
     IngressV6Chain = \<lparr>ChainName = IngressV6ChainName, Rules = []\<rparr>,
     EgressV4Chain = \<lparr>ChainName = EgressV4ChainName, Rules = []\<rparr>,
     EgressV6Chain = \<lparr>ChainName = EgressV6ChainName, Rules = []\<rparr>, RuleNetns = ''ns''\<rparr>"

lemma successful_run_witness:
  "filter is_table_call (snd (run_state (AddRulesToNewPod quiet_env one_rule_set) [])) =
     table_calls one_rule_set"
  by (rule successful_run) (simp_all add: quiet_env_def)

lemma quiet_env_succeeds: "calls_succeed quiet_env"
  by (simp add: calls_succeed_def quiet_env_def)

text \<open>The egress chain cannot be created: the ingress chain is, and stays without entries.\<close>

definition both_rule_set :: net_rule_set where
  "both_rule_set = one_rule_set\<lparr>EgressV4Chain :=
     \<lparr>ChainName = EgressV4ChainName, Rules = [zero_rule\<lparr>DestIp := ''10.0.0.1''\<rparr>]\<rparr>\<rparr>"

definition no_egress_env :: ipt_env where
  "no_egress_env = quiet_env\<lparr>ensureChain_err := \<lambda>_ _ c. if c = EgressV4ChainName then Some ''denied'' else None\<rparr>"

lemma chain_failure_fails_open_witness:
  "\<exists>t. run_state (AddRulesToNewPod no_egress_env both_rule_set) [] = ((), [] @ t) \<and>
     (\<forall>f c args. EnsureRule f c args \<in> set t \<longrightarrow> EnsureRule f c args \<in> set jump_requests)"
  by (rule chain_failure_fails_open [where f = V4 and chain = "EgressV4Chain both_rule_set"])
    (simp_all add: own_chains_def both_rule_set_def no_egress_env_def)

end
