(* ===== verification/Netfilter.thy ===== *)
theory Netfilter
  imports Iptables
begin

text \<open>
  What the provisioner's calls do to the filter tables of a network namespace. The wrapper
  \<open>k8s.io/kubernetes/pkg/util/iptables\<close> is not part of the repository: \<open>filter_table\<close> states
  what its documentation promises of calls that succeed, over an abstract kernel state.
\<close>

section \<open>The contract of the iptables wrapper\<close>

type_synonym tables = "fam \<times> string \<rightharpoonup> string list list"

text \<open>
  The reference: the tables as a map. \<open>EnsureChain\<close> creates a missing chain, \<open>FlushChain\<close> empties
  one, \<open>EnsureRule\<close> appends a rule the chain does not hold.
\<close>

fun kernel_call :: "ipt_event \<Rightarrow> tables \<Rightarrow> tables" where
  "kernel_call (EnsureChain f c) k =
     k((f, c) \<mapsto> (case k (f, c) of None \<Rightarrow> [] | Some rs \<Rightarrow> rs))"
| "kernel_call (FlushChain f c) k =
     (case k (f, c) of None \<Rightarrow> k | Some rs \<Rightarrow> k((f, c) \<mapsto> []))"
| "kernel_call (EnsureRule f c args) k =
     (case k (f, c) of None \<Rightarrow> k
      | Some rs \<Rightarrow> k((f, c) \<mapsto> (if args \<in> set rs then rs else rs @ [args])))"
| "kernel_call _ k = k"

text \<open>
  The wrapper documents flushing and appending for existing chains only; a call sequence is
  defined on tables when it keeps to them.
\<close>

fun defined_calls :: "ipt_event list \<Rightarrow> tables \<Rightarrow> bool" where
  "defined_calls [] T = True"
| "defined_calls (e # es) T =
     ((case e of EnsureChain f c \<Rightarrow> True
       | FlushChain f c \<Rightarrow> T (f, c) \<noteq> None
       | EnsureRule f c args \<Rightarrow> T (f, c) \<noteq> None
       | _ \<Rightarrow> False) \<and> defined_calls es (kernel_call e T))"

locale filter_table =
  fixes apply_call :: "ipt_event \<Rightarrow> 'k \<Rightarrow> 'k"
    and rules_of :: "'k \<Rightarrow> tables"
  assumes ensure_chain_law: "rules_of (apply_call (EnsureChain f c) k) =
      (rules_of k)((f, c) \<mapsto> (case rules_of k (f, c) of None \<Rightarrow> [] | Some rs \<Rightarrow> rs))"
    and flush_chain_law: "rules_of k (f, c) = Some rs \<Longrightarrow>
      rules_of (apply_call (FlushChain f c) k) = (rules_of k)((f, c) \<mapsto> [])"
    and ensure_rule_law: "rules_of k (f, c) = Some rs \<Longrightarrow>
      rules_of (apply_call (EnsureRule f c args) k) =
        (rules_of k)((f, c) \<mapsto> (if args \<in> set rs then rs else rs @ [args]))"

begin

text \<open>Every implementation of the contract refines the reference on defined calls.\<close>

lemma refines_kernel_calls:
  "defined_calls es (rules_of k) \<Longrightarrow> rules_of (fold apply_call es k) = fold kernel_call es (rules_of k)"
proof (induction es arbitrary: k)
  case (Cons e es)
  from Cons.prems have "rules_of (apply_call e k) = kernel_call e (rules_of k)"
    by (auto simp: ensure_chain_law flush_chain_law ensure_rule_law split: ipt_event.splits)
  with Cons show ?case by simp
qed simp

end

interpretation kern: filter_table kernel_call id
  by unfold_locales simp_all

section \<open>One chain at a time\<close>

fun chain_step :: "fam \<Rightarrow> string \<Rightarrow> ipt_event \<Rightarrow> string list list option \<Rightarrow> string list list option" where
  "chain_step f c (EnsureChain f' c') s =
     (if f' = f \<and> c' = c then Some (case s of None \<Rightarrow> [] | Some rs \<Rightarrow> rs) else s)"
| "chain_step f c (FlushChain f' c') s = (if f' = f \<and> c' = c then map_option (\<lambda>_. []) s else s)"
| "chain_step f c (EnsureRule f' c' a) s =
     (if f' = f \<and> c' = c then map_option (\<lambda>rs. if a \<in> set rs then rs else rs @ [a]) s else s)"
| "chain_step f c _ s = s"

lemma kernel_call_pointwise: "kernel_call e T (f, c) = chain_step f c e (T (f, c))"
  by (cases e) (auto split: option.split)

lemma kernel_calls_pointwise:
  "fold kernel_call es T (f, c) = fold (chain_step f c) es (T (f, c))"
  by (induction es arbitrary: T) (simp_all add: kernel_call_pointwise)

text \<open>Appending what a chain does not hold yet.\<close>

definition ensured :: "string list list \<Rightarrow> string list list \<Rightarrow> string list list" where
  "ensured rs as = rs @ dedup (\<lambda>a. a) (set rs) as"

lemma ensured_ensured: "ensured (ensured rs as) bs = ensured rs (as @ bs)"
  by (simp add: ensured_def dedup_append Un_Diff_cancel keys_dedup [where key = "\<lambda>a. a", simplified])

lemma ensured_Nil_right [simp]: "ensured rs [] = rs"
  by (simp add: ensured_def)

lemma chain_step_rules:
  "fold (chain_step f c) (map (EnsureRule f' c') as) s =
     (if f' = f \<and> c' = c then map_option (\<lambda>rs. ensured rs as) s else s)"
proof (induction as arbitrary: s)
  case (Cons a as)
  then show ?case by (cases s) (auto simp: insert_absorb ensured_def)
qed (simp add: option.map_ident ensured_def)

lemma chain_step_chain_calls:
  "fold (chain_step f c) (chain_calls f' chain) s =
     (if f' = f \<and> ChainName chain = c
      then map_option (\<lambda>rs. ensured rs (chain_args chain)) s else s)"
  by (simp add: chain_calls_def chain_step_rules)

lemma chain_step_setup_calls:
  "fold (chain_step f c) (setup_calls f' chain jump) s =
     (if Rules chain = [] then s
      else fold (chain_step f c) (chain_calls f' jump)
             (if f' = f \<and> ChainName chain = c then Some [] else s))"
  by (auto simp: setup_calls_def split: option.split)

lemma dom_kernel_call: "dom T \<subseteq> dom (kernel_call e T)"
  by (cases e) (auto split: option.split)

lemma dom_kernel_calls: "x \<in> dom T \<Longrightarrow> x \<in> dom (fold kernel_call es T)"
proof (induction es arbitrary: T)
  case (Cons e es)
  from Cons.prems dom_kernel_call [of T e] have "x \<in> dom (kernel_call e T)" by blast
  from Cons.IH [OF this] show ?case by simp
qed simp

lemma defined_calls_append:
  "defined_calls (xs @ ys) T \<longleftrightarrow> defined_calls xs T \<and> defined_calls ys (fold kernel_call xs T)"
  by (induction xs arbitrary: T) auto

lemma defined_rules: "(f, c) \<in> dom T \<Longrightarrow> defined_calls (map (EnsureRule f c) as) T"
proof (induction as arbitrary: T)
  case (Cons a as)
  then have "(f, c) \<in> dom (kernel_call (EnsureRule f c a) T)"
    using dom_kernel_call by blast
  with Cons show ?case by (auto simp: domIff)
qed simp

lemma defined_chain_calls:
  assumes "Rules chain \<noteq> [] \<Longrightarrow> (f, ChainName chain) \<in> dom T"
  shows "defined_calls (chain_calls f chain) T"
proof (cases "Rules chain = []")
  case False
  with assms show ?thesis by (simp add: chain_calls_def defined_rules)
qed (simp add: chain_calls_def chain_args_def)

lemma defined_setup_calls:
  assumes "(f, ChainName jump) \<in> dom T"
  shows "defined_calls (setup_calls f chain jump) T"
proof (cases "Rules chain = []")
  case False
  let ?k1 = "kernel_call (EnsureChain f (ChainName chain)) T"
  let ?k2 = "kernel_call (FlushChain f (ChainName chain)) ?k1"
  have "(f, ChainName jump) \<in> dom ?k2" using assms dom_kernel_call by blast
  then have "defined_calls (chain_calls f jump) ?k2" by (rule defined_chain_calls)
  with False show ?thesis by (simp add: setup_calls_def)
qed (simp add: setup_calls_def)

lemma setup_makes_chain:
  assumes "Rules chain \<noteq> []"
  shows "(f, ChainName chain) \<in> dom (fold kernel_call (setup_calls f chain jump) T)"
proof -
  have "(f, ChainName chain) \<in> dom (kernel_call (EnsureChain f (ChainName chain)) T)" by simp
  from dom_kernel_calls [OF this, of "FlushChain f (ChainName chain) # chain_calls f jump"]
  show ?thesis using assms by (simp add: setup_calls_def)
qed

definition builtin_chains :: "tables \<Rightarrow> bool" where
  "builtin_chains T \<longleftrightarrow>
     {V4, V6} \<times> {ChainInput, ChainOutput, ChainForward} \<subseteq> dom T"

lemmas chain_defs = DefaultInputRules_def DefaultOutputRules_def DefaultForwardRules_def
  JumpToV4IngressRule_def JumpToV4EgressRule_def JumpToV6IngressRule_def JumpToV6EgressRule_def

lemma builtin_in_dom:
  assumes "builtin_chains T" and "c = ChainInput \<or> c = ChainOutput \<or> c = ChainForward"
  shows "(f, c) \<in> dom (fold kernel_call es T)"
  using assms by (cases f) (auto simp: builtin_chains_def intro!: dom_kernel_calls)

lemma defined_all_setup_calls:
  assumes "builtin_chains T"
  shows "defined_calls (all_setup_calls rs) T"
proof -
  let ?s1 = "setup_calls V4 (IngressV4Chain rs) JumpToV4IngressRule"
  let ?s2 = "setup_calls V6 (IngressV6Chain rs) JumpToV6IngressRule"
  let ?s3 = "setup_calls V4 (EgressV4Chain rs) JumpToV4EgressRule"
  have one: "defined_calls (setup_calls f chain jump) (fold kernel_call es T)"
    if "jump \<in> {JumpToV4IngressRule, JumpToV4EgressRule, JumpToV6IngressRule, JumpToV6EgressRule}"
    for f chain jump es
    using that assms by (intro defined_setup_calls builtin_in_dom) (auto simp: chain_defs)
  show ?thesis
    using one [of JumpToV4IngressRule V4 _ "[]"] one [of JumpToV6IngressRule V6 _ ?s1]
      one [of JumpToV4EgressRule V4 _ "?s1 @ ?s2"] one [of JumpToV6EgressRule V6 _ "?s1 @ ?s2 @ ?s3"]
    by (simp add: all_setup_calls_def defined_calls_append)
qed

lemma defined_dynamic_calls:
  "defined_calls (dynamic_calls rs) (fold kernel_call (all_setup_calls rs) T)"
proof -
  let ?s1 = "setup_calls V4 (IngressV4Chain rs) JumpToV4IngressRule"
  let ?s2 = "setup_calls V6 (IngressV6Chain rs) JumpToV6IngressRule"
  let ?s3 = "setup_calls V4 (EgressV4Chain rs) JumpToV4EgressRule"
  let ?s4 = "setup_calls V6 (EgressV6Chain rs) JumpToV6EgressRule"
  let ?c1 = "chain_calls V4 (IngressV4Chain rs)"
  let ?c2 = "chain_calls V6 (IngressV6Chain rs)"
  let ?c3 = "chain_calls V4 (EgressV4Chain rs)"
  have one: "defined_calls (chain_calls f chain)
      (fold kernel_call (xs @ setup_calls f chain jump @ ys) T)" for f chain jump xs ys
  proof (rule defined_chain_calls)
    assume "Rules chain \<noteq> []"
    from setup_makes_chain [OF this, of f jump "fold kernel_call xs T"]
    show "(f, ChainName chain) \<in> dom (fold kernel_call (xs @ setup_calls f chain jump @ ys) T)"
      by (simp add: dom_kernel_calls)
  qed
  show ?thesis
    using one [of V4 "IngressV4Chain rs" "[]" JumpToV4IngressRule "?s2 @ ?s3 @ ?s4"]
      one [of V6 "IngressV6Chain rs" ?s1 JumpToV6IngressRule "?s3 @ ?s4 @ ?c1"]
      one [of V4 "EgressV4Chain rs" "?s1 @ ?s2" JumpToV4EgressRule "?s4 @ ?c1 @ ?c2"]
      one [of V6 "EgressV6Chain rs" "?s1 @ ?s2 @ ?s3" JumpToV6EgressRule "?c1 @ ?c2 @ ?c3"]
    by (simp add: dynamic_calls_def all_setup_calls_def defined_calls_append)
qed

lemma defined_default_calls:
  assumes "builtin_chains T"
  shows "defined_calls (default_calls f) (fold kernel_call es T)"
proof -
  have one: "defined_calls (chain_calls f chain) (fold kernel_call es T)"
    if "chain \<in> {DefaultInputRules, DefaultOutputRules, DefaultForwardRules}" for chain es
    using that assms by (intro defined_chain_calls builtin_in_dom) (auto simp: chain_defs)
  show ?thesis
    using one [of DefaultInputRules es] one [of DefaultOutputRules "es @ chain_calls f DefaultInputRules"]
      one [of DefaultForwardRules "es @ chain_calls f DefaultInputRules @ chain_calls f DefaultOutputRules"]
    by (simp add: default_calls_def defined_calls_append)
qed

lemma defined_table_calls:
  assumes "builtin_chains T"
  shows "defined_calls (table_calls rs) T"
  using defined_all_setup_calls [OF assms, of rs] defined_dynamic_calls [of rs T]
    defined_default_calls [OF assms, of V4 "all_setup_calls rs @ dynamic_calls rs"]
    defined_default_calls [OF assms, of V6 "all_setup_calls rs @ dynamic_calls rs @ default_calls V4"]
  by (simp add: table_calls_def defined_calls_append)

section \<open>The tables after a successful provisioning\<close>

fun ingress_chain :: "fam \<Rightarrow> net_rule_set \<Rightarrow> net_rule_chain" where
  "ingress_chain V4 rs = IngressV4Chain rs"
| "ingress_chain V6 rs = IngressV6Chain rs"

fun egress_chain :: "fam \<Rightarrow> net_rule_set \<Rightarrow> net_rule_chain" where
  "egress_chain V4 rs = EgressV4Chain rs"
| "egress_chain V6 rs = EgressV6Chain rs"

fun ingress_name :: "fam \<Rightarrow> string" where
  "ingress_name V4 = IngressV4ChainName"
| "ingress_name V6 = IngressV6ChainName"

fun egress_name :: "fam \<Rightarrow> string" where
  "egress_name V4 = EgressV4ChainName"
| "egress_name V6 = EgressV6ChainName"

definition well_named :: "net_rule_set \<Rightarrow> bool" where
  "well_named rs \<longleftrightarrow>
     ChainName (IngressV4Chain rs) = IngressV4ChainName \<and>
     ChainName (IngressV6Chain rs) = IngressV6ChainName \<and>
     ChainName (EgressV4Chain rs) = EgressV4ChainName \<and>
     ChainName (EgressV6Chain rs) = EgressV6ChainName"

abbreviation jump_args :: "string \<Rightarrow> string list" where
  "jump_args name \<equiv> [''-j'', name]"

fun ingress_jump :: "fam \<Rightarrow> net_rule_chain" where
  "ingress_jump V4 = JumpToV4IngressRule"
| "ingress_jump V6 = JumpToV6IngressRule"

fun egress_jump :: "fam \<Rightarrow> net_rule_chain" where
  "egress_jump V4 = JumpToV4EgressRule"
| "egress_jump V6 = JumpToV6EgressRule"

lemma jump_chains [simp]:
  "ChainName (ingress_jump f) = ChainInput"
  "chain_args (ingress_jump f) = [jump_args (ingress_name f)]"
  "ChainName (egress_jump f) = ChainOutput"
  "chain_args (egress_jump f) = [jump_args (egress_name f)]"
  by (cases f; simp add: chain_args_def chain_defs custom_chain_def createArgsFromRule_def
      zero_rule_def const_defs)+

lemma chain_names [simp]:
  "ChainName DefaultInputRules = ChainInput"
  "ChainName DefaultOutputRules = ChainOutput"
  "ChainName DefaultForwardRules = ChainForward"
  "well_named rs \<Longrightarrow> ChainName (ingress_chain f rs) = ingress_name f"
  "well_named rs \<Longrightarrow> ChainName (egress_chain f rs) = egress_name f"
  by (cases f; simp add: chain_defs well_named_def)+

lemma names_differ [simp]:
  "ChainInput \<noteq> ChainOutput" "ChainInput \<noteq> ChainForward" "ChainOutput \<noteq> ChainForward"
  "ChainOutput \<noteq> ChainInput" "ChainForward \<noteq> ChainInput" "ChainForward \<noteq> ChainOutput"
  "ingress_name f \<noteq> ChainInput" "ingress_name f \<noteq> ChainOutput" "ingress_name f \<noteq> ChainForward"
  "egress_name f \<noteq> ChainInput" "egress_name f \<noteq> ChainOutput" "egress_name f \<noteq> ChainForward"
  "ChainInput \<noteq> ingress_name f" "ChainOutput \<noteq> ingress_name f" "ChainForward \<noteq> ingress_name f"
  "ChainInput \<noteq> egress_name f" "ChainOutput \<noteq> egress_name f" "ChainForward \<noteq> egress_name f"
  "ingress_name f \<noteq> egress_name f'" "egress_name f' \<noteq> ingress_name f"
  by (cases f; cases f'; simp add: const_defs)+

lemma table_calls_steps:
  "fold (chain_step f c) (table_calls rs) s =
     fold (chain_step f c) (default_calls f)
       (fold (chain_step f c) (chain_calls f (egress_chain f rs))
         (fold (chain_step f c) (chain_calls f (ingress_chain f rs))
           (fold (chain_step f c) (setup_calls f (egress_chain f rs) (egress_jump f))
             (fold (chain_step f c) (setup_calls f (ingress_chain f rs) (ingress_jump f)) s))))"
  by (cases f) (simp_all add: table_calls_def all_setup_calls_def dynamic_calls_def
      default_calls_def chain_step_chain_calls chain_step_setup_calls)

lemmas after_simps = table_calls_steps chain_step_chain_calls chain_step_setup_calls
  default_calls_def ensured_ensured

lemma input_after:
  assumes "well_named rs"
  shows "fold (chain_step f ChainInput) (table_calls rs) (Some r0) = Some (ensured r0
     ((if Rules (ingress_chain f rs) = [] then [] else [jump_args (ingress_name f)]) @
      chain_args DefaultInputRules))"
  using assms by (simp add: after_simps)

lemma output_after:
  assumes "well_named rs"
  shows "fold (chain_step f ChainOutput) (table_calls rs) (Some r0) = Some (ensured r0
     ((if Rules (egress_chain f rs) = [] then [] else [jump_args (egress_name f)]) @
      chain_args DefaultOutputRules))"
  using assms by (simp add: after_simps)

lemma forward_after:
  assumes "well_named rs"
  shows "fold (chain_step f ChainForward) (table_calls rs) (Some r0) =
     Some (ensured r0 (chain_args DefaultForwardRules))"
  using assms by (simp add: after_simps)

lemma ingress_after:
  assumes "well_named rs"
  shows "fold (chain_step f (ingress_name f)) (table_calls rs) s =
     (if Rules (ingress_chain f rs) = [] then s
      else Some (ensured [] (chain_args (ingress_chain f rs))))"
  using assms by (simp add: after_simps chain_args_def option.map_ident)

lemma egress_after:
  assumes "well_named rs"
  shows "fold (chain_step f (egress_name f)) (table_calls rs) s =
     (if Rules (egress_chain f rs) = [] then s
      else Some (ensured [] (chain_args (egress_chain f rs))))"
  using assms by (simp add: after_simps chain_args_def option.map_ident)

section \<open>Reading a chain after a call sequence\<close>

text \<open>The namespace of a new Pod: every built-in chain is there and empty.\<close>

definition fresh :: "tables \<Rightarrow> bool" where
  "fresh T \<longleftrightarrow> (\<forall>f. T (f, ChainInput) = Some [] \<and> T (f, ChainOutput) = Some [] \<and>
     T (f, ChainForward) = Some [])"

lemma fresh_builtin: "fresh T \<Longrightarrow> builtin_chains T"
  by (auto simp: fresh_def builtin_chains_def domIff)

text \<open>For any implementation of the contract.\<close>

lemma chain_after:
  assumes "filter_table apply_call rules_of" and "defined_calls es (rules_of k)"
  shows "rules_of (fold apply_call es k) (f, c) = fold (chain_step f c) es (rules_of k (f, c))"
  by (simp add: filter_table.refines_kernel_calls [OF assms] kernel_calls_pointwise)

section \<open>One run after the other\<close>

text \<open>The kernel state that a run of the provisioner leaves, and the tables in it.\<close>

definition after_run :: "(ipt_event \<Rightarrow> 'k \<Rightarrow> 'k) \<Rightarrow> ipt_env \<Rightarrow> net_rule_set \<Rightarrow> 'k \<Rightarrow> 'k" where
  "after_run apply_call env rs k =
     fold apply_call (filter is_table_call (snd (run_state (AddRulesToNewPod env rs) []))) k"

definition provisioned ::
  "(ipt_event \<Rightarrow> 'k \<Rightarrow> 'k) \<Rightarrow> ('k \<Rightarrow> tables) \<Rightarrow> ipt_env \<Rightarrow> net_rule_set \<Rightarrow> 'k \<Rightarrow> tables" where
  "provisioned apply_call rules_of env rs k = rules_of (after_run apply_call env rs k)"

lemma after_run_kernel:
  assumes "calls_succeed env" and "filter_table apply_call rules_of" and "builtin_chains (rules_of k)"
  shows "rules_of (after_run apply_call env rs k) = fold kernel_call (table_calls rs) (rules_of k)"
  by (simp add: after_run_def run_AddRulesToNewPod_calls [OF assms(1)]
      filter_table.refines_kernel_calls [OF assms(2) defined_table_calls [OF assms(3)]])

lemma after_run_chain:
  assumes "calls_succeed env" and "filter_table apply_call rules_of" and "builtin_chains (rules_of k)"
  shows "rules_of (after_run apply_call env rs k) (f, c) =
    fold (chain_step f c) (table_calls rs) (rules_of k (f, c))"
  by (simp add: after_run_kernel [OF assms] kernel_calls_pointwise)

lemma after_run_builtin:
  assumes "calls_succeed env" and "filter_table apply_call rules_of" and "builtin_chains (rules_of k)"
  shows "builtin_chains (rules_of (after_run apply_call env rs k))"
proof -
  have "dom (rules_of k) \<subseteq> dom (fold kernel_call (table_calls rs) (rules_of k))"
    using dom_kernel_calls by blast
  with assms(3) show ?thesis unfolding after_run_kernel [OF assms] builtin_chains_def by blast
qed

lemma table_calls_other:
  assumes "well_named rs" and "c \<noteq> ChainInput" "c \<noteq> ChainOutput" "c \<noteq> ChainForward"
    and "c \<noteq> ingress_name f" "c \<noteq> egress_name f"
  shows "fold (chain_step f c) (table_calls rs) s = s"
  using assms by (simp add: after_simps)

lemma ensured_subset: "set as \<subseteq> set rs \<Longrightarrow> ensured rs as = rs"
proof -
  have "dedup (\<lambda>a. a) S xs = []" if "set xs \<subseteq> S" for S and xs :: "string list list"
    using that by (induction xs) auto
  then show "set as \<subseteq> set rs \<Longrightarrow> ensured rs as = rs" by (simp add: ensured_def)
qed

lemma ensured_again: "ensured (ensured rs as) as = ensured rs as"
  using keys_dedup [of "\<lambda>a. a" "set rs" as]
  by (intro ensured_subset) (auto simp: ensured_def)

lemma table_calls_idempotent:
  assumes "well_named rs" and "builtin_chains T"
  shows "fold kernel_call (table_calls rs) (fold kernel_call (table_calls rs) T) =
     fold kernel_call (table_calls rs) T"
proof
  fix x :: "fam \<times> string"
  obtain f c where x: "x = (f, c)" by fastforce
  let ?step = "fold (chain_step f c) (table_calls rs)"
  have "?step (?step (T (f, c))) = ?step (T (f, c))"
  proof (cases "c = ChainInput \<or> c = ChainOutput \<or> c = ChainForward")
    case True
    then have "(f, c) \<in> dom T"
      using builtin_in_dom [OF assms(2), of c f "[]"] by simp
    then obtain r0 where "T (f, c) = Some r0" by blast
    with True assms(1) show ?thesis
      by (elim disjE) (simp_all only: input_after output_after forward_after ensured_again)
  next
    case False
    show ?thesis
    proof (cases "c = ingress_name f \<or> c = egress_name f")
      case True
      with assms(1) show ?thesis
        by (elim disjE) (simp_all add: ingress_after egress_after)
    next
      case other: False
      with False assms(1) show ?thesis by (simp add: table_calls_other)
    qed
  qed
  then show "fold kernel_call (table_calls rs) (fold kernel_call (table_calls rs) T) x =
      fold kernel_call (table_calls rs) T x"
    by (simp add: x kernel_calls_pointwise)
qed

end
