(* ===== verification/Isolation.thy ===== *)
theory Isolation
  imports Netfilter
begin

text \<open>
  What the provisioned tables do to packets: chain traversal as in iptables(8) over an
  arbitrary packet matcher, the verdict of the provisioned base chains, and the properties of
  one and of two provisioning runs.
\<close>

section \<open>Chain traversal\<close>

datatype verdict = Accepted | Rejected | NoVerdict

text \<open>An argument list ends with \<open>-j\<close> and the target; what is before it is the match.\<close>

definition match_part :: "string list \<Rightarrow> string list" where
  "match_part args = take (length args - 2) args"

definition target :: "string list \<Rightarrow> string" where
  "target args = last args"

text \<open>
  Rules are tried in order; a jump that comes back without a verdict goes on behind the jump.
  The bound is the number of nested jumps allowed; the tables of this program need one.
\<close>

fun traverse :: "(string \<rightharpoonup> string list list) \<Rightarrow> (string list \<Rightarrow> bool) \<Rightarrow> nat \<Rightarrow>
    string list list \<Rightarrow> verdict" where
  "traverse T m n [] = NoVerdict"
| "traverse T m n (args # rules) =
     (if \<not> m (match_part args) then traverse T m n rules
      else if target args = IptablesAccept then Accepted
      else if target args = IptablesReject then Rejected
      else if target args = IptablesReturn then NoVerdict
      else (case n of
              0 \<Rightarrow> traverse T m n rules
            | Suc n' \<Rightarrow>
                (case T (target args) of
                   None \<Rightarrow> traverse T m n rules
                 | Some rs \<Rightarrow>
                     (case traverse T m n' rs of
                        NoVerdict \<Rightarrow> traverse T m n rules
                      | v \<Rightarrow> v))))"

text \<open>A packet that leaves a built-in chain without a verdict meets its policy, ACCEPT.\<close>

definition accepts :: "tables \<Rightarrow> fam \<Rightarrow> string \<Rightarrow> (string list \<Rightarrow> bool) \<Rightarrow> bool" where
  "accepts k f c m \<longleftrightarrow>
     (case k (f, c) of None \<Rightarrow> True
      | Some rs \<Rightarrow> traverse (\<lambda>c'. k (f, c')) m 1 rs \<noteq> Rejected)"

section \<open>Reading the default rules\<close>

abbreviation established :: "string list" where
  "established \<equiv> [''-m'', ''conntrack'', ''--ctstate'', StateEstablishedRelated]"

abbreviation dns :: "string \<Rightarrow> string list" where
  "dns proto \<equiv> [''-p'', proto, ''--dport'', ''53'', ''-m'', ''conntrack'', ''--ctstate'',
     StateNewEstablished]"

abbreviation accept_args :: "string list \<Rightarrow> string list" where
  "accept_args mt \<equiv> mt @ [''-j'', IptablesAccept]"

abbreviation reject_args :: "string list" where
  "reject_args \<equiv> [''-j'', IptablesReject]"

lemma chain_args_default:
  "chain_args DefaultInputRules =
     [accept_args [''-i'', ''lo''], accept_args established, reject_args]"
  "chain_args DefaultOutputRules =
     [accept_args [''-o'', ''lo''], accept_args established, accept_args (dns ''tcp''),
      accept_args (dns ''udp''), reject_args]"
  "chain_args DefaultForwardRules = [reject_args]"
  by (simp_all add: chain_args_def chain_defs custom_chain_def createArgsFromRule_def
      zero_rule_def const_defs)

lemma match_target_simps [simp]:
  "match_part (mt @ [''-j'', t]) = mt" "target (mt @ [''-j'', t]) = t"
  "match_part [''-j'', t] = []" "target [''-j'', t] = t"
  by (simp_all add: match_part_def target_def)

text \<open>A rule's own match: its arguments without the operation.\<close>

definition rule_match :: "net_rule \<Rightarrow> string list" where
  "rule_match r = match_part (createArgsFromRule r)"

lemma createArgsFromRule_whitelist:
  assumes "Operation r = []"
  shows "createArgsFromRule r = accept_args (rule_match r)"
proof -
  have "\<exists>mt. createArgsFromRule r = accept_args mt"
    using assms by (simp add: createArgsFromRule_def)
  then obtain mt where mt: "createArgsFromRule r = accept_args mt" ..
  then have "rule_match r = mt" by (simp only: rule_match_def match_target_simps)
  with mt show ?thesis by simp
qed

lemma accept_reject_simps [simp]:
  "IptablesReject \<noteq> IptablesAccept" "IptablesReturn \<noteq> IptablesAccept"
  "IptablesReturn \<noteq> IptablesReject"
  by (simp_all add: const_defs)

lemma jump_no_verdict [simp]:
  "ingress_name f \<noteq> IptablesAccept" "ingress_name f \<noteq> IptablesReject"
  "ingress_name f \<noteq> IptablesReturn"
  "egress_name f \<noteq> IptablesAccept" "egress_name f \<noteq> IptablesReject"
  "egress_name f \<noteq> IptablesReturn"
  by (cases f; simp add: const_defs)+

text \<open>A chain of accepting rules behind which RETURN stands.\<close>

lemma traverse_accepts:
  "traverse T m n (map accept_args mts @ rest) =
     (if list_ex m mts then Accepted else traverse T m n rest)"
  by (induction mts) simp_all

definition whitelisting :: "net_rule_chain \<Rightarrow> bool" where
  "whitelisting chain \<longleftrightarrow> list_all (\<lambda>r. Operation r = []) (Rules chain)"

lemma chain_args_whitelisting:
  assumes "whitelisting chain" and "custom_chain (ChainName chain)" and "Rules chain \<noteq> []"
  shows "chain_args chain =
     map accept_args (map rule_match (Rules chain)) @ [[''-j'', IptablesReturn]]"
proof -
  have "map createArgsFromRule rs = map accept_args (map rule_match rs)"
    if "list_all (\<lambda>r. Operation r = []) rs" for rs
    using that by (induction rs) (simp_all add: createArgsFromRule_whitelist)
  moreover have "createArgsFromRule DefaultReturnRule = [''-j'', IptablesReturn]"
    by (simp add: createArgsFromRule_def DefaultReturnRule_def zero_rule_def const_defs)
  ultimately show ?thesis
    using assms by (simp add: chain_args_def whitelisting_def)
qed

lemma ensured_accepts:
  "\<exists>mts'. ensured [] (map accept_args mts @ [[''-j'', IptablesReturn]]) =
     map accept_args mts' @ [[''-j'', IptablesReturn]] \<and> set mts' = set mts"
proof -
  have "dedup (\<lambda>a. a) S (map accept_args mts) =
      map accept_args (dedup accept_args S mts)" for S
    by (induction mts arbitrary: S) simp_all
  moreover have "set (dedup accept_args {} mts) = set mts"
    by (rule set_dedup_inj) (simp add: inj_on_def)
  moreover have "[''-j'', IptablesReturn] \<notin> accept_args ` set mts"
    by (auto simp: const_defs append_eq_Cons_conv)
  ultimately show ?thesis
    by (intro exI [of _ "dedup accept_args {} mts"]) (simp add: ensured_def dedup_append)
qed

text \<open>The verdict of a provisioned chain: ACCEPT when one of its rules matches.\<close>

lemma traverse_chain:
  assumes "whitelisting chain" and "custom_chain (ChainName chain)" and "Rules chain \<noteq> []"
    and "m []"
  shows "traverse T m n (ensured [] (chain_args chain)) =
     (if list_ex (\<lambda>r. m (rule_match r)) (Rules chain) then Accepted else NoVerdict)"
proof -
  obtain mts where mts: "ensured [] (chain_args chain) =
      map accept_args mts @ [[''-j'', IptablesReturn]]" "set mts = rule_match ` set (Rules chain)"
    using ensured_accepts [of "map rule_match (Rules chain)"]
    by (auto simp: chain_args_whitelisting [OF assms(1-3)])
  have "list_ex m mts \<longleftrightarrow> list_ex (\<lambda>r. m (rule_match r)) (Rules chain)"
    using mts(2) by (auto simp: list_ex_iff)
  with assms(4) show ?thesis by (simp add: mts(1) traverse_accepts)
qed

section \<open>What a provisioned Pod accepts\<close>

lemma ensured_distinct: "distinct as \<Longrightarrow> ensured [] as = as"
  by (simp add: ensured_def dedup_filter_id)

lemma distinct_base_chains [simp]:
  "distinct (chain_args DefaultInputRules)"
  "distinct (chain_args DefaultOutputRules)"
  "jump_args (ingress_name f) \<notin> set (chain_args DefaultInputRules)"
  "jump_args (egress_name f) \<notin> set (chain_args DefaultOutputRules)"
  by (cases f; simp add: chain_args_default const_defs)+

lemma custom_names [simp]: "custom_chain (ingress_name f)" "custom_chain (egress_name f)"
  by (simp_all add: custom_chain_def)

lemma traverse_base:
  assumes "m []"
  shows "traverse T m n (chain_args DefaultInputRules) =
      (if m [''-i'', ''lo''] \<or> m established then Accepted else Rejected)"
    and "traverse T m n (chain_args DefaultOutputRules) =
      (if m [''-o'', ''lo''] \<or> m established \<or> m (dns ''tcp'') \<or> m (dns ''udp'')
       then Accepted else Rejected)"
proof -
  have accept: "traverse T m n (accept_args mt # rest) =
      (if m mt then Accepted else traverse T m n rest)" for mt rest
    by (simp del: append.simps)
  show "traverse T m n (chain_args DefaultInputRules) =
      (if m [''-i'', ''lo''] \<or> m established then Accepted else Rejected)"
    using assms by (simp only: chain_args_default accept) simp
  show "traverse T m n (chain_args DefaultOutputRules) =
      (if m [''-o'', ''lo''] \<or> m established \<or> m (dns ''tcp'') \<or> m (dns ''udp'')
       then Accepted else Rejected)"
    using assms by (simp only: chain_args_default accept) simp
qed

lemma traverse_jump:
  assumes "m []" and "name \<noteq> IptablesAccept" "name \<noteq> IptablesReject" "name \<noteq> IptablesReturn"
    and "T name = Some rs"
  shows "traverse T m (Suc n) (jump_args name # rest) =
     (case traverse T m n rs of NoVerdict \<Rightarrow> traverse T m (Suc n) rest | v \<Rightarrow> v)"
  using assms by simp

text \<open>The verdict of a base chain that first jumps to a whitelisting chain.\<close>

lemma traverse_protected:
  assumes "m []" and "name \<noteq> IptablesAccept" "name \<noteq> IptablesReject" "name \<noteq> IptablesReturn"
    and "T name = Some (ensured [] (chain_args chain))"
    and "whitelisting chain" and "custom_chain (ChainName chain)" and "Rules chain \<noteq> []"
  shows "traverse T m (Suc n) (jump_args name # rest) =
     (if list_ex (\<lambda>r. m (rule_match r)) (Rules chain) then Accepted else traverse T m (Suc n) rest)"
  using traverse_jump [of m name T, OF assms(1-5)] traverse_chain [of chain m T n, OF assms(6-8,1)]
  by simp

lemma ingress_accepts:
  assumes "m []" and "whitelisting chain" and "ChainName chain = ingress_name f"
    and "T (f, ChainInput) = Some ((if Rules chain = [] then [] else [jump_args (ingress_name f)]) @
      chain_args DefaultInputRules)"
    and "Rules chain \<noteq> [] \<Longrightarrow> T (f, ingress_name f) = Some (ensured [] (chain_args chain))"
  shows "accepts T f ChainInput m \<longleftrightarrow> m [''-i'', ''lo''] \<or> m established \<or>
     list_ex (\<lambda>r. m (rule_match r)) (Rules chain)"
proof (cases "Rules chain = []")
  case True
  with assms(4) show ?thesis
    by (simp add: accepts_def traverse_base(1) [of m, OF assms(1)])
next
  case False
  with assms(4) show ?thesis
    by (simp add: accepts_def assms(2,3,5) traverse_base(1) [of m, OF assms(1)]
        traverse_protected [of m _ _ chain, OF assms(1)] del: traverse.simps)
qed

lemma egress_accepts:
  assumes "m []" and "whitelisting chain" and "ChainName chain = egress_name f"
    and "T (f, ChainOutput) = Some ((if Rules chain = [] then [] else [jump_args (egress_name f)]) @
      chain_args DefaultOutputRules)"
    and "Rules chain \<noteq> [] \<Longrightarrow> T (f, egress_name f) = Some (ensured [] (chain_args chain))"
  shows "accepts T f ChainOutput m \<longleftrightarrow> m [''-o'', ''lo''] \<or> m established \<or>
     m (dns ''tcp'') \<or> m (dns ''udp'') \<or> list_ex (\<lambda>r. m (rule_match r)) (Rules chain)"
proof (cases "Rules chain = []")
  case True
  with assms(4) show ?thesis
    by (simp add: accepts_def traverse_base(2) [of m, OF assms(1)])
next
  case False
  with assms(4) show ?thesis
    by (simp add: accepts_def assms(2,3,5) traverse_base(2) [of m, OF assms(1)]
        traverse_protected [of m _ _ chain, OF assms(1)] del: traverse.simps)
qed

section \<open>Packets\<close>

text \<open>
  A packet as the matches of this program see it; ports and addresses are compared in the
  textual form the rules carry. An empty field of a rule matches everything, a conntrack
  match holds when the packet's state is one of the listed ones.
\<close>

record packet =
  PktIn :: string
  PktOut :: string
  PktSrc :: string
  PktDst :: string
  PktProto :: string
  PktSport :: string
  PktDport :: string
  PktState :: string

text \<open>
  Packets carry their protocol in lower case; \<open>iptables\<close> turns the argument of \<open>-p\<close> into lower case,
  so that the API's TCP and iptables' tcp are one protocol.
\<close>

definition lower :: "string \<Rightarrow> string" where
  "lower v = map (\<lambda>c. case map_of (zip ''ABCDEFGHIJKLMNOPQRSTUVWXYZ'' ''abcdefghijklmnopqrstuvwxyz'') c of
     None \<Rightarrow> c | Some l \<Rightarrow> l) v"

definition proto_matches :: "string \<Rightarrow> string \<Rightarrow> bool" where
  "proto_matches v x \<longleftrightarrow> v = [] \<or> lower v = x"

definition field_matches :: "string \<Rightarrow> string \<Rightarrow> bool" where
  "field_matches v x \<longleftrightarrow> v = [] \<or> v = x"

definition rule_matches :: "packet \<Rightarrow> net_rule \<Rightarrow> bool" where
  "rule_matches p r \<longleftrightarrow>
     proto_matches (RuleProtocol r) (PktProto p) \<and>
     field_matches (SourcePort r) (PktSport p) \<and> field_matches (DestPort r) (PktDport p) \<and>
     field_matches (SourceIface r) (PktIn p) \<and> field_matches (DestIface r) (PktOut p) \<and>
     field_matches (SourceIp r) (PktSrc p) \<and> field_matches (DestIp r) (PktDst p) \<and>
     (CtState r = [] \<or> PktState p \<in> set (split_char (CHR '','') (CtState r)))"

definition packet_matches :: "packet \<Rightarrow> string list \<Rightarrow> bool" where
  "packet_matches p args =
     (case parse_args args zero_rule of None \<Rightarrow> False | Some r \<Rightarrow> rule_matches p r)"

lemma parse_rule_match:
  assumes "Operation r = []"
  shows "parse_args (rule_match r) zero_rule = Some r"
proof -
  have "\<exists>mt. createArgsFromRule r = accept_args mt \<and> parse_args mt zero_rule = Some r"
    using assms by (cases r) (simp add: createArgsFromRule_def zero_rule_def)
  then obtain mt where mt: "createArgsFromRule r = accept_args mt" "parse_args mt zero_rule = Some r"
    by blast
  then have "rule_match r = mt" by (simp only: rule_match_def match_target_simps)
  with mt(2) show ?thesis by simp
qed

lemma packet_matches_rule:
  "Operation r = [] \<Longrightarrow> packet_matches p (rule_match r) = rule_matches p r"
  by (simp add: packet_matches_def parse_rule_match)

lemma packet_matches_base:
  "packet_matches p []"
  "packet_matches p [''-i'', ''lo''] \<longleftrightarrow> PktIn p = ''lo''"
  "packet_matches p [''-o'', ''lo''] \<longleftrightarrow> PktOut p = ''lo''"
  "packet_matches p established \<longleftrightarrow> PktState p = ''ESTABLISHED'' \<or> PktState p = ''RELATED''"
  "packet_matches p (dns ''tcp'') \<longleftrightarrow> PktProto p = ''tcp'' \<and> PktDport p = ''53'' \<and>
     (PktState p = ''NEW'' \<or> PktState p = ''ESTABLISHED'')"
  "packet_matches p (dns ''udp'') \<longleftrightarrow> PktProto p = ''udp'' \<and> PktDport p = ''53'' \<and>
     (PktState p = ''NEW'' \<or> PktState p = ''ESTABLISHED'')"
  by (auto simp: packet_matches_def rule_matches_def proto_matches_def lower_def field_matches_def zero_rule_def
      const_defs)

section \<open>Properties\<close>

text \<open>The tables and a rule set that the witnesses evaluate.\<close>

definition pod_tables :: tables where
  "pod_tables x = (if snd x \<in> {ChainInput, ChainOutput, ChainForward} then Some [] else None)"

definition allow_rules :: "net_rule list \<Rightarrow> net_rule list \<Rightarrow> net_rule_set" where
  "allow_rules ing eg = \<lparr>IngressV4Chain = \<lparr>ChainName = IngressV4ChainName, Rules = ing\<rparr>,
     IngressV6Chain = \<lparr>ChainName = IngressV6ChainName, Rules = []\<rparr>,
     EgressV4Chain = \<lparr>ChainName = EgressV4ChainName, Rules = eg\<rparr>,
     EgressV6Chain = \<lparr>ChainName = EgressV6ChainName, Rules = []\<rparr>,
     RuleNetns = ''ns''\<rparr>"

lemma example_hyps:
  "fresh pod_tables" "builtin_chains pod_tables" "well_named (allow_rules ing eg)"
  "filter_table kernel_call id"
proof -
  show "fresh pod_tables" by (simp add: fresh_def pod_tables_def)
  then show "builtin_chains pod_tables" by (rule fresh_builtin)
  show "well_named (allow_rules ing eg)" by (simp add: well_named_def allow_rules_def)
  show "filter_table kernel_call id" by (rule kern.filter_table_axioms)
qed

text \<open>Rules behind the closing REJECT are never reached.\<close>

lemma ensured_late:
  "ensured base (jumps @ base) = base @ dedup (\<lambda>a. a) (set base) jumps"
proof -
  have "dedup (\<lambda>a. a) S xs = []" if "set xs \<subseteq> S" for S and xs :: "string list list"
    using that by (induction xs) auto
  then show ?thesis by (simp add: ensured_def dedup_append)
qed

lemma traverse_closed:
  assumes "m []"
  shows "traverse T m n (chain_args DefaultInputRules @ rest) = traverse T m n (chain_args DefaultInputRules)"
    and "traverse T m n (chain_args DefaultOutputRules @ rest) = traverse T m n (chain_args DefaultOutputRules)"
proof -
  have closed: "traverse T m n ((map accept_args mts @ [reject_args]) @ rest) =
      traverse T m n (map accept_args mts @ [reject_args])" for mts
    using assms by (simp only: append_assoc append_Cons append_Nil traverse_accepts) simp
  have "chain_args DefaultInputRules = map accept_args [[''-i'', ''lo''], established] @ [reject_args]"
    by (simp add: chain_args_default)
  then show "traverse T m n (chain_args DefaultInputRules @ rest) = traverse T m n (chain_args DefaultInputRules)"
    using closed by metis
  have "chain_args DefaultOutputRules =
      map accept_args [[''-o'', ''lo''], established, dns ''tcp'', dns ''udp''] @ [reject_args]"
    by (simp add: chain_args_default)
  then show "traverse T m n (chain_args DefaultOutputRules @ rest) = traverse T m n (chain_args DefaultOutputRules)"
    using closed by metis
qed

text \<open>The chains after two runs.\<close>

lemma two_runs_chain:
  assumes "calls_succeed env1" and "calls_succeed env2" and "filter_table apply_call rules_of"
    and "builtin_chains (rules_of k)"
  shows "provisioned apply_call rules_of env2 rs2 (after_run apply_call env1 rs1 k) (f, c) =
    fold (chain_step f c) (table_calls rs2) (fold (chain_step f c) (table_calls rs1) (rules_of k (f, c)))"
  unfolding provisioned_def after_run_chain [OF assms(2,3) after_run_builtin [OF assms(1,3,4)]]
    after_run_chain [OF assms(1,3,4)] ..

text \<open>
  The verdicts of the built-in chains after a run of the provisioner on fresh tables.
\<close>

lemma provisioned_input:
  assumes "calls_succeed env" and "filter_table apply_call rules_of" and "fresh (rules_of k)"
    and "well_named rs" and "whitelisting (ingress_chain f rs)" and "m []"
  shows "accepts (provisioned apply_call rules_of env rs k) f ChainInput m \<longleftrightarrow>
     m [''-i'', ''lo''] \<or> m established \<or> list_ex (\<lambda>r. m (rule_match r)) (Rules (ingress_chain f rs))"
proof (rule ingress_accepts [where m = m, OF assms(6,5)])
  note after = after_run_chain [OF assms(1,2) fresh_builtin [OF assms(3)]]
  show "provisioned apply_call rules_of env rs k (f, ChainInput) =
      Some ((if Rules (ingress_chain f rs) = [] then [] else [jump_args (ingress_name f)]) @
        chain_args DefaultInputRules)"
    using assms(3) by (simp add: provisioned_def after fresh_def input_after [OF assms(4)] ensured_distinct)
  show "provisioned apply_call rules_of env rs k (f, ingress_name f) =
      Some (ensured [] (chain_args (ingress_chain f rs)))" if "Rules (ingress_chain f rs) \<noteq> []"
    using that by (simp add: provisioned_def after ingress_after [OF assms(4)])
qed (simp add: assms(4))

lemma provisioned_output:
  assumes "calls_succeed env" and "filter_table apply_call rules_of" and "fresh (rules_of k)"
    and "well_named rs" and "whitelisting (egress_chain f rs)" and "m []"
  shows "accepts (provisioned apply_call rules_of env rs k) f ChainOutput m \<longleftrightarrow>
     m [''-o'', ''lo''] \<or> m established \<or> m (dns ''tcp'') \<or> m (dns ''udp'') \<or>
     list_ex (\<lambda>r. m (rule_match r)) (Rules (egress_chain f rs))"
proof (rule egress_accepts [where m = m, OF assms(6,5)])
  note after = after_run_chain [OF assms(1,2) fresh_builtin [OF assms(3)]]
  show "provisioned apply_call rules_of env rs k (f, ChainOutput) =
      Some ((if Rules (egress_chain f rs) = [] then [] else [jump_args (egress_name f)]) @
        chain_args DefaultOutputRules)"
    using assms(3) by (simp add: provisioned_def after fresh_def output_after [OF assms(4)] ensured_distinct)
  show "provisioned apply_call rules_of env rs k (f, egress_name f) =
      Some (ensured [] (chain_args (egress_chain f rs)))" if "Rules (egress_chain f rs) \<noteq> []"
    using that by (simp add: provisioned_def after egress_after [OF assms(4)])
qed (simp add: assms(4))

text \<open>
  C6: Ingress isolation. On a new Pod's tables, a run of the provisioner in which no call fails makes
  INPUT accept a packet exactly when it comes in on lo, belongs to an established or related
  connection, or is matched by one of the whitelisting ingress rules of its address family.
  Holds for every wrapper with the documented effects and every packet matcher.
\<close>

theorem ingress_isolation:
  assumes "calls_succeed env" and "filter_table apply_call rules_of" and "fresh (rules_of k)"
    and "well_named rs" and "whitelisting (ingress_chain f rs)" and "m []"
  shows "accepts (provisioned apply_call rules_of env rs k) f ChainInput m \<longleftrightarrow>
     m [''-i'', ''lo''] \<or> m established \<or>
     list_ex (\<lambda>r. m (rule_match r)) (Rules (ingress_chain f rs))"
  by (rule provisioned_input [where m = m, OF assms])

text \<open>
  C7: Egress isolation. After such a run OUTPUT accepts a packet exactly when it leaves on lo, belongs to an
  established or related connection, is a DNS query over TCP or UDP, or is matched by one of
  the whitelisting egress rules of its address family.
\<close>

theorem egress_isolation:
  assumes "calls_succeed env" and "filter_table apply_call rules_of" and "fresh (rules_of k)"
    and "well_named rs" and "whitelisting (egress_chain f rs)" and "m []"
  shows "accepts (provisioned apply_call rules_of env rs k) f ChainOutput m \<longleftrightarrow>
     m [''-o'', ''lo''] \<or> m established \<or> m (dns ''tcp'') \<or> m (dns ''udp'') \<or>
     list_ex (\<lambda>r. m (rule_match r)) (Rules (egress_chain f rs))"
  by (rule provisioned_output [where m = m, OF assms])

text \<open>
  A provisioned Pod forwards nothing: FORWARD rejects every packet of both families.
\<close>

theorem forward_rejected:
  assumes "calls_succeed env" and "filter_table apply_call rules_of" and "fresh (rules_of k)"
    and "well_named rs" and "m []"
  shows "\<not> accepts (provisioned apply_call rules_of env rs k) f ChainForward m"
  using after_run_chain [OF assms(1,2) fresh_builtin [OF assms(3)], of rs f ChainForward] assms(3,5)
  by (simp add: provisioned_def accepts_def fresh_def forward_after [OF assms(4)] ensured_distinct
      chain_args_default(3))

text \<open>
  C22: Provisioning again, as the policer does after a restart. A second run of the provisioner with the
  same rule set changes no table, whatever the tables held before the first. And what an own chain
  with rules holds after a run is a matter of the rule set alone: any tables that were there before,
  with the entries of any earlier run in them, lead to the same entries of the chain.
\<close>

theorem reprovision_idempotent:
  assumes "calls_succeed env1" and "calls_succeed env2" and "filter_table apply_call rules_of"
    and "builtin_chains (rules_of k)" and "builtin_chains (rules_of k')" and "well_named rs"
  shows "rules_of (after_run apply_call env2 rs (after_run apply_call env1 rs k)) =
      rules_of (after_run apply_call env1 rs k) \<and>
    (Rules (ingress_chain f rs) \<noteq> [] \<longrightarrow>
      rules_of (after_run apply_call env2 rs k') (f, ingress_name f) =
        rules_of (after_run apply_call env1 rs k) (f, ingress_name f)) \<and>
    (Rules (egress_chain f rs) \<noteq> [] \<longrightarrow>
      rules_of (after_run apply_call env2 rs k') (f, egress_name f) =
        rules_of (after_run apply_call env1 rs k) (f, egress_name f))"
proof (intro conjI impI)
  show "rules_of (after_run apply_call env2 rs (after_run apply_call env1 rs k)) =
      rules_of (after_run apply_call env1 rs k)"
    unfolding after_run_kernel [OF assms(2,3) after_run_builtin [OF assms(1,3,4)]]
      after_run_kernel [OF assms(1,3,4)] by (rule table_calls_idempotent [OF assms(6,4)])
qed (simp_all add: after_run_chain [OF assms(1,3,4)] after_run_chain [OF assms(2,3,5)] ingress_after egress_after assms(6))


text \<open>
  C39: Rules outlive their policy. After a run that has no rules for a direction, the whitelisting chain
  of the run before is neither flushed nor unlinked, and what it accepted is still accepted, into
  the Pod and out of it.
\<close>

theorem stale_whitelist_survives:
  assumes "calls_succeed env1" and "calls_succeed env2" and "filter_table apply_call rules_of"
    and "fresh (rules_of k)" and "well_named rs1" and "well_named rs2" and "m []"
    and "T = provisioned apply_call rules_of env2 rs2 (after_run apply_call env1 rs1 k)"
  shows "(whitelisting (ingress_chain f rs1) \<longrightarrow> Rules (ingress_chain f rs2) = [] \<longrightarrow>
      (accepts T f ChainInput m \<longleftrightarrow> m [''-i'', ''lo''] \<or> m established \<or>
        list_ex (\<lambda>r. m (rule_match r)) (Rules (ingress_chain f rs1)))) \<and>
    (whitelisting (egress_chain f rs1) \<longrightarrow> Rules (egress_chain f rs2) = [] \<longrightarrow>
      (accepts T f ChainOutput m \<longleftrightarrow> m [''-o'', ''lo''] \<or> m established \<or> m (dns ''tcp'') \<or> m (dns ''udp'') \<or>
        list_ex (\<lambda>r. m (rule_match r)) (Rules (egress_chain f rs1))))"
proof (intro conjI impI)
  note runs = two_runs_chain [OF assms(1-3) fresh_builtin [OF assms(4)], of rs2 rs1 f, folded assms(8)]
  show "accepts T f ChainInput m \<longleftrightarrow> m [''-i'', ''lo''] \<or> m established \<or>
      list_ex (\<lambda>r. m (rule_match r)) (Rules (ingress_chain f rs1))"
    if white: "whitelisting (ingress_chain f rs1)" and empty: "Rules (ingress_chain f rs2) = []"
  proof (rule ingress_accepts [where m = m, OF assms(7) white])
    let ?jumps = "if Rules (ingress_chain f rs1) = [] then [] else [jump_args (ingress_name f)]"
    have "T (f, ChainInput) =
        Some (ensured (ensured [] (?jumps @ chain_args DefaultInputRules)) (chain_args DefaultInputRules))"
      using assms(4) empty by (simp add: runs fresh_def input_after assms(5,6))
    then show "T (f, ChainInput) = Some (?jumps @ chain_args DefaultInputRules)"
      by (simp add: ensured_distinct ensured_subset)
    show "T (f, ingress_name f) = Some (ensured [] (chain_args (ingress_chain f rs1)))"
      if "Rules (ingress_chain f rs1) \<noteq> []"
      using that empty by (simp add: runs ingress_after assms(5,6))
  qed (simp add: assms(5))
  show "accepts T f ChainOutput m \<longleftrightarrow> m [''-o'', ''lo''] \<or> m established \<or> m (dns ''tcp'') \<or> m (dns ''udp'') \<or>
      list_ex (\<lambda>r. m (rule_match r)) (Rules (egress_chain f rs1))"
    if white: "whitelisting (egress_chain f rs1)" and empty: "Rules (egress_chain f rs2) = []"
  proof (rule egress_accepts [where m = m, OF assms(7) white])
    let ?jumps = "if Rules (egress_chain f rs1) = [] then [] else [jump_args (egress_name f)]"
    have "T (f, ChainOutput) =
        Some (ensured (ensured [] (?jumps @ chain_args DefaultOutputRules)) (chain_args DefaultOutputRules))"
      using assms(4) empty by (simp add: runs fresh_def output_after assms(5,6))
    then show "T (f, ChainOutput) = Some (?jumps @ chain_args DefaultOutputRules)"
      by (simp add: ensured_distinct ensured_subset)
    show "T (f, egress_name f) = Some (ensured [] (chain_args (egress_chain f rs1)))"
      if "Rules (egress_chain f rs1) \<noteq> []"
      using that empty by (simp add: runs egress_after assms(5,6))
  qed (simp add: assms(5))
qed

section \<open>The properties at concrete inputs\<close>

abbreviation from_match :: "string \<Rightarrow> string list" where
  "from_match ip \<equiv> [''-s'', ip]"

text \<open>A matcher for packets from one address, and one for packets to one address.\<close>

definition only :: "string list \<Rightarrow> string list \<Rightarrow> bool" where
  "only mt args \<longleftrightarrow> args = [] \<or> args = mt"

lemmas example_defs = allow_rules_def well_named_def whitelisting_def zero_rule_def only_def rule_match_def
  createArgsFromRule_def match_part_def

lemma ingress_isolation_witness:
  "accepts (provisioned kernel_call id quiet_env (allow_rules [zero_rule\<lparr>SourceIp := ''10.0.0.1''\<rparr>] []) pod_tables)
     V4 ChainInput (only (from_match ''10.0.0.1''))"
  by (subst ingress_isolation [OF quiet_env_succeeds example_hyps(4)])
    (simp_all add: example_hyps example_defs)

lemma egress_isolation_witness:
  "accepts (provisioned kernel_call id quiet_env (allow_rules [] [zero_rule\<lparr>DestIp := ''10.0.0.1''\<rparr>]) pod_tables)
     V4 ChainOutput (only [''-d'', ''10.0.0.1''])"
  by (subst egress_isolation [OF quiet_env_succeeds example_hyps(4)])
    (simp_all add: example_hyps example_defs)

lemma forward_rejected_witness:
  "\<not> accepts (provisioned kernel_call id quiet_env (allow_rules [] []) pod_tables) V6 ChainForward (only [])"
  by (rule forward_rejected [OF quiet_env_succeeds example_hyps(4)]) (simp_all add: example_hyps only_def)

text \<open>A run for a whitelist, on fresh tables and on tables where another whitelist is in force.\<close>

definition two_runs :: "net_rule list \<Rightarrow> net_rule list \<Rightarrow> tables" where
  "two_runs rules1 rules2 = provisioned kernel_call id quiet_env (allow_rules rules2 [])
     (after_run kernel_call quiet_env (allow_rules rules1 []) pod_tables)"

lemma reprovision_idempotent_witness:
  "id (after_run kernel_call quiet_env (allow_rules [zero_rule\<lparr>SourceIp := ''10.0.0.1''\<rparr>] [])
       (after_run kernel_call quiet_env (allow_rules [zero_rule\<lparr>SourceIp := ''10.0.0.2''\<rparr>] []) pod_tables))
     (V4, IngressV4ChainName) =
   id (after_run kernel_call quiet_env (allow_rules [zero_rule\<lparr>SourceIp := ''10.0.0.1''\<rparr>] []) pod_tables)
     (V4, IngressV4ChainName)"
proof -
  have "builtin_chains (id (after_run kernel_call quiet_env (allow_rules [zero_rule\<lparr>SourceIp := ''10.0.0.2''\<rparr>] []) pod_tables))"
    by (rule after_run_builtin [OF quiet_env_succeeds example_hyps(4)]) (simp add: example_hyps)
  moreover have "builtin_chains (id pod_tables)" by (simp add: example_hyps)
  moreover have "Rules (ingress_chain V4 (allow_rules [zero_rule\<lparr>SourceIp := ''10.0.0.1''\<rparr>] [])) \<noteq> []"
    by (simp add: allow_rules_def)
  ultimately show ?thesis
    using reprovision_idempotent [where f = V4 and k = pod_tables and apply_call = kernel_call and rules_of = id,
        OF quiet_env_succeeds quiet_env_succeeds example_hyps(4) _ _ example_hyps(3)]
    unfolding ingress_name.simps by blast
qed


lemma stale_whitelist_survives_witness:
  "accepts (two_runs [zero_rule\<lparr>SourceIp := ''10.0.0.1''\<rparr>] []) V4 ChainInput (only (from_match ''10.0.0.1''))"
  using stale_whitelist_survives [where k = pod_tables and f = V4 and m = "only (from_match ''10.0.0.1'')",
      OF quiet_env_succeeds quiet_env_succeeds example_hyps(4) _ example_hyps(3) example_hyps(3) _ two_runs_def]
    example_hyps(1)
  by (simp add: example_defs)

end
