(* ===== verification/Threads.thy ===== *)
theory Threads
  imports Iptables
begin

text \<open>
  Provisioner runs side by side. The controller starts every run of \<open>AddRulesToNewPod\<close> as a
  goroutine; the Go scheduler puts goroutines on OS threads between any two of their calls, and
  a network namespace belongs to the thread. Here any number of runs are interleaved in any way,
  and the tables they leave are compared with those of the runs alone.
\<close>

section \<open>Goroutines on threads\<close>

text \<open>
  A node: the filter tables of each namespace, the namespace of each thread, which goroutine a
  thread is locked to and the other way round, the namespace a goroutine found with
  \<open>GetCurrentNS\<close>, the calls it has made and those it has left to make.
\<close>

record ('n, 'k) node =
  ns_tables :: "'n \<Rightarrow> 'k"
  thread_ns :: "nat \<Rightarrow> 'n"
  owner :: "nat \<Rightarrow> nat option"
  thread_of :: "nat \<Rightarrow> nat option"
  saved_ns :: "nat \<Rightarrow> 'n"
  past :: "nat \<Rightarrow> ipt_event list"
  todo :: "nat \<Rightarrow> ipt_event list"

type_synonym run_spec = "ipt_env \<times> net_rule_set"

definition run_env :: "run_spec list \<Rightarrow> nat \<Rightarrow> ipt_env" where
  "run_env runs g = fst (runs ! g)"

definition run_path :: "run_spec list \<Rightarrow> nat \<Rightarrow> string" where
  "run_path runs g = RuleNetns (snd (runs ! g))"

definition run_calls :: "run_spec list \<Rightarrow> nat \<Rightarrow> ipt_event list" where
  "run_calls runs g =
     (if g < length runs then snd (run_state (AddRulesToNewPod (fst (runs ! g)) (snd (runs ! g))) [])
      else [])"

text \<open>What the environment of a run answers to its next call, after the calls \<open>h\<close>.\<close>

fun call_ok :: "ipt_env \<Rightarrow> ipt_event list \<Rightarrow> ipt_event \<Rightarrow> bool" where
  "call_ok env h GetCurrentNS \<longleftrightarrow> getCurrentNS_err env h = None"
| "call_ok env h (GetNS p) \<longleftrightarrow> getNS_err env h p = None"
| "call_ok env h (SetNS n) \<longleftrightarrow> setNS_err env h n = None"
| "call_ok env h (EnsureChain f c) \<longleftrightarrow> ensureChain_err env h f c = None"
| "call_ok env h (EnsureRule f c args) \<longleftrightarrow> ensureRule_err env h f c args = None"
| "call_ok env h e \<longleftrightarrow> True"

text \<open>
  The effect of a call that succeeds, made by goroutine \<open>g\<close> on thread \<open>th\<close>: \<open>resolve\<close> is the
  namespace behind a path. Table calls run a process in the namespace of the thread.
\<close>

fun call_effect :: "(string \<Rightarrow> 'n) \<Rightarrow> (ipt_event \<Rightarrow> 'k \<Rightarrow> 'k) \<Rightarrow> nat \<Rightarrow> nat \<Rightarrow> ipt_event \<Rightarrow>
    ('n, 'k) node \<Rightarrow> ('n, 'k) node" where
  "call_effect resolve apply_call g th LockOSThread s =
     s\<lparr>owner := (owner s)(th := Some g), thread_of := (thread_of s)(g := Some th)\<rparr>"
| "call_effect resolve apply_call g th UnlockOSThread s =
     s\<lparr>owner := (owner s)(th := None), thread_of := (thread_of s)(g := None)\<rparr>"
| "call_effect resolve apply_call g th GetCurrentNS s = s\<lparr>saved_ns := (saved_ns s)(g := thread_ns s th)\<rparr>"
| "call_effect resolve apply_call g th (SetNS OrigNS) s =
     s\<lparr>thread_ns := (thread_ns s)(th := saved_ns s g)\<rparr>"
| "call_effect resolve apply_call g th (SetNS (PodNS p)) s =
     s\<lparr>thread_ns := (thread_ns s)(th := resolve p)\<rparr>"
| "call_effect resolve apply_call g th e s =
     (if is_table_call e
      then s\<lparr>ns_tables := (ns_tables s)(thread_ns s th := apply_call e (ns_tables s (thread_ns s th)))\<rparr>
      else s)"

text \<open>
  One call of goroutine \<open>g\<close> on thread \<open>th\<close>: a locked goroutine runs on its own thread only, any
  other goroutine on any thread that is not locked. A call that fails has no effect.
\<close>

definition runs_on :: "('n, 'k) node \<Rightarrow> nat \<Rightarrow> nat \<Rightarrow> bool" where
  "runs_on s g th \<longleftrightarrow> (case thread_of s g of Some th' \<Rightarrow> th = th' | None \<Rightarrow> owner s th = None)"

definition step_on :: "(string \<Rightarrow> 'n) \<Rightarrow> (ipt_event \<Rightarrow> 'k \<Rightarrow> 'k) \<Rightarrow> run_spec list \<Rightarrow> nat \<Rightarrow> nat \<Rightarrow>
    ('n, 'k) node \<Rightarrow> ('n, 'k) node option" where
  "step_on resolve apply_call runs g th s =
     (case todo s g of
        [] \<Rightarrow> None
      | e # es \<Rightarrow>
          (if runs_on s g th then
             Some ((if call_ok (run_env runs g) (past s g) e then call_effect resolve apply_call g th e s
                    else s)\<lparr>past := (past s)(g := past s g @ [e]), todo := (todo s)(g := es)\<rparr>)
           else None))"

inductive node_step :: "(string \<Rightarrow> 'n) \<Rightarrow> (ipt_event \<Rightarrow> 'k \<Rightarrow> 'k) \<Rightarrow> run_spec list \<Rightarrow>
    ('n, 'k) node \<Rightarrow> ('n, 'k) node \<Rightarrow> bool" for resolve apply_call runs where
  call: "step_on resolve apply_call runs g th s = Some s' \<Longrightarrow> node_step resolve apply_call runs s s'"

text \<open>All threads start in the host's namespace, no goroutine has made a call.\<close>

definition node_start :: "'n \<Rightarrow> ('n \<Rightarrow> 'k) \<Rightarrow> run_spec list \<Rightarrow> ('n, 'k) node" where
  "node_start host tabs runs = \<lparr>ns_tables = tabs, thread_ns = (\<lambda>_. host), owner = (\<lambda>_. None),
     thread_of = (\<lambda>_. None), saved_ns = (\<lambda>_. host), past = (\<lambda>_. []), todo = run_calls runs\<rparr>"

text \<open>A schedule names the goroutine and the thread of each call; it may be run.\<close>

fun run_schedule :: "(string \<Rightarrow> 'n) \<Rightarrow> (ipt_event \<Rightarrow> 'k \<Rightarrow> 'k) \<Rightarrow> run_spec list \<Rightarrow> (nat \<times> nat) list \<Rightarrow>
    ('n, 'k) node \<Rightarrow> ('n, 'k) node option" where
  "run_schedule resolve apply_call runs [] s = Some s"
| "run_schedule resolve apply_call runs ((g, th) # sched) s =
     (case step_on resolve apply_call runs g th s of
        None \<Rightarrow> None | Some s' \<Rightarrow> run_schedule resolve apply_call runs sched s')"

lemma run_schedule_steps:
  "run_schedule resolve apply_call runs sched s = Some s' \<Longrightarrow> (node_step resolve apply_call runs)\<^sup>*\<^sup>* s s'"
proof (induction sched arbitrary: s)
  case (Cons gt sched)
  obtain g th where "gt = (g, th)" by fastforce
  with Cons.prems obtain t where "step_on resolve apply_call runs g th s = Some t"
    "run_schedule resolve apply_call runs sched t = Some s'" by (auto split: option.splits)
  with Cons.IH show ?case by (metis node_step.call converse_rtranclp_into_rtranclp)
qed simp

section \<open>One run alone\<close>

text \<open>The tables of a namespace after the table calls of a run that succeeded in it.\<close>

fun applied :: "(ipt_event \<Rightarrow> 'k \<Rightarrow> 'k) \<Rightarrow> ipt_env \<Rightarrow> ipt_event list \<Rightarrow> ipt_event list \<Rightarrow> 'k \<Rightarrow> 'k" where
  "applied apply_call env h [] k = k"
| "applied apply_call env h (e # es) k =
     applied apply_call env (h @ [e]) es
       (if is_table_call e \<and> call_ok env h e then apply_call e k else k)"

definition provisioned_alone :: "(ipt_event \<Rightarrow> 'k \<Rightarrow> 'k) \<Rightarrow> ipt_env \<Rightarrow> net_rule_set \<Rightarrow> 'k \<Rightarrow> 'k" where
  "provisioned_alone apply_call env rs k =
     applied apply_call env [] (snd (run_state (AddRulesToNewPod env rs) [])) k"

lemma applied_snoc:
  "applied apply_call env h (es @ [e]) k =
     (if is_table_call e \<and> call_ok env (h @ es) e then apply_call e (applied apply_call env h es k)
      else applied apply_call env h es k)"
  by (induction es arbitrary: h k) auto

text \<open>
  The modes of a run, which also follow the answers: a refused entry keeps it outside. A run whose
  return to the first namespace is refused has no mode.
\<close>

datatype run_mode = Unlocked | Claimed | Homed | Inside | Barred

fun mode_step :: "ipt_env \<Rightarrow> string \<Rightarrow> ipt_event list \<Rightarrow> run_mode \<Rightarrow> ipt_event \<Rightarrow> run_mode option" where
  "mode_step env p h Unlocked e = (if e = LockOSThread then Some Claimed else None)"
| "mode_step env p h Claimed e =
     (if e = GetCurrentNS then Some (if call_ok env h e then Homed else Claimed)
      else if e = UnlockOSThread then Some Unlocked else None)"
| "mode_step env p h Homed e =
     (if e = GetNS p then Some Homed
      else if e = SetNS (PodNS p) then Some (if call_ok env h e then Inside else Barred)
      else if e = UnlockOSThread then Some Unlocked else None)"
| "mode_step env p h Inside e =
     (if is_table_call e \<or> e = CloseNS (PodNS p) then Some Inside
      else if e = SetNS OrigNS \<and> call_ok env h e then Some Homed else None)"
| "mode_step env p h Barred e =
     (if e = CloseNS (PodNS p) then Some Barred else if e = SetNS OrigNS then Some Homed else None)"

fun mode_run :: "ipt_env \<Rightarrow> string \<Rightarrow> ipt_event list \<Rightarrow> run_mode \<Rightarrow> ipt_event list \<Rightarrow> run_mode option" where
  "mode_run env p h m [] = Some m"
| "mode_run env p h m (e # es) =
     (case mode_step env p h m e of None \<Rightarrow> None | Some m' \<Rightarrow> mode_run env p (h @ [e]) m' es)"

lemma mode_run_append:
  "mode_run env p h m (xs @ ys) =
     (case mode_run env p h m xs of None \<Rightarrow> None | Some m' \<Rightarrow> mode_run env p (h @ xs) m' ys)"
  by (induction xs arbitrary: h m) (auto split: option.split)

lemma mode_run_table_calls: "list_all is_table_call es \<Longrightarrow> mode_run env p h Inside es = Some Inside"
  by (induction es arbitrary: h) auto

definition restores :: "ipt_env \<Rightarrow> bool" where
  "restores env \<longleftrightarrow> (\<forall>h. setNS_err env h OrigNS = None)"

lemma AddRulesToNewPod_modes:
  assumes "restores env"
  shows "mode_run env (RuleNetns rs) [] Unlocked (snd (run_state (AddRulesToNewPod env rs) [])) = Some Unlocked"
proof -
  have calls: "mode_run env p h Inside u = Some Inside" if "table_calls rs = u @ v" for p h u v
    using table_calls_are_table_calls that by (metis list_all_append mode_run_table_calls table_calls_def)
  show ?thesis
  proof (rule run_AddRulesToNewPod [of env rs "[]"])
    fix u v
    assume inside: "getCurrentNS_err env ([] @ [LockOSThread]) = None" "table_calls rs = u @ v"
      "setNS_err env ([] @ [LockOSThread, GetCurrentNS, GetNS (RuleNetns rs)]) (PodNS (RuleNetns rs)) \<noteq> None
        \<Longrightarrow> u = []"
      "run_state (AddRulesToNewPod env rs) [] =
        ((), [] @ [LockOSThread, GetCurrentNS, GetNS (RuleNetns rs), SetNS (PodNS (RuleNetns rs))] @ u @
          [CloseNS (PodNS (RuleNetns rs)), SetNS OrigNS, UnlockOSThread])"
    show ?thesis
      using inside(1,3,4) assms
      by (auto simp: restores_def mode_run_append calls [OF inside(2)] is_table_call_def split: option.split)
  qed (simp_all add: is_table_call_def)
qed

section \<open>The invariant\<close>

text \<open>
  Where a goroutine is in each mode; \<open>host\<close> is the namespace of the policer itself.
\<close>

definition placed :: "'n \<Rightarrow> 'n \<Rightarrow> run_mode \<Rightarrow> ('n, 'k) node \<Rightarrow> nat \<Rightarrow> bool" where
  "placed host pod m s g \<longleftrightarrow>
     (case thread_of s g of
        None \<Rightarrow> m = Unlocked
      | Some th \<Rightarrow> m \<noteq> Unlocked \<and> thread_ns s th = (if m = Inside then pod else host) \<and>
          (m \<noteq> Claimed \<longrightarrow> saved_ns s g = host))"

definition locks_agree :: "('n, 'k) node \<Rightarrow> bool" where
  "locks_agree s \<longleftrightarrow> (\<forall>g th. thread_of s g = Some th \<longleftrightarrow> owner s th = Some g)"

definition free_threads_home :: "'n \<Rightarrow> ('n, 'k) node \<Rightarrow> bool" where
  "free_threads_home host s \<longleftrightarrow> (\<forall>th. owner s th = None \<longrightarrow> thread_ns s th = host)"

text \<open>Two nodes that differ in one thread and one goroutine, which belong together, at most.\<close>

definition same_elsewhere :: "nat \<Rightarrow> nat \<Rightarrow> ('n, 'k) node \<Rightarrow> ('n, 'k) node \<Rightarrow> bool" where
  "same_elsewhere g th s t \<longleftrightarrow>
     (\<forall>g'. g' \<noteq> g \<longrightarrow> thread_of t g' = thread_of s g' \<and> saved_ns t g' = saved_ns s g') \<and>
     (\<forall>th'. th' \<noteq> th \<longrightarrow> owner t th' = owner s th' \<and> thread_ns t th' = thread_ns s th')"

lemma placed_elsewhere:
  assumes "same_elsewhere g th s t" and "locks_agree s" and "runs_on s g th" and "g' \<noteq> g"
  shows "placed host pod m t g' = placed host pod m s g'"
proof -
  have "thread_of s g' \<noteq> Some th"
    using assms(2-4) by (auto simp: locks_agree_def runs_on_def split: option.splits)
  then show ?thesis
    using assms(1,4) by (auto simp: placed_def same_elsewhere_def split: option.splits)
qed

lemma call_effect_table:
  "is_table_call e \<Longrightarrow> call_effect resolve apply_call g th e s =
     s\<lparr>ns_tables := (ns_tables s)(thread_ns s th := apply_call e (ns_tables s (thread_ns s th)))\<rparr>"
  by (cases e) (auto simp: is_table_call_def)

lemma call_effect_other:
  "call_effect resolve apply_call g th (GetNS p) s = s"
  "call_effect resolve apply_call g th (CloseNS n) s = s"
  by (simp_all add: is_table_call_def)

lemma not_table_calls [simp]:
  "\<not> is_table_call LockOSThread" "\<not> is_table_call UnlockOSThread" "\<not> is_table_call GetCurrentNS"
  "\<not> is_table_call (GetNS p)" "\<not> is_table_call (SetNS n)" "\<not> is_table_call (CloseNS n)"
  by (simp_all add: is_table_call_def)

definition outcome :: "(string \<Rightarrow> 'n) \<Rightarrow> (ipt_event \<Rightarrow> 'k \<Rightarrow> 'k) \<Rightarrow> ipt_env \<Rightarrow> ipt_event list \<Rightarrow>
    nat \<Rightarrow> nat \<Rightarrow> ipt_event \<Rightarrow> ('n, 'k) node \<Rightarrow> ('n, 'k) node" where
  "outcome resolve apply_call env h g th e s =
     (if call_ok env h e then call_effect resolve apply_call g th e s else s)"

lemma outcome_step:
  fixes s :: "('n, 'k) node" and apply_call :: "ipt_event \<Rightarrow> 'k \<Rightarrow> 'k"
  assumes "locks_agree s" and "free_threads_home host s" and "runs_on s g th"
    and "placed host (resolve p) m s g" and "mode_step env p h m e = Some m'"
  defines "t \<equiv> outcome resolve apply_call env h g th e s"
  shows "locks_agree t" and "free_threads_home host t" and "placed host (resolve p) m' t g"
    and "same_elsewhere g th s t"
    and "ns_tables t = (if is_table_call e \<and> call_ok env h e
      then (ns_tables s)(resolve p := apply_call e (ns_tables s (resolve p))) else ns_tables s)"
proof -
  note defs = t_def outcome_def placed_def runs_on_def locks_agree_def free_threads_home_def
    same_elsewhere_def call_effect_other
  have own: "owner s th' = Some g' \<longleftrightarrow> thread_of s g' = Some th'" for th' g'
    using assms(1) by (simp add: locks_agree_def)
  have taken: "g' = g" if "thread_of s g' = Some th" for g'
    using assms(3) own [where th' = th and g' = g'] own [where th' = th and g' = g] that
    by (auto simp: runs_on_def split: option.splits)
  have at: "thread_of s g = Some th \<and> owner s th = Some g \<and> thread_ns s th = (if m = Inside then resolve p else host) \<and>
      (m \<noteq> Claimed \<longrightarrow> saved_ns s g = host)" if "m \<noteq> Unlocked"
    using that assms(3,4) by (auto simp: placed_def runs_on_def own split: option.splits)
  have idle: "thread_of s g = None \<and> owner s th = None" if "m = Unlocked"
    using that assms(3,4) by (auto simp: placed_def runs_on_def split: option.splits)
  note home = assms(2) [unfolded free_threads_home_def, rule_format]
  have "locks_agree t"
  proof (cases m)
    case Unlocked
    with assms(5) idle show ?thesis by (auto simp: defs own dest: taken split: if_splits)
  next
    case Claimed
    with assms(5) at show ?thesis by (auto simp: defs own dest: taken split: if_splits)
  next
    case Homed
    with assms(5) at show ?thesis by (auto simp: defs own dest: taken split: if_splits)
  next
    case Inside
    with assms(5) at show ?thesis by (auto simp: defs own call_effect_table dest: taken split: if_splits)
  next
    case Barred
    with assms(5) at show ?thesis by (auto simp: defs own dest: taken split: if_splits)
  qed
  moreover have "free_threads_home host t \<and> placed host (resolve p) m' t g \<and> same_elsewhere g th s t"
  proof (cases m)
    case Unlocked
    with assms(5) idle show ?thesis by (auto simp: defs home split: if_splits)
  next
    case Claimed
    with assms(5) at show ?thesis by (auto simp: defs home split: if_splits)
  next
    case Homed
    with assms(5) consider "e = GetNS p" "m' = Homed" | "e = UnlockOSThread" "m' = Unlocked"
      | "e = SetNS (PodNS p)" "m' = (if call_ok env h e then Inside else Barred)"
      by (auto split: if_splits)
    then show ?thesis
      using at Homed by cases (simp_all add: defs home)
  next
    case Inside
    with assms(5) at show ?thesis by (auto simp: defs home call_effect_table split: if_splits)
  next
    case Barred
    with assms(5) at show ?thesis by (auto simp: defs home split: if_splits)
  qed
  moreover have "ns_tables t = (if is_table_call e \<and> call_ok env h e
      then (ns_tables s)(resolve p := apply_call e (ns_tables s (resolve p))) else ns_tables s)"
  proof (cases m)
    case Inside
    with assms(5) at show ?thesis by (auto simp: defs call_effect_table split: if_splits)
  qed (use assms(5) in \<open>auto simp: defs split: if_splits\<close>)
  ultimately show "locks_agree t" "free_threads_home host t" "placed host (resolve p) m' t g"
    "same_elsewhere g th s t" "ns_tables t = (if is_table_call e \<and> call_ok env h e
      then (ns_tables s)(resolve p := apply_call e (ns_tables s (resolve p))) else ns_tables s)"
    by simp_all
qed

text \<open>
  The invariant: locks and threads agree, free threads are at home, every run is in a mode and in
  its place, the tables of a Pod are those its own calls made, all other tables are untouched.
\<close>

definition pod_ns :: "(string \<Rightarrow> 'n) \<Rightarrow> run_spec list \<Rightarrow> nat \<Rightarrow> 'n" where
  "pod_ns resolve runs g = resolve (run_path runs g)"

definition node_inv :: "'n \<Rightarrow> ('n \<Rightarrow> 'k) \<Rightarrow> (string \<Rightarrow> 'n) \<Rightarrow> (ipt_event \<Rightarrow> 'k \<Rightarrow> 'k) \<Rightarrow> run_spec list \<Rightarrow>
    ('n, 'k) node \<Rightarrow> bool" where
  "node_inv host tabs resolve apply_call runs s \<longleftrightarrow>
     locks_agree s \<and> free_threads_home host s \<and>
     (\<forall>g. past s g @ todo s g = run_calls runs g) \<and>
     (\<forall>g. \<exists>m. mode_run (run_env runs g) (run_path runs g) [] Unlocked (past s g) = Some m \<and>
        placed host (pod_ns resolve runs g) m s g) \<and>
     (\<forall>n. n \<notin> pod_ns resolve runs ` {..<length runs} \<longrightarrow> ns_tables s n = tabs n) \<and>
     (\<forall>g<length runs. ns_tables s (pod_ns resolve runs g) =
        applied apply_call (run_env runs g) [] (past s g) (tabs (pod_ns resolve runs g)))"

lemma node_inv_start: "node_inv host tabs resolve apply_call runs (node_start host tabs runs)"
  by (auto simp: node_inv_def node_start_def locks_agree_def free_threads_home_def placed_def)

lemma placed_history [simp]:
  "placed host pod m (s\<lparr>past := p, todo := t\<rparr>) g = placed host pod m s g"
  "locks_agree (s\<lparr>past := p, todo := t\<rparr>) = locks_agree s"
  "free_threads_home host (s\<lparr>past := p, todo := t\<rparr>) = free_threads_home host s"
  by (auto simp: placed_def locks_agree_def free_threads_home_def split: option.split)

lemma run_calls_modes:
  assumes "\<forall>(env, rs) \<in> set runs. restores env"
  shows "mode_run (run_env runs g) (run_path runs g) [] Unlocked (run_calls runs g) = Some Unlocked"
proof (cases "g < length runs")
  case True
  with assms have "restores (fst (runs ! g))" by (metis (mono_tags) case_prod_beta nth_mem)
  from AddRulesToNewPod_modes [OF this] True show ?thesis
    by (simp add: run_calls_def run_env_def run_path_def)
qed (simp add: run_calls_def)

lemma outcome_history [simp]:
  "past (outcome resolve apply_call env h g th e s) = past s"
  "todo (outcome resolve apply_call env h g th e s) = todo s"
  by (cases "(resolve, apply_call, g, th, e, s)" rule: call_effect.cases; simp add: outcome_def)+

lemma node_inv_step:
  assumes "\<forall>(env, rs) \<in> set runs. restores env"
    and "inj_on (pod_ns resolve runs) {..<length runs}"
    and inv: "node_inv host tabs resolve apply_call runs s"
    and "step_on resolve apply_call runs g th s = Some s'"
  shows "node_inv host tabs resolve apply_call runs s'"
proof -
  let ?env = "run_env runs" and ?p = "run_path runs" and ?pod = "pod_ns resolve runs"
  obtain e es where todo: "todo s g = e # es" and on: "runs_on s g th"
    and s': "s' = (outcome resolve apply_call (?env g) (past s g) g th e s)
      \<lparr>past := (past s)(g := past s g @ [e]), todo := (todo s)(g := es)\<rparr>"
    using assms(4) by (auto simp: step_on_def outcome_def split: list.splits if_splits)
  let ?t = "outcome resolve apply_call (?env g) (past s g) g th e s"
  from inv have agree: "locks_agree s" and home: "free_threads_home host s"
    and calls: "\<And>g. past s g @ todo s g = run_calls runs g"
    and others: "\<And>n. n \<notin> ?pod ` {..<length runs} \<Longrightarrow> ns_tables s n = tabs n"
    and own: "\<And>g. g < length runs \<Longrightarrow>
      ns_tables s (?pod g) = applied apply_call (?env g) [] (past s g) (tabs (?pod g))"
    by (simp_all add: node_inv_def)
  have modes: "\<exists>m. mode_run (?env g) (?p g) [] Unlocked (past s g) = Some m \<and> placed host (?pod g) m s g" for g
    using inv by (simp add: node_inv_def)
  have g: "g < length runs" using calls [of g] todo by (auto simp: run_calls_def split: if_splits)
  obtain m where m: "mode_run (?env g) (?p g) [] Unlocked (past s g) = Some m" "placed host (?pod g) m s g"
    using modes by blast
  from run_calls_modes [OF assms(1), of g] m(1) obtain m' where m': "mode_step (?env g) (?p g) (past s g) m e = Some m'"
    by (auto simp: calls [of g, symmetric] todo mode_run_append split: option.splits)
  note t = outcome_step [where resolve = resolve and apply_call = apply_call,
      OF agree home on m(2) [unfolded pod_ns_def] m']
  have m_past: "mode_run (?env g) (?p g) [] Unlocked (past s g @ [e]) = Some m'"
    using m(1) m' by (simp add: mode_run_append)
  have "\<exists>m. mode_run (?env g') (?p g') [] Unlocked (past s' g') = Some m \<and> placed host (?pod g') m s' g'" for g'
  proof (cases "g' = g")
    case True
    with t(3) m_past show ?thesis by (simp add: s' pod_ns_def)
  next
    case False
    with modes [of g'] placed_elsewhere [OF t(4) agree on False] show ?thesis by (simp add: s')
  qed
  moreover have "ns_tables s' n = tabs n" if "n \<notin> ?pod ` {..<length runs}" for n
    using that others [OF that] g t(5) by (auto simp: s' pod_ns_def)
  moreover have "ns_tables s' (?pod g') = applied apply_call (?env g') [] (past s' g') (tabs (?pod g'))"
    if "g' < length runs" for g'
  proof (cases "g' = g")
    case True
    then show ?thesis using own [OF g] t(5) by (simp add: s' pod_ns_def applied_snoc)
  next
    case False
    with assms(2) g that have "?pod g' \<noteq> ?pod g" by (auto simp: inj_on_def)
    with False own [OF that] t(5) show ?thesis by (simp add: s' pod_ns_def)
  qed
  moreover have "past s' g' @ todo s' g' = run_calls runs g'" for g'
    using calls [of g'] todo by (auto simp: s')
  ultimately show ?thesis using t(1,2) by (simp add: node_inv_def s')
qed

lemma node_inv_reachable:
  assumes "(node_step resolve apply_call runs)\<^sup>*\<^sup>* (node_start host tabs runs) s"
    and "\<forall>(env, rs) \<in> set runs. restores env"
    and "inj_on (pod_ns resolve runs) {..<length runs}"
  shows "node_inv host tabs resolve apply_call runs s"
  using assms(1)
proof (induction rule: rtranclp_induct)
  case base
  show ?case by (rule node_inv_start)
next
  case (step s t)
  from step(2) obtain g th where "step_on resolve apply_call runs g th s = Some t"
    by (auto elim: node_step.cases)
  with step(3) show ?case by (rule node_inv_step [OF assms(2,3)])
qed

text \<open>No run waits for another: every reachable node can go on until all runs are done.\<close>

lemma free_thread:
  assumes "node_inv host tabs resolve apply_call runs s"
  shows "\<exists>th. runs_on s g th"
proof (cases "thread_of s g")
  case None
  from assms have locks: "\<And>g th. thread_of s g = Some th \<longleftrightarrow> owner s th = Some g"
    and calls: "\<And>g. past s g @ todo s g = run_calls runs g"
    and modes: "\<And>g. \<exists>m. mode_run (run_env runs g) (run_path runs g) [] Unlocked (past s g) = Some m \<and>
       placed host (pod_ns resolve runs g) m s g"
    by (auto simp: node_inv_def locks_agree_def)
  have "g' < length runs" if "thread_of s g' \<noteq> None" for g'
    using that calls [of g'] modes [of g'] by (auto simp: run_calls_def placed_def split: if_splits)
  then have "{th. owner s th \<noteq> None} \<subseteq> (\<lambda>g. the (thread_of s g)) ` {..<length runs}"
    by (force simp: image_iff locks [symmetric])
  then have "finite {th. owner s th \<noteq> None}" by (rule finite_subset) simp
  then obtain th where "th \<notin> {th. owner s th \<noteq> None}" using ex_new_if_finite infinite_UNIV_nat by blast
  with None show ?thesis by (auto simp: runs_on_def)
qed (simp add: runs_on_def)

lemma runs_can_finish:
  assumes "\<forall>(env, rs) \<in> set runs. restores env"
    and "inj_on (pod_ns resolve runs) {..<length runs}"
    and "node_inv host tabs resolve apply_call runs s"
  shows "\<exists>t. (node_step resolve apply_call runs)\<^sup>*\<^sup>* s t \<and> (\<forall>g. todo t g = [])"
  using assms(3)
proof (induction "\<Sum>g<length runs. length (todo s g)" arbitrary: s rule: less_induct)
  case less
  show ?case
  proof (cases "\<forall>g. todo s g = []")
    case False
    then obtain g where g: "todo s g \<noteq> []" by blast
    obtain th where "runs_on s g th" using free_thread [OF less.prems] by blast
    with g have "step_on resolve apply_call runs g th s \<noteq> None" by (cases "todo s g") (auto simp: step_on_def)
    then obtain t where t: "step_on resolve apply_call runs g th s = Some t" by blast
    have "past s g @ todo s g = run_calls runs g" using less.prems by (simp add: node_inv_def)
    with g have "g < length runs" by (auto simp: run_calls_def split: if_splits)
    moreover have "todo t = (todo s)(g := tl (todo s g))"
      using t outcome_history(2) [of resolve apply_call "run_env runs g" "past s g" g th "hd (todo s g)" s]
      by (auto simp: step_on_def outcome_def split: list.splits if_splits)
    ultimately have "(\<Sum>g<length runs. length (todo t g)) < (\<Sum>g<length runs. length (todo s g))"
      using g by (intro sum_strict_mono_ex1) (auto intro!: bexI [of _ g])
    from less.hyps [OF this node_inv_step [OF assms(1,2) less.prems t]] obtain u where
      "(node_step resolve apply_call runs)\<^sup>*\<^sup>* t u" "\<forall>g. todo u g = []" by blast
    with node_step.call [OF t] show ?thesis by (meson converse_rtranclp_into_rtranclp)
  qed blast
qed

text \<open>What the invariant says of the nodes the theorem is about.\<close>

lemma concurrent_runs_inv:
  assumes "(node_step resolve apply_call runs)\<^sup>*\<^sup>* (node_start host tabs runs) s"
    and "\<forall>(env, rs) \<in> set runs. \<forall>h. setNS_err env h OrigNS = None"
    and "distinct (host # map (\<lambda>(env, rs). resolve (RuleNetns rs)) runs)"
  shows "\<forall>(env, rs) \<in> set runs. restores env" and "inj_on (pod_ns resolve runs) {..<length runs}"
    and "node_inv host tabs resolve apply_call runs s"
proof -
  show rest: "\<forall>(env, rs) \<in> set runs. restores env" using assms(2) by (auto simp: restores_def)
  show inj: "inj_on (pod_ns resolve runs) {..<length runs}"
  proof (rule inj_onI)
    fix x y assume xy: "x \<in> {..<length runs}" "y \<in> {..<length runs}" "pod_ns resolve runs x = pod_ns resolve runs y"
    then have "map (\<lambda>(env, rs). resolve (RuleNetns rs)) runs ! x = map (\<lambda>(env, rs). resolve (RuleNetns rs)) runs ! y"
      by (simp add: pod_ns_def run_path_def case_prod_beta)
    moreover have "distinct (map (\<lambda>(env, rs). resolve (RuleNetns rs)) runs)" using assms(3) by simp
    ultimately show "x = y" using xy(1,2) by (metis length_map lessThan_iff nth_eq_iff_index_eq)
  qed
  show "node_inv host tabs resolve apply_call runs s" by (rule node_inv_reachable [OF assms(1) rest inj])
qed

lemma concurrent_runs_tables:
  assumes "(node_step resolve apply_call runs)\<^sup>*\<^sup>* (node_start host tabs runs) s"
    and "\<forall>(env, rs) \<in> set runs. \<forall>h. setNS_err env h OrigNS = None"
    and "distinct (host # map (\<lambda>(env, rs). resolve (RuleNetns rs)) runs)"
    and "g < length runs"
  shows "todo s g = [] \<longrightarrow> thread_of s g = None \<and>
     (case runs ! g of (env, rs) \<Rightarrow> ns_tables s (resolve (RuleNetns rs)) =
        provisioned_alone apply_call env rs (tabs (resolve (RuleNetns rs))))"
proof
  note inv = concurrent_runs_inv(3) [OF assms(1-3)] and rest = concurrent_runs_inv(1) [OF assms(1-3)]
  assume "todo s g = []"
  then have past: "past s g = run_calls runs g" using inv by (metis append_Nil2 node_inv_def)
  obtain m where "mode_run (run_env runs g) (run_path runs g) [] Unlocked (past s g) = Some m"
    "placed host (pod_ns resolve runs g) m s g" using inv unfolding node_inv_def by blast
  with run_calls_modes [OF rest, of g] have "thread_of s g = None"
    by (auto simp: past placed_def split: option.splits)
  moreover have "ns_tables s (pod_ns resolve runs g) =
      applied apply_call (run_env runs g) [] (run_calls runs g) (tabs (pod_ns resolve runs g))"
    using inv assms(4) past by (simp add: node_inv_def)
  ultimately show "thread_of s g = None \<and> (case runs ! g of (env, rs) \<Rightarrow>
      ns_tables s (resolve (RuleNetns rs)) =
        provisioned_alone apply_call env rs (tabs (resolve (RuleNetns rs))))"
    using assms(4) by (auto simp: provisioned_alone_def run_calls_def pod_ns_def run_path_def run_env_def
        split: prod.splits)
qed

section \<open>Properties\<close>

text \<open>
  C3: runs of the provisioner that the scheduler interleaves in any way, on any threads, do not
  disturb each other: at every moment the tables of the host and of every other namespace are
  as they were, threads that no run holds are in the host's namespace, and a run that is done
  has left in the namespace of its Pod exactly the tables it would have made alone, and holds no
  thread; and the runs can always go on until all are done. The Pods have namespaces of their own,
  and no return to the host's namespace fails (its error is ignored by the code).
\<close>

theorem concurrent_runs_isolated:
  assumes "(node_step resolve apply_call runs)\<^sup>*\<^sup>* (node_start host tabs runs) s"
    and "\<forall>(env, rs) \<in> set runs. \<forall>h. setNS_err env h OrigNS = None"
    and "distinct (host # map (\<lambda>(env, rs). resolve (RuleNetns rs)) runs)"
  shows "(\<forall>n. n \<notin> (\<lambda>(env, rs). resolve (RuleNetns rs)) ` set runs \<longrightarrow> ns_tables s n = tabs n) \<and>
     (\<forall>th. owner s th = None \<longrightarrow> thread_ns s th = host) \<and>
     (\<forall>g<length runs. todo s g = [] \<longrightarrow> thread_of s g = None \<and>
        (case runs ! g of (env, rs) \<Rightarrow> ns_tables s (resolve (RuleNetns rs)) =
           provisioned_alone apply_call env rs (tabs (resolve (RuleNetns rs))))) \<and>
     (\<exists>t. (node_step resolve apply_call runs)\<^sup>*\<^sup>* s t \<and> (\<forall>g. todo t g = []))"
proof -
  note inv = concurrent_runs_inv [OF assms]
  have "(\<lambda>(env, rs). resolve (RuleNetns rs)) ` set runs = pod_ns resolve runs ` {..<length runs}"
  proof -
    have "set runs = (!) runs ` {..<length runs}" by (auto simp: set_conv_nth)
    then show ?thesis by (simp add: image_image pod_ns_def run_path_def case_prod_beta)
  qed
  with inv(3) have "\<forall>n. n \<notin> (\<lambda>(env, rs). resolve (RuleNetns rs)) ` set runs \<longrightarrow> ns_tables s n = tabs n"
    "\<forall>th. owner s th = None \<longrightarrow> thread_ns s th = host"
    by (simp_all add: node_inv_def free_threads_home_def)
  with concurrent_runs_tables [OF assms] runs_can_finish [OF inv] show ?thesis by blast
qed

text \<open>
  Two runs whose calls alternate, each on its own thread; the tables are the lists of calls made.
\<close>

definition two_runs :: "run_spec list" where
  "two_runs = [(quiet_env, one_rule_set), (quiet_env, one_rule_set\<lparr>RuleNetns := ''other''\<rparr>)]"

definition log_call :: "ipt_event \<Rightarrow> ipt_event list \<Rightarrow> ipt_event list" where
  "log_call e k = k @ [e]"

definition alternating :: "nat \<Rightarrow> (nat \<times> nat) list" where
  "alternating n = concat (replicate n [(0, 0), (1, 1)])"

lemma alternating_runs:
  "case run_schedule id log_call two_runs (alternating 5) (node_start ''host'' (\<lambda>_. []) two_runs) of
     None \<Rightarrow> False
   | Some s \<Rightarrow> thread_ns s 0 = ''ns'' \<and> thread_ns s 1 = ''other'' \<and> length (ns_tables s ''ns'') = 1"
  by code_simp

lemma concurrent_runs_isolated_witness:
  "\<exists>s t. run_schedule id log_call two_runs (alternating 5) (node_start ''host'' (\<lambda>_. []) two_runs) = Some s \<and>
     thread_ns s 0 = ''ns'' \<and> thread_ns s 1 = ''other'' \<and>
     (node_step id log_call two_runs)\<^sup>*\<^sup>* s t \<and> ns_tables t ''host'' = [] \<and>
     ns_tables t ''ns'' = provisioned_alone log_call quiet_env one_rule_set [] \<and>
     ns_tables t ''other'' =
       provisioned_alone log_call quiet_env (one_rule_set\<lparr>RuleNetns := ''other''\<rparr>) []"
proof -
  obtain s where s: "run_schedule id log_call two_runs (alternating 5)
      (node_start ''host'' (\<lambda>_. []) two_runs) = Some s" "thread_ns s 0 = ''ns''" "thread_ns s 1 = ''other''"
    using alternating_runs by (auto split: option.splits)
  have hyps: "\<forall>(env, rs)\<in>set two_runs. \<forall>h. setNS_err env h OrigNS = None"
    "distinct (''host'' # map (\<lambda>(env, rs). id (RuleNetns rs)) two_runs)"
    by (simp_all add: two_runs_def quiet_env_def one_rule_set_def)
  from concurrent_runs_isolated [OF run_schedule_steps [OF s(1)] hyps]
  obtain t where t: "(node_step id log_call two_runs)\<^sup>*\<^sup>* s t" "\<And>g. todo t g = []" by blast
  from concurrent_runs_isolated [OF rtranclp_trans [OF run_schedule_steps [OF s(1)] t(1)] hyps]
  have "ns_tables t ''host'' = []"
    "\<forall>g<length two_runs. case two_runs ! g of (env, rs) \<Rightarrow>
        ns_tables t (id (RuleNetns rs)) = provisioned_alone log_call env rs []"
    by (auto simp: two_runs_def one_rule_set_def t(2))
  with s t(1) show ?thesis
    by (auto simp: two_runs_def one_rule_set_def All_less_Suc numeral_2_eq_2)
qed

text \<open>
  The error of the return is ignored by the code. When it fails, the thread goes back to the
  scheduler in the namespace of the Pod, and whatever runs on it next runs there.
\<close>

definition stuck_env :: ipt_env where
  "stuck_env = quiet_env\<lparr>setNS_err := \<lambda>h n. if n = OrigNS then Some ''busy'' else None,
     ensureChain_err := \<lambda>h f c. Some ''denied''\<rparr>"

lemma failed_return_leaks_thread:
  "case run_schedule id log_call [(stuck_env, one_rule_set)] (replicate 10 (0, 0))
      (node_start ''host'' (\<lambda>_. []) [(stuck_env, one_rule_set)]) of
     None \<Rightarrow> False
   | Some s \<Rightarrow> todo s 0 = [] \<and> owner s 0 = None \<and> thread_ns s 0 = ''ns''"
  by code_simp

end
