(* ===== verification/Policer.thy ===== *)
theory Policer
  imports Polctrl Isolation Threads
begin

text \<open>
  The policer end to end: from the arrival of a Pod over the API answers and the rule set to the
  tables in the Pod's namespace and the packets they let through.
\<close>

section \<open>Rule sets the code builds\<close>

fun usable :: "fam \<Rightarrow> libs \<Rightarrow> danm_ep list \<Rightarrow> string list" where
  "usable V4 = usable_v4"
| "usable V6 = usable_v6"

fun fam_address :: "fam \<Rightarrow> danm_ep \<Rightarrow> string" where
  "fam_address V4 d = Address (Iface (EpSpec d))"
| "fam_address V6 d = AddressIPv6 (Iface (EpSpec d))"

lemma set_usable_fam:
  "set (usable f lib deps) = {a. a \<in> fam_address f ` set deps \<and> has_address lib a}"
  by (cases f) (simp_all add: set_usable)

lemma NewNetRuleSet_parts:
  assumes "NewNetRuleSet lib ps ds = Inr rs"
  shows "Rules (ingress_chain f rs) = concat (map (ingress_of (usable f) lib ds) ps)"
    and "Rules (egress_chain f rs) = concat (map (egress_of (usable f) lib ds) ps)"
    and "well_named rs"
proof -
  let ?rs = "\<lambda>ns.
      \<lparr>IngressV4Chain = \<lparr>ChainName = IngressV4ChainName, Rules = concat (map (ingress_of usable_v4 lib ds) ps)\<rparr>,
       IngressV6Chain = \<lparr>ChainName = IngressV6ChainName, Rules = concat (map (ingress_of usable_v6 lib ds) ps)\<rparr>,
       EgressV4Chain = \<lparr>ChainName = EgressV4ChainName, Rules = concat (map (egress_of usable_v4 lib ds) ps)\<rparr>,
       EgressV6Chain = \<lparr>ChainName = EgressV6ChainName, Rules = concat (map (egress_of usable_v6 lib ds) ps)\<rparr>,
       RuleNetns = ns\<rparr>"
  have "\<exists>ns. rs = ?rs ns"
    using assms by (cases "PodEps ds") (auto simp: NewNetRuleSet_def addPolicies_eq add_chain_rules_def
        split: if_splits)
  then obtain ns where rs: "rs = ?rs ns" ..
  show "Rules (ingress_chain f rs) = concat (map (ingress_of (usable f) lib ds) ps)"
    "Rules (egress_chain f rs) = concat (map (egress_of (usable f) lib ds) ps)" "well_named rs"
    unfolding rs by (cases f; simp add: well_named_def)+
qed

lemma parsers_whitelist:
  "r \<in> set (ingress_rules a ports) \<Longrightarrow> Operation r = [] \<and> DestIp r = [] \<and> SourceIp r = host_part a"
  "r \<in> set (egress_rules a ports) \<Longrightarrow> Operation r = [] \<and> SourceIp r = [] \<and> DestIp r = host_part a"
  by (auto simp: ingress_rules_def egress_rules_def zero_rule_def split: if_splits)

lemma NewNetRuleSet_whitelisting:
  assumes "NewNetRuleSet lib ps ds = Inr rs"
  shows "whitelisting (ingress_chain f rs)" and "whitelisting (egress_chain f rs)"
  by (auto simp: whitelisting_def list_all_iff NewNetRuleSet_parts [OF assms] ingress_of_def
      egress_of_def section_rules_def dest!: parsers_whitelist)

text \<open>
  These are the tables of a Pod also when its run was interleaved with those of other Pods: a run
  that is done on a node has left what it leaves alone.
\<close>

lemma applied_succeeding:
  assumes "calls_succeed env"
  shows "applied apply_call env h es k = fold apply_call (filter is_table_call es) k"
proof -
  have "call_ok env h e" if "is_table_call e" for h e
    using assms that by (cases e) (auto simp: calls_succeed_def)
  then show ?thesis by (induction es arbitrary: h k) auto
qed

lemma provisioned_on_node:
  assumes "(node_step resolve apply_call runs)\<^sup>*\<^sup>* (node_start host tabs runs) s"
    and "\<forall>(env, rs) \<in> set runs. \<forall>h. setNS_err env h OrigNS = None"
    and "distinct (host # map (\<lambda>(env, rs). resolve (RuleNetns rs)) runs)"
    and "g < length runs" and "runs ! g = (env, rs)" and "calls_succeed env" and "todo s g = []"
  shows "rules_of (ns_tables s (resolve (RuleNetns rs))) =
    provisioned apply_call rules_of env rs (tabs (resolve (RuleNetns rs)))"
proof -
  have "ns_tables s (resolve (RuleNetns rs)) =
      provisioned_alone apply_call env rs (tabs (resolve (RuleNetns rs)))"
    using concurrent_runs_tables [OF assms(1-4)] assms(5,7) by simp
  then show ?thesis
    by (simp add: provisioned_alone_def provisioned_def after_run_def applied_succeeding [OF assms(6)])
qed

text \<open>The chains of the provisioned tables, for any implementation of the wrapper's contract.\<close>

lemma provisioned_ingress:
  assumes "calls_succeed env" and "filter_table apply_call rules_of" and "fresh (rules_of k)"
    and "NewNetRuleSet lib ps ds = Inr rs"
  shows "accepts (provisioned apply_call rules_of env rs k) f ChainInput (packet_matches pkt) \<longleftrightarrow>
     PktIn pkt = ''lo'' \<or> PktState pkt = ''ESTABLISHED'' \<or> PktState pkt = ''RELATED'' \<or>
     list_ex (rule_matches pkt) (Rules (ingress_chain f rs))"
proof -
  note white = NewNetRuleSet_whitelisting [OF assms(4)]
  have "accepts (provisioned apply_call rules_of env rs k) f ChainInput (packet_matches pkt) \<longleftrightarrow>
      packet_matches pkt [''-i'', ''lo''] \<or> packet_matches pkt established \<or>
      list_ex (\<lambda>r. packet_matches pkt (rule_match r)) (Rules (ingress_chain f rs))"
    by (rule provisioned_input [where m = "packet_matches pkt", OF assms(1-3) NewNetRuleSet_parts(3) [OF assms(4)] white(1)])
      (rule packet_matches_base(1))
  moreover have "list_ex (\<lambda>r. packet_matches pkt (rule_match r)) (Rules (ingress_chain f rs)) =
      list_ex (rule_matches pkt) (Rules (ingress_chain f rs))"
    using white(1) [of f] by (auto simp: whitelisting_def list_all_iff list_ex_iff packet_matches_rule)
  ultimately show ?thesis by (simp add: packet_matches_base)
qed

lemma provisioned_egress:
  assumes "calls_succeed env" and "filter_table apply_call rules_of" and "fresh (rules_of k)"
    and "NewNetRuleSet lib ps ds = Inr rs"
  shows "accepts (provisioned apply_call rules_of env rs k) f ChainOutput (packet_matches pkt) \<longleftrightarrow>
     PktOut pkt = ''lo'' \<or> PktState pkt = ''ESTABLISHED'' \<or> PktState pkt = ''RELATED'' \<or>
     (PktProto pkt = ''tcp'' \<or> PktProto pkt = ''udp'') \<and> PktDport pkt = ''53'' \<and> PktState pkt = ''NEW'' \<or>
     list_ex (rule_matches pkt) (Rules (egress_chain f rs))"
proof -
  note white = NewNetRuleSet_whitelisting [OF assms(4)]
  have "accepts (provisioned apply_call rules_of env rs k) f ChainOutput (packet_matches pkt) \<longleftrightarrow>
      packet_matches pkt [''-o'', ''lo''] \<or> packet_matches pkt established \<or>
      packet_matches pkt (dns ''tcp'') \<or> packet_matches pkt (dns ''udp'') \<or>
      list_ex (\<lambda>r. packet_matches pkt (rule_match r)) (Rules (egress_chain f rs))"
    by (rule provisioned_output [where m = "packet_matches pkt", OF assms(1-3) NewNetRuleSet_parts(3) [OF assms(4)] white(2)])
      (rule packet_matches_base(1))
  moreover have "list_ex (\<lambda>r. packet_matches pkt (rule_match r)) (Rules (egress_chain f rs)) =
      list_ex (rule_matches pkt) (Rules (egress_chain f rs))"
    using white(2) [of f] by (auto simp: whitelisting_def list_all_iff list_ex_iff packet_matches_rule)
  ultimately show ?thesis by (auto simp: packet_matches_base)
qed

section \<open>From addresses to endpoints\<close>

lemma ingress_rule_origin:
  assumes "inj_on ep_uid (set deps)" and "ds = NewDanmEpSet (Inr deps) pod"
    and "NewNetRuleSet lib ps ds = Inr rs" and "r \<in> set (Rules (ingress_chain f rs))"
  shows "\<exists>d. d \<in> whitelisted lib ds ingress_peers ps \<and> has_address lib (fam_address f d) \<and>
     SourceIp r = host_part (fam_address f d)"
proof -
  have "SourceIp r \<in> host_part ` {a. a \<in> fam_address f ` whitelisted lib ds ingress_peers ps \<and> has_address lib a}"
    using assms(4) rule_sources(1) [where usable = "usable f" and addr = "fam_address f" and lib = lib and ps = ps,
        OF assms(1,2) set_usable_fam]
    unfolding NewNetRuleSet_parts(1) [OF assms(3)] by (metis imageI)
  then show ?thesis by blast
qed

lemma egress_rule_origin:
  assumes "inj_on ep_uid (set deps)" and "ds = NewDanmEpSet (Inr deps) pod"
    and "NewNetRuleSet lib ps ds = Inr rs" and "r \<in> set (Rules (egress_chain f rs))"
  shows "\<exists>d. d \<in> whitelisted lib ds egress_peers ps \<and> has_address lib (fam_address f d) \<and>
     DestIp r = host_part (fam_address f d)"
proof -
  have "DestIp r \<in> host_part ` {a. a \<in> fam_address f ` whitelisted lib ds egress_peers ps \<and> has_address lib a}"
    using assms(4) rule_sources(2) [where usable = "usable f" and addr = "fam_address f" and lib = lib and ps = ps,
        OF assms(1,2) set_usable_fam]
    unfolding NewNetRuleSet_parts(2) [OF assms(3)] by (metis imageI)
  then show ?thesis by blast
qed

text \<open>A policy without ports gives each of its addresses a rule without further restriction.\<close>

lemma portless_ingress_rule:
  assumes "inj_on ep_uid (set deps)" and "ds = NewDanmEpSet (Inr deps) pod"
    and "NewNetRuleSet lib ps ds = Inr rs" and "p \<in> set ps" and "ingress_ports p = []"
    and "peer \<in> set (ingress_peers p)" and "d \<in> set (finalDeps lib ds peer)"
    and "has_address lib (fam_address f d)"
  shows "zero_rule\<lparr>SourceIp := host_part (fam_address f d)\<rparr> \<in> set (Rules (ingress_chain f rs))"
proof -
  have "fam_address f d \<in> set (usable f lib (peer_deps lib ds (ingress_peers p)))"
    using assms(6,7,8) unfolding assms(2) set_usable_fam set_peer_deps [OF assms(1)] by blast
  then have "zero_rule\<lparr>SourceIp := host_part (fam_address f d)\<rparr> \<in> set (ingress_of (usable f) lib ds p)"
    by (auto simp: ingress_of_def section_rules_def ingress_rules_def assms(5))
  with assms(4) show ?thesis by (auto simp: NewNetRuleSet_parts(1) [OF assms(3)])
qed

text \<open>A policy with ports gives each of its addresses one rule for each port.\<close>

lemma port_ingress_rule:
  assumes "inj_on ep_uid (set deps)" and "ds = NewDanmEpSet (Inr deps) pod"
    and "NewNetRuleSet lib ps ds = Inr rs" and "p \<in> set ps" and "port \<in> set (ingress_ports p)"
    and "peer \<in> set (ingress_peers p)" and "d \<in> set (finalDeps lib ds peer)"
    and "has_address lib (fam_address f d)"
  shows "zero_rule\<lparr>SourceIp := host_part (fam_address f d), SourcePort := port_string port,
     RuleProtocol := proto_string port\<rparr> \<in> set (Rules (ingress_chain f rs))"
proof -
  have "fam_address f d \<in> set (usable f lib (peer_deps lib ds (ingress_peers p)))"
    using assms(6,7,8) unfolding assms(2) set_usable_fam set_peer_deps [OF assms(1)] by blast
  moreover have "ingress_ports p \<noteq> []" using assms(5) by auto
  ultimately have "zero_rule\<lparr>SourceIp := host_part (fam_address f d), SourcePort := port_string port,
      RuleProtocol := proto_string port\<rparr> \<in> set (ingress_of (usable f) lib ds p)"
    using assms(5) by (auto simp: ingress_of_def section_rules_def ingress_rules_def)
  with assms(4) show ?thesis by (auto simp: NewNetRuleSet_parts(1) [OF assms(3)])
qed

lemma example_fresh: "fresh (id pod_tables)"
  using example_hyps(1) by simp

section \<open>Rules and entries\<close>

text \<open>
  What a run makes of one of its own chains: without rules it leaves the chain as it was; otherwise
  the chain holds one entry for every distinct rule, and RETURN behind them.
\<close>

definition holds_rules :: "net_rule list \<Rightarrow> string list list option \<Rightarrow> string list list option \<Rightarrow> bool" where
  "holds_rules rules before after \<longleftrightarrow>
     (if rules = [] then after = before
      else \<exists>es. after = Some (es @ [createArgsFromRule DefaultReturnRule]) \<and> distinct es \<and>
        set es = createArgsFromRule ` set rules)"

text \<open>What it makes of a built-in chain: entries are added behind, from a fixed list only.\<close>

definition extends_by :: "string list list \<Rightarrow> string list list option \<Rightarrow> string list list option \<Rightarrow> bool" where
  "extends_by allowed before after \<longleftrightarrow>
     (\<exists>old new. before = Some old \<and> after = Some (old @ new) \<and> set new = set allowed - set old)"

lemma extends_by_ensured: "extends_by as (Some r0) (Some (ensured r0 as))"
proof -
  have "set (dedup (\<lambda>a. a) (set r0) as) = set as - set r0"
    using keys_dedup [of "\<lambda>a. a" "set r0" as] by simp
  then show ?thesis unfolding extends_by_def ensured_def by blast
qed

lemma set_whitelist_entries:
  "whitelisting chain \<Longrightarrow>
     createArgsFromRule ` set (Rules chain) = (\<lambda>mt. accept_args mt) ` set (map rule_match (Rules chain))"
  by (auto simp: whitelisting_def list_all_iff image_iff createArgsFromRule_whitelist)

lemma return_not_whitelist:
  assumes "whitelisting chain"
  shows "createArgsFromRule DefaultReturnRule \<notin> createArgsFromRule ` set (Rules chain)"
  unfolding set_whitelist_entries [OF assms]
  by (auto simp: createArgsFromRule_def DefaultReturnRule_def zero_rule_def const_defs append_eq_Cons_conv)

lemma holds_rules_Nil: "holds_rules [] before after \<longleftrightarrow> after = before"
  by (simp add: holds_rules_def)

lemma holds_rules_ensured:
  assumes "whitelisting chain" and "custom_chain (ChainName chain)" and "Rules chain \<noteq> []"
  shows "holds_rules (Rules chain) before (Some (ensured [] (chain_args chain)))"
proof -
  let ?as = "map createArgsFromRule (Rules chain)"
  let ?es = "dedup (\<lambda>a. a) {} ?as"
  have es: "distinct ?es" "set ?es = createArgsFromRule ` set (Rules chain)"
    using distinct_dedup [of "\<lambda>a. a" "{}" ?as] keys_dedup [of "\<lambda>a. a" "{}" ?as] by simp_all
  have "ensured [] (chain_args chain) = ?es @ [createArgsFromRule DefaultReturnRule]"
    using assms return_not_whitelist [OF assms(1)] by (simp add: chain_args_def ensured_def dedup_append)
  with assms(3) es show ?thesis unfolding holds_rules_def by auto
qed

text \<open>
  C8: Every rule becomes an entry, and nothing else does. After a run in which no call failed, each of the
  chains of its own holds exactly one entry for every distinct rule of its rule set and RETURN behind
  them, or is untouched when there is no rule for it; INPUT, OUTPUT and FORWARD keep what they held and
  gain exactly the default rules, and the jump to a chain with rules, that they did not hold; every other
  chain is left alone.
\<close>

theorem rules_become_entries:
  assumes "calls_succeed env" and "filter_table apply_call rules_of" and "builtin_chains (rules_of k)"
    and "NewNetRuleSet lib ps ds = Inr rs"
    and "T = provisioned apply_call rules_of env rs k"
  shows "holds_rules (Rules (ingress_chain f rs)) (rules_of k (f, ingress_name f)) (T (f, ingress_name f)) \<and>
     holds_rules (Rules (egress_chain f rs)) (rules_of k (f, egress_name f)) (T (f, egress_name f)) \<and>
     extends_by ((if Rules (ingress_chain f rs) = [] then [] else [jump_args (ingress_name f)]) @
       chain_args DefaultInputRules) (rules_of k (f, ChainInput)) (T (f, ChainInput)) \<and>
     extends_by ((if Rules (egress_chain f rs) = [] then [] else [jump_args (egress_name f)]) @
       chain_args DefaultOutputRules) (rules_of k (f, ChainOutput)) (T (f, ChainOutput)) \<and>
     extends_by (chain_args DefaultForwardRules) (rules_of k (f, ChainForward)) (T (f, ChainForward)) \<and>
     (\<forall>c. c \<notin> {ingress_name f, egress_name f, ChainInput, ChainOutput, ChainForward} \<longrightarrow>
        T (f, c) = rules_of k (f, c))"
proof -
  note named = NewNetRuleSet_parts(3) [OF assms(4)]
  note white = NewNetRuleSet_whitelisting [OF assms(4)]
  have after: "T (f, c) = fold (chain_step f c) (table_calls rs) (rules_of k (f, c))" for c
    by (simp add: assms(5) provisioned_def after_run_chain [OF assms(1-3)])
  have old: "\<exists>r0. rules_of k (f, c) = Some r0" if "c \<in> {ChainInput, ChainOutput, ChainForward}" for c
    using assms(3) that by (cases f) (auto simp: builtin_chains_def)
  have ingress: "holds_rules (Rules (ingress_chain f rs)) (rules_of k (f, ingress_name f)) (T (f, ingress_name f))"
    using holds_rules_ensured [OF white(1) [of f]] named
    by (cases "Rules (ingress_chain f rs) = []") (simp_all add: after ingress_after holds_rules_Nil)
  have egress: "holds_rules (Rules (egress_chain f rs)) (rules_of k (f, egress_name f)) (T (f, egress_name f))"
    using holds_rules_ensured [OF white(2) [of f]] named
    by (cases "Rules (egress_chain f rs) = []") (simp_all add: after egress_after holds_rules_Nil)
  obtain i0 o0 f0 where built: "rules_of k (f, ChainInput) = Some i0" "rules_of k (f, ChainOutput) = Some o0"
    "rules_of k (f, ChainForward) = Some f0"
    using old [of ChainInput] old [of ChainOutput] old [of ChainForward] by auto
  have others: "T (f, c) = rules_of k (f, c)"
    if "c \<notin> {ingress_name f, egress_name f, ChainInput, ChainOutput, ChainForward}" for c
    using that named by (simp add: after table_calls_other)
  have to_input: "extends_by ((if Rules (ingress_chain f rs) = [] then [] else [jump_args (ingress_name f)]) @
      chain_args DefaultInputRules) (rules_of k (f, ChainInput)) (T (f, ChainInput))"
    unfolding after built input_after [OF named] by (rule extends_by_ensured)
  have to_output: "extends_by ((if Rules (egress_chain f rs) = [] then [] else [jump_args (egress_name f)]) @
      chain_args DefaultOutputRules) (rules_of k (f, ChainOutput)) (T (f, ChainOutput))"
    unfolding after built output_after [OF named] by (rule extends_by_ensured)
  have to_forward: "extends_by (chain_args DefaultForwardRules) (rules_of k (f, ChainForward)) (T (f, ChainForward))"
    unfolding after built forward_after [OF named] by (rule extends_by_ensured)
  show ?thesis
    using others by (intro conjI ingress egress to_input to_output to_forward allI impI)
qed

text \<open>
  Neighbour discovery, which IPv6 needs to reach a peer at all, is neither on the loopback interface
  nor part of a connection (conntrack leaves it untracked), and a solicitation goes to a multicast
  group: unless a rule names that group, the provisioned OUTPUT rejects it. A Pod with rules for an
  IPv6 peer therefore cannot ask for the link address of that peer. IPv4 has no such step, as
  ARP does not pass these tables.
\<close>

theorem neighbour_solicitation_rejected:
  assumes "calls_succeed env" and "filter_table apply_call rules_of" and "fresh (rules_of k)"
    and "NewNetRuleSet lib ps ds = Inr rs"
    and "PktProto pkt = ''ipv6-icmp''" and "PktState pkt = ''UNTRACKED''" and "PktOut pkt \<noteq> ''lo''"
    and "\<And>r. r \<in> set (Rules (egress_chain V6 rs)) \<Longrightarrow> \<not> field_matches (DestIp r) (PktDst pkt)"
  shows "\<not> accepts (provisioned apply_call rules_of env rs k) V6 ChainOutput (packet_matches pkt)"
  using assms(5-8) by (auto simp: provisioned_egress [OF assms(1-4)] list_ex_iff rule_matches_def)

text \<open>The entries of the example Pod.\<close>

lemma rules_become_entries_witness:
  "\<exists>es. provisioned kernel_call id quiet_env example_rules pod_tables (V4, IngressV4ChainName) =
       Some (es @ [createArgsFromRule DefaultReturnRule]) \<and> distinct es \<and>
     set es = createArgsFromRule ` set (Rules (IngressV4Chain example_rules))"
proof -
  have "Rules (IngressV4Chain example_rules) \<noteq> []" by (simp add: example_rules_def)
  with rules_become_entries [where rules_of = id and f = V4, OF quiet_env_succeeds example_hyps(4) _ example_NewNetRuleSet refl,
      of pod_tables] example_hyps(2)
  show ?thesis by (simp add: holds_rules_def)
qed

end
