(* ===== verification/Policyspec.thy ===== *)
theory Policyspec
  imports Policer
begin

text \<open>
  What the policies of a namespace allow, stated over the listed policies and endpoints alone:
  no buckets, no caches, no rules, no chains. The tables the policer leaves in a Pod's namespace
  implement exactly this, whatever else runs on the node; and on plain policies it is what the
  API documents.
\<close>

section \<open>What a policy allows\<close>

definition pod_picks :: "libs \<Rightarrow> label_selector \<Rightarrow> danm_ep \<Rightarrow> bool" where
  "pod_picks lib sel d \<longleftrightarrow> MatchLabels sel \<noteq> [] \<and>
     (case LabelSelectorAsMap lib sel of
        Inl err \<Rightarrow> False
      | Inr es \<Rightarrow> (\<exists>e \<in> set es. \<exists>l \<in> set (Labels (EpMeta d)). fst e @ snd e = fst l @ snd l))"

definition network_picks :: "network_selector list \<Rightarrow> danm_ep \<Rightarrow> bool" where
  "network_picks ns d \<longleftrightarrow>
     (\<exists>n \<in> set ns. SelName n @ kind_or_default (SelType n) =
        NetworkName (EpSpec d) @ kind_or_default (ApiType (EpSpec d)))"

text \<open>A selector of a peer restricts the peer when it finds something, and one of them has to.\<close>

definition peer_picks :: "libs \<Rightarrow> danm_ep list \<Rightarrow> network_policy_peer \<Rightarrow> danm_ep \<Rightarrow> bool" where
  "peer_picks lib deps peer d \<longleftrightarrow>
     (let by_pod = pod_picks lib (PeerPodSelector peer);
          by_network = network_picks (PeerNetworkSelector peer)
      in ((\<exists>x \<in> set deps. by_pod x) \<or> (\<exists>x \<in> set deps. by_network x)) \<and>
         ((\<exists>x \<in> set deps. by_pod x) \<longrightarrow> by_pod d) \<and>
         ((\<exists>x \<in> set deps. by_network x) \<longrightarrow> by_network d))"

definition ports_permit :: "network_policy_port list \<Rightarrow> string \<Rightarrow> string \<Rightarrow> bool" where
  "ports_permit ports proto x \<longleftrightarrow> ports = [] \<or>
     (\<exists>port \<in> set ports. proto_matches (proto_string port) proto \<and> field_matches (port_string port) x)"

definition peers_include ::
  "libs \<Rightarrow> danm_ep list \<Rightarrow> network_policy_peer list \<Rightarrow> fam \<Rightarrow> string \<Rightarrow> bool" where
  "peers_include lib deps peers f address \<longleftrightarrow>
     (\<exists>peer \<in> set peers. \<exists>d \<in> set deps. peer_picks lib deps peer d \<and>
        has_address lib (fam_address f d) \<and> field_matches (host_part (fam_address f d)) address)"

definition ingress_allows ::
  "libs \<Rightarrow> danm_network_policy list \<Rightarrow> danm_ep list \<Rightarrow> pod \<Rightarrow> fam \<Rightarrow> packet \<Rightarrow> bool" where
  "ingress_allows lib pols deps pod f pkt \<longleftrightarrow>
     (\<exists>p \<in> set pols. code_selects lib p pod \<and>
        peers_include lib deps (ingress_peers p) f (PktSrc pkt) \<and>
        ports_permit (ingress_ports p) (PktProto pkt) (PktSport pkt))"

definition egress_allows ::
  "libs \<Rightarrow> danm_network_policy list \<Rightarrow> danm_ep list \<Rightarrow> pod \<Rightarrow> fam \<Rightarrow> packet \<Rightarrow> bool" where
  "egress_allows lib pols deps pod f pkt \<longleftrightarrow>
     (\<exists>p \<in> set pols. code_selects lib p pod \<and>
        peers_include lib deps (egress_peers p) f (PktDst pkt) \<and>
        ports_permit (egress_ports p) (PktProto pkt) (PktDport pkt))"

text \<open>What is let through whatever the policies say.\<close>

definition input_exempt :: "packet \<Rightarrow> bool" where
  "input_exempt pkt \<longleftrightarrow> PktIn pkt = ''lo'' \<or> PktState pkt = ''ESTABLISHED'' \<or> PktState pkt = ''RELATED''"

definition output_exempt :: "packet \<Rightarrow> bool" where
  "output_exempt pkt \<longleftrightarrow> PktOut pkt = ''lo'' \<or> PktState pkt = ''ESTABLISHED'' \<or> PktState pkt = ''RELATED'' \<or>
     (PktProto pkt = ''tcp'' \<or> PktProto pkt = ''udp'') \<and> PktDport pkt = ''53'' \<and> PktState pkt = ''NEW''"

section \<open>The code's selection is this one\<close>

lemma pod_picks_set: "{d \<in> set deps. pod_picks lib sel d} = pod_selected lib deps sel"
  by (cases "LabelSelectorAsMap lib sel") (simp_all add: pod_picks_def pod_selected_def Bex_def)

lemma network_picks_set: "{d \<in> set deps. network_picks ns d} = network_selected deps ns"
  by (auto simp: network_picks_def network_selected_def selectorBucketName_def networkBucketName_def
      kind_or_default_def)

lemma finalDeps_iff_picks:
  assumes "inj_on ep_uid (set deps)"
  shows "d \<in> set (finalDeps lib (NewDanmEpSet (Inr deps) pod) peer) \<longleftrightarrow>
     d \<in> set deps \<and> peer_picks lib deps peer d"
proof -
  let ?P = "{d \<in> set deps. pod_picks lib (PeerPodSelector peer) d}"
  let ?N = "{d \<in> set deps. network_picks (PeerNetworkSelector peer) d}"
  have "d \<in> (if ?P = {} then ?N else if ?N = {} then ?P else ?P \<inter> ?N) \<longleftrightarrow>
      d \<in> set deps \<and> peer_picks lib deps peer d"
    unfolding peer_picks_def Let_def by auto
  then show ?thesis
    unfolding set_finalDeps [OF assms] pod_picks_set network_picks_set .
qed

text \<open>The addresses of a section are those of the endpoints its peers pick.\<close>

lemma addresses_iff_include:
  assumes "inj_on ep_uid (set deps)"
  shows "(\<exists>a \<in> set (usable f lib (peer_deps lib (NewDanmEpSet (Inr deps) pod) peers)).
      field_matches (host_part a) x) \<longleftrightarrow> peers_include lib deps peers f x"
proof -
  have "(\<exists>a \<in> set (usable f lib (peer_deps lib (NewDanmEpSet (Inr deps) pod) peers)).
      field_matches (host_part a) x) \<longleftrightarrow>
    (\<exists>peer \<in> set peers. \<exists>d \<in> set (finalDeps lib (NewDanmEpSet (Inr deps) pod) peer).
      has_address lib (fam_address f d) \<and> field_matches (host_part (fam_address f d)) x)"
    unfolding set_usable_fam set_peer_deps [OF assms] by auto
  then show ?thesis
    unfolding peers_include_def Bex_def finalDeps_iff_picks [OF assms] by blast
qed

lemma ingress_rules_match:
  "list_ex (rule_matches pkt) (ingress_rules a ports) \<longleftrightarrow>
     field_matches (host_part a) (PktSrc pkt) \<and> ports_permit ports (PktProto pkt) (PktSport pkt)"
  by (auto simp: ingress_rules_def rule_matches_def proto_matches_def field_matches_def zero_rule_def ports_permit_def
      list_ex_iff)

lemma egress_rules_match:
  "list_ex (rule_matches pkt) (egress_rules a ports) \<longleftrightarrow>
     field_matches (host_part a) (PktDst pkt) \<and> ports_permit ports (PktProto pkt) (PktDport pkt)"
  by (auto simp: egress_rules_def rule_matches_def proto_matches_def field_matches_def zero_rule_def ports_permit_def
      list_ex_iff)

lemma list_ex_section:
  assumes "\<And>a. list_ex P (rules a ports) \<longleftrightarrow> A a \<and> Q"
  shows "list_ex P (section_rules rules as ports) \<longleftrightarrow> (\<exists>a \<in> set as. A a) \<and> Q"
proof -
  have "list_ex P (section_rules rules as ports) \<longleftrightarrow> (\<exists>a \<in> set as. list_ex P (rules a ports))"
    by (simp add: section_rules_def list_ex_iff)
  then show ?thesis by (simp add: assms)
qed

lemma chain_rules_allow:
  assumes "inj_on pol_uid (set pols)" and "inj_on ep_uid (set deps)"
    and "NewNetRuleSet lib (applicable lib (Inr pols) pod) (NewDanmEpSet (Inr deps) pod) = Inr rs"
  shows "list_ex (rule_matches pkt) (Rules (ingress_chain f rs)) \<longleftrightarrow> ingress_allows lib pols deps pod f pkt"
    and "list_ex (rule_matches pkt) (Rules (egress_chain f rs)) \<longleftrightarrow> egress_allows lib pols deps pod f pkt"
proof -
  have ps: "set (applicable lib (Inr pols) pod) = {p. p \<in> set pols \<and> code_selects lib p pod}"
    unfolding applicable_def by (rule set_applicable [OF assms(1)])
  have ex: "list_ex P (concat (map g (applicable lib (Inr pols) pod))) \<longleftrightarrow>
      (\<exists>p \<in> set pols. code_selects lib p pod \<and> list_ex P (g p))" for P and g :: "_ \<Rightarrow> net_rule list"
    unfolding list_ex_iff set_concat set_map ps by blast
  show "list_ex (rule_matches pkt) (Rules (ingress_chain f rs)) \<longleftrightarrow> ingress_allows lib pols deps pod f pkt"
    unfolding NewNetRuleSet_parts(1) [OF assms(3)] ex ingress_of_def list_ex_section [OF ingress_rules_match]
      addresses_iff_include [OF assms(2)] ingress_allows_def ..
  show "list_ex (rule_matches pkt) (Rules (egress_chain f rs)) \<longleftrightarrow> egress_allows lib pols deps pod f pkt"
    unfolding NewNetRuleSet_parts(2) [OF assms(3)] ex egress_of_def list_ex_section [OF egress_rules_match]
      addresses_iff_include [OF assms(2)] egress_allows_def ..
qed

section \<open>The policies the guide describes\<close>

text \<open>
  The meaning the user guide gives to a policy: that of the Kubernetes NetworkPolicy, whose selectors
  work exactly as upstream, and a network selector beside them. It is stated over all endpoints of
  the cluster and the labels of its namespaces, for the policies of the Pod's namespace.

  A selector holds of labels when each of its entries is one of them and each of its expressions
  holds; one that says nothing holds always.
\<close>

definition requirement_holds :: "label_requirement \<Rightarrow> labels \<Rightarrow> bool" where
  "requirement_holds q ls \<longleftrightarrow>
     (if ReqOperator q = ''In'' then \<exists>v \<in> set (ReqValues q). (ReqKey q, v) \<in> set ls
      else if ReqOperator q = ''NotIn'' then \<forall>v \<in> set (ReqValues q). (ReqKey q, v) \<notin> set ls
      else if ReqOperator q = ''Exists'' then ReqKey q \<in> fst ` set ls
      else if ReqOperator q = ''DoesNotExist'' then ReqKey q \<notin> fst ` set ls
      else False)"

definition selector_holds :: "label_selector \<Rightarrow> labels \<Rightarrow> bool" where
  "selector_holds sel ls \<longleftrightarrow> (\<forall>e \<in> set (MatchLabels sel). e \<in> set ls) \<and>
     (\<forall>q \<in> set (MatchExpressions sel). requirement_holds q ls)"

definition no_selector :: label_selector where
  "no_selector = \<lparr>MatchLabels = [], MatchExpressions = []\<rparr>"

text \<open>
  The selectors of one peer are restrictive. Without a namespace selector a peer means endpoints of the
  policy's own namespace. A network is identified by its name and its API type.
\<close>

definition peer_documented ::
  "(string \<Rightarrow> labels) \<Rightarrow> string \<Rightarrow> network_policy_peer \<Rightarrow> danm_ep \<Rightarrow> bool" where
  "peer_documented ns_labels ns peer d \<longleftrightarrow>
     (if PeerNamespaceSelector peer = no_selector then Namespace (EpMeta d) = ns
      else selector_holds (PeerNamespaceSelector peer) (ns_labels (Namespace (EpMeta d)))) \<and>
     selector_holds (PeerPodSelector peer) (Labels (EpMeta d)) \<and>
     (PeerNetworkSelector peer = [] \<or>
        (\<exists>n \<in> set (PeerNetworkSelector peer). SelName n = NetworkName (EpSpec d) \<and>
           kind_or_default (SelType n) = kind_or_default (ApiType (EpSpec d))))"

text \<open>The peers of a section are additive; a section without peers means everyone.\<close>

definition peers_documented ::
  "libs \<Rightarrow> (string \<Rightarrow> labels) \<Rightarrow> string \<Rightarrow> danm_ep list \<Rightarrow> network_policy_peer list \<Rightarrow> fam \<Rightarrow> string \<Rightarrow> bool" where
  "peers_documented lib ns_labels ns eps peers f address \<longleftrightarrow> peers = [] \<or>
     (\<exists>peer \<in> set peers. \<exists>d \<in> set eps. peer_documented ns_labels ns peer d \<and>
        has_address lib (fam_address f d) \<and> address = host_part (fam_address f d))"

text \<open>
  A port entry without a protocol means TCP, one without a port every port. A number is its decimal
  text, a string is passed on as it is, as the guide has it.
\<close>

fun decimal :: "nat \<Rightarrow> string" where
  "decimal n = (if n < 10 then [char_of (48 + n)] else decimal (n div 10) @ [char_of (48 + n mod 10)])"

declare decimal.simps [simp del]

definition port_text :: "int_or_string \<Rightarrow> string" where
  "port_text p = (case IosType p of IosInt \<Rightarrow> decimal (nat (IntVal p)) | IosString \<Rightarrow> StrVal p)"

definition ports_documented :: "network_policy_port list \<Rightarrow> packet \<Rightarrow> bool" where
  "ports_documented ports pkt \<longleftrightarrow> ports = [] \<or>
     (\<exists>port \<in> set ports.
        PktProto pkt = (case Protocol port of None \<Rightarrow> ''tcp'' | Some proto \<Rightarrow> lower proto) \<and>
        (case Port port of None \<Rightarrow> True | Some p \<Rightarrow> PktDport pkt = port_text p))"

text \<open>
  A policy governs the directions it names; one that names none governs ingress, and egress when it has
  egress sections. A Pod is isolated in a direction when a policy that selects it governs the direction,
  and then the sections of all these policies are additive; otherwise everything is allowed.
\<close>

definition policy_types :: "danm_network_policy \<Rightarrow> string list" where
  "policy_types p =
     (if PolicyTypes (PolSpec p) \<noteq> [] then PolicyTypes (PolSpec p)
      else ''Ingress'' # (if Egress (PolSpec p) = [] then [] else [''Egress'']))"

definition governs :: "danm_network_policy \<Rightarrow> pod \<Rightarrow> string \<Rightarrow> bool" where
  "governs p pod direction \<longleftrightarrow> selector_holds (PodSelector (PolSpec p)) (Labels (PodMeta pod)) \<and>
     direction \<in> set (policy_types p)"

definition ingress_documented ::
  "libs \<Rightarrow> (string \<Rightarrow> labels) \<Rightarrow> danm_ep list \<Rightarrow> danm_network_policy list \<Rightarrow> pod \<Rightarrow> fam \<Rightarrow> packet \<Rightarrow> bool" where
  "ingress_documented lib ns_labels eps pols pod f pkt \<longleftrightarrow>
     (\<forall>p \<in> set pols. \<not> governs p pod ''Ingress'') \<or>
     (\<exists>p \<in> set pols. governs p pod ''Ingress'' \<and>
        (\<exists>i \<in> set (Ingress (PolSpec p)).
           peers_documented lib ns_labels (Namespace (PodMeta pod)) eps (From i) f (PktSrc pkt) \<and>
           ports_documented (IngressPorts i) pkt))"

definition egress_documented ::
  "libs \<Rightarrow> (string \<Rightarrow> labels) \<Rightarrow> danm_ep list \<Rightarrow> danm_network_policy list \<Rightarrow> pod \<Rightarrow> fam \<Rightarrow> packet \<Rightarrow> bool" where
  "egress_documented lib ns_labels eps pols pod f pkt \<longleftrightarrow>
     (\<forall>p \<in> set pols. \<not> governs p pod ''Egress'') \<or>
     (\<exists>p \<in> set pols. governs p pod ''Egress'' \<and>
        (\<exists>e \<in> set (Egress (PolSpec p)).
           peers_documented lib ns_labels (Namespace (PodMeta pod)) eps (To e) f (PktDst pkt) \<and>
           ports_documented (EgressPorts e) pkt))"

section \<open>The policies on which the code means the same\<close>

text \<open>
  A selector with one label, whose concatenation belongs to no other label; a peer without namespace
  selector, whose other selectors find something unless they are left out; in a direction at most one
  section, with peers, and in a direction that the policy governs; no ingress ports, and egress ports
  given as strings with their protocol; and policies that select the Pod for both directions.
\<close>

definition single_label :: "label_selector \<Rightarrow> labels list \<Rightarrow> bool" where
  "single_label sel subjects \<longleftrightarrow> MatchExpressions sel = [] \<and>
     (case MatchLabels sel of
        [e] \<Rightarrow> (\<forall>ls \<in> set subjects. \<forall>l \<in> set ls. fst e @ snd e = fst l @ snd l \<longrightarrow> e = l)
      | _ \<Rightarrow> False)"

definition plain_peer :: "libs \<Rightarrow> danm_ep list \<Rightarrow> network_policy_peer \<Rightarrow> bool" where
  "plain_peer lib deps peer \<longleftrightarrow> PeerNamespaceSelector peer = no_selector \<and>
     (\<forall>n \<in> set (PeerNetworkSelector peer). SelType n = [] \<or> known_kind (SelType n)) \<and>
     (PeerPodSelector peer = no_selector \<and> PeerNetworkSelector peer \<noteq> [] \<or>
      single_label (PeerPodSelector peer) (map (\<lambda>d. Labels (EpMeta d)) deps) \<and>
        (PeerNetworkSelector peer = [] \<or>
           (\<exists>x \<in> set deps. pod_picks lib (PeerPodSelector peer) x) \<and>
           (\<exists>x \<in> set deps. network_picks (PeerNetworkSelector peer) x)))"

definition plain_port :: "network_policy_port \<Rightarrow> bool" where
  "plain_port port \<longleftrightarrow>
     (case (Protocol port, Port port) of
        (Some proto, Some p) \<Rightarrow> proto \<noteq> [] \<and> IosType p = IosString \<and> StrVal p \<noteq> []
      | _ \<Rightarrow> False)"

definition plain_policy :: "libs \<Rightarrow> danm_ep list \<Rightarrow> pod \<Rightarrow> danm_network_policy \<Rightarrow> bool" where
  "plain_policy lib deps pod p \<longleftrightarrow>
     (PodSelector (PolSpec p) = no_selector \<or> single_label (PodSelector (PolSpec p)) [Labels (PodMeta pod)]) \<and>
     length (Ingress (PolSpec p)) \<le> 1 \<and> length (Egress (PolSpec p)) \<le> 1 \<and>
     (\<forall>i \<in> set (Ingress (PolSpec p)). ''Ingress'' \<in> set (policy_types p) \<and>
        From i \<noteq> [] \<and> IngressPorts i = [] \<and> list_all (plain_peer lib deps) (From i)) \<and>
     (\<forall>e \<in> set (Egress (PolSpec p)). ''Egress'' \<in> set (policy_types p) \<and>
        To e \<noteq> [] \<and> list_all plain_port (EgressPorts e) \<and> list_all (plain_peer lib deps) (To e))"

definition plain_policies :: "libs \<Rightarrow> danm_ep list \<Rightarrow> pod \<Rightarrow> danm_network_policy list \<Rightarrow> bool" where
  "plain_policies lib deps pod pols \<longleftrightarrow> (\<forall>p \<in> set pols. plain_policy lib deps pod p) \<and>
     (\<exists>p \<in> set pols. governs p pod ''Ingress'') \<and> (\<exists>p \<in> set pols. governs p pod ''Egress'')"

definition plain_deps :: "libs \<Rightarrow> danm_ep list \<Rightarrow> bool" where
  "plain_deps lib deps \<longleftrightarrow>
     (\<forall>d \<in> set deps. (ApiType (EpSpec d) = [] \<or> known_kind (ApiType (EpSpec d))) \<and>
        list_all (\<lambda>f. has_address lib (fam_address f d) \<longrightarrow> host_part (fam_address f d) \<noteq> []) [V4, V6])"

text \<open>
  What is relied on of the libraries: \<open>LabelSelectorAsMap\<close> turns a selector without expressions into
  the map of its labels, and a listing of the endpoints of a namespace has those of the cluster that
  are in it.
\<close>

definition label_map_law :: "libs \<Rightarrow> bool" where
  "label_map_law lib \<longleftrightarrow> (\<forall>sel. MatchExpressions sel = [] \<longrightarrow>
     (\<exists>es. LabelSelectorAsMap lib sel = Inr es \<and> set es = set (MatchLabels sel) \<and>
        length es = length (MatchLabels sel)))"

definition listed_in :: "string \<Rightarrow> danm_ep list \<Rightarrow> danm_ep list \<Rightarrow> bool" where
  "listed_in ns eps deps \<longleftrightarrow> set deps = {d \<in> set eps. Namespace (EpMeta d) = ns}"

lemma known_kind_or_default:
  "k = [] \<or> known_kind k \<Longrightarrow> known_kind (kind_or_default k)"
  by (auto simp: kind_or_default_def known_kind_def const_defs)

lemma no_selector_simps [simp]:
  "MatchLabels no_selector = []" "MatchExpressions no_selector = []" "selector_holds no_selector ls"
  by (simp_all add: no_selector_def selector_holds_def)

lemma label_map_none: "label_map_law lib \<Longrightarrow> LabelSelectorAsMap lib no_selector = Inr []"
  unfolding label_map_law_def using no_selector_simps(1,2) by (metis length_0_conv)

lemma single_label_picks:
  assumes "label_map_law lib" and "single_label sel subjects" and "ls \<in> set subjects"
  obtains e where "MatchLabels sel = [e]" and "LabelSelectorAsMap lib sel = Inr [e]"
    and "(\<exists>l \<in> set ls. fst e @ snd e = fst l @ snd l) \<longleftrightarrow> selector_holds sel ls"
proof -
  from assms(2) obtain e where e: "MatchLabels sel = [e]" "MatchExpressions sel = []"
    "\<forall>ls \<in> set subjects. \<forall>l \<in> set ls. fst e @ snd e = fst l @ snd l \<longrightarrow> e = l"
    by (auto simp: single_label_def split: list.splits)
  from assms(1) e(1,2) obtain es where "LabelSelectorAsMap lib sel = Inr es" "set es = {e}" "length es = 1"
    unfolding label_map_law_def by fastforce
  then have "LabelSelectorAsMap lib sel = Inr [e]" by (cases es) auto
  moreover have "(\<exists>l \<in> set ls. fst e @ snd e = fst l @ snd l) \<longleftrightarrow> selector_holds sel ls"
    using e assms(3) by (auto simp: selector_holds_def)
  ultimately show ?thesis using e(1) that by blast
qed

lemma plain_pod_picks:
  assumes "label_map_law lib" and "single_label sel (map (\<lambda>d. Labels (EpMeta d)) deps)" and "d \<in> set deps"
  shows "pod_picks lib sel d \<longleftrightarrow> selector_holds sel (Labels (EpMeta d))"
proof -
  have "Labels (EpMeta d) \<in> set (map (\<lambda>d. Labels (EpMeta d)) deps)" using assms(3) by simp
  from assms(1,2) this obtain e where "MatchLabels sel = [e]" "LabelSelectorAsMap lib sel = Inr [e]"
    "(\<exists>l \<in> set (Labels (EpMeta d)). fst e @ snd e = fst l @ snd l) \<longleftrightarrow> selector_holds sel (Labels (EpMeta d))"
    by (rule single_label_picks)
  then show ?thesis by (simp add: pod_picks_def)
qed

lemma plain_network_picks:
  assumes "\<forall>n \<in> set ns. SelType n = [] \<or> known_kind (SelType n)"
    and "ApiType (EpSpec d) = [] \<or> known_kind (ApiType (EpSpec d))"
  shows "network_picks ns d \<longleftrightarrow> (\<exists>n \<in> set ns. SelName n = NetworkName (EpSpec d) \<and>
     kind_or_default (SelType n) = kind_or_default (ApiType (EpSpec d)))"
  unfolding network_picks_def
  using assms kind_concat_inj known_kind_or_default by metis

lemma plain_peer_picks:
  assumes "label_map_law lib" and "plain_deps lib deps" and "plain_peer lib deps peer" and "d \<in> set deps"
    and "Namespace (EpMeta d) = ns"
  shows "peer_picks lib deps peer d \<longleftrightarrow> peer_documented ns_labels ns peer d"
proof -
  let ?sel = "PeerPodSelector peer" and ?ns = "PeerNetworkSelector peer"
  have kinds: "ApiType (EpSpec d) = [] \<or> known_kind (ApiType (EpSpec d))"
    "\<forall>n \<in> set ?ns. SelType n = [] \<or> known_kind (SelType n)"
    using assms by (simp_all add: plain_deps_def plain_peer_def)
  note net = plain_network_picks [OF kinds(2,1)]
  have here: "PeerNamespaceSelector peer = no_selector" using assms(3) by (simp add: plain_peer_def)
  have none: "\<not> pod_picks lib no_selector x" "?ns = [] \<Longrightarrow> \<not> network_picks ?ns x" for x
    by (simp_all add: pod_picks_def network_picks_def)
  consider (network) "?sel = no_selector" "?ns \<noteq> []"
    | (pod) "single_label ?sel (map (\<lambda>d. Labels (EpMeta d)) deps)" "?ns = []"
    | (both) "single_label ?sel (map (\<lambda>d. Labels (EpMeta d)) deps)" "?ns \<noteq> []"
        "\<exists>x \<in> set deps. pod_picks lib ?sel x" "\<exists>x \<in> set deps. network_picks ?ns x"
    using assms(3) by (auto simp: plain_peer_def)
  then show ?thesis
  proof cases
    case network
    then have "peer_picks lib deps peer d \<longleftrightarrow> network_picks ?ns d"
      using assms(4) none(1) unfolding peer_picks_def Let_def by auto
    with network here net assms(5) show ?thesis by (simp add: peer_documented_def)
  next
    case pod
    have "peer_picks lib deps peer d \<longleftrightarrow> pod_picks lib ?sel d"
      using assms(4) none(2) [OF pod(2)] unfolding peer_picks_def Let_def by blast
    with plain_pod_picks [OF assms(1) pod(1) assms(4)] pod here assms(5) show ?thesis
      by (simp add: peer_documented_def)
  next
    case both
    have "peer_picks lib deps peer d \<longleftrightarrow> pod_picks lib ?sel d \<and> network_picks ?ns d"
      using both(3,4) unfolding peer_picks_def Let_def by blast
    with plain_pod_picks [OF assms(1) both(1) assms(4)] both here net assms(5) show ?thesis
      by (simp add: peer_documented_def)
  qed
qed

lemma plain_peers_include:
  assumes "label_map_law lib" and "listed_in ns eps deps" and "plain_deps lib deps"
    and "list_all (plain_peer lib deps) peers" and "peers \<noteq> []"
  shows "peers_include lib deps peers f x \<longleftrightarrow> peers_documented lib ns_labels ns eps peers f x"
proof -
  have own: "peer_documented ns_labels ns peer d \<Longrightarrow> Namespace (EpMeta d) = ns" if "peer \<in> set peers" for peer d
    using assms(4) that by (simp add: list_all_iff plain_peer_def peer_documented_def)
  have "(peer_picks lib deps peer d \<and> has_address lib (fam_address f d) \<and>
      field_matches (host_part (fam_address f d)) x) \<longleftrightarrow>
    (peer_documented ns_labels ns peer d \<and> has_address lib (fam_address f d) \<and> x = host_part (fam_address f d))"
    if "peer \<in> set peers" "d \<in> set deps" for peer d
  proof -
    have "has_address lib (fam_address f d) \<longrightarrow> host_part (fam_address f d) \<noteq> []"
      using assms(3) that(2) by (cases f) (auto simp: plain_deps_def)
    moreover have "plain_peer lib deps peer" using assms(4) that(1) by (simp add: list_all_iff)
    moreover have "Namespace (EpMeta d) = ns" using assms(2) that(2) by (simp add: listed_in_def)
    ultimately show ?thesis
      using plain_peer_picks [OF assms(1,3) _ that(2)] by (auto simp: field_matches_def)
  qed
  moreover have "d \<in> set deps \<longleftrightarrow> d \<in> set eps \<and> Namespace (EpMeta d) = ns" for d
    using assms(2) by (simp add: listed_in_def)
  ultimately show ?thesis
    using own assms(5) unfolding peers_include_def peers_documented_def by blast
qed

lemma plain_selects:
  assumes "label_map_law lib" and "plain_policy lib deps pod p"
  shows "code_selects lib p pod \<longleftrightarrow> selector_holds (PodSelector (PolSpec p)) (Labels (PodMeta pod))"
proof (cases "PodSelector (PolSpec p) = no_selector")
  case True
  then show ?thesis by (simp add: code_selects_def label_map_none [OF assms(1)])
next
  case False
  with assms(2) have "single_label (PodSelector (PolSpec p)) [Labels (PodMeta pod)]"
    by (simp add: plain_policy_def)
  from assms(1) this obtain e where "LabelSelectorAsMap lib (PodSelector (PolSpec p)) = Inr [e]"
    "(\<exists>l \<in> set (Labels (PodMeta pod)). fst e @ snd e = fst l @ snd l) \<longleftrightarrow>
      selector_holds (PodSelector (PolSpec p)) (Labels (PodMeta pod))"
    by (rule single_label_picks) simp_all
  then show ?thesis by (simp add: code_selects_def list_ex_iff)
qed

lemma plain_ports:
  assumes "list_all plain_port ports"
  shows "ports_permit ports (PktProto pkt) (PktDport pkt) \<longleftrightarrow> ports_documented ports pkt"
proof -
  have "(proto_matches (proto_string port) (PktProto pkt) \<and> field_matches (port_string port) (PktDport pkt)) \<longleftrightarrow>
      PktProto pkt = (case Protocol port of None \<Rightarrow> ''tcp'' | Some proto \<Rightarrow> lower proto) \<and>
      (case Port port of None \<Rightarrow> True | Some p \<Rightarrow> PktDport pkt = port_text p)" if "port \<in> set ports" for port
    using assms that by (auto simp: list_all_iff plain_port_def proto_matches_def field_matches_def proto_string_def
        port_string_def port_text_def split: option.splits)
  then show ?thesis unfolding ports_permit_def ports_documented_def by blast
qed

lemma at_most_one: "length xs \<le> 1 \<Longrightarrow> xs = [] \<or> (\<exists>x. xs = [x])"
  by (cases xs) auto

lemma plain_ingress:
  assumes "label_map_law lib" and "listed_in ns eps deps" and "plain_deps lib deps" and "plain_policy lib deps pod p"
  shows "peers_include lib deps (ingress_peers p) f (PktSrc pkt) \<and>
      ports_permit (ingress_ports p) (PktProto pkt) (PktSport pkt) \<longleftrightarrow>
    ''Ingress'' \<in> set (policy_types p) \<and>
      (\<exists>i \<in> set (Ingress (PolSpec p)). peers_documented lib ns_labels ns eps (From i) f (PktSrc pkt) \<and>
         ports_documented (IngressPorts i) pkt)"
proof -
  have "length (Ingress (PolSpec p)) \<le> 1" using assms(4) by (simp add: plain_policy_def)
  from at_most_one [OF this] show ?thesis
  proof (elim disjE exE)
    fix i
    assume i: "Ingress (PolSpec p) = [i]"
    with assms(4) have "IngressPorts i = []" "list_all (plain_peer lib deps) (From i)" "From i \<noteq> []"
      "''Ingress'' \<in> set (policy_types p)"
      by (simp_all add: plain_policy_def)
    with i plain_peers_include [OF assms(1-3)] show ?thesis
      by (simp add: ingress_peers_def ingress_ports_def ports_permit_def ports_documented_def)
  qed (simp_all add: ingress_peers_def peers_include_def)
qed

lemma plain_egress:
  assumes "label_map_law lib" and "listed_in ns eps deps" and "plain_deps lib deps" and "plain_policy lib deps pod p"
  shows "peers_include lib deps (egress_peers p) f (PktDst pkt) \<and>
      ports_permit (egress_ports p) (PktProto pkt) (PktDport pkt) \<longleftrightarrow>
    ''Egress'' \<in> set (policy_types p) \<and>
      (\<exists>e \<in> set (Egress (PolSpec p)). peers_documented lib ns_labels ns eps (To e) f (PktDst pkt) \<and>
         ports_documented (EgressPorts e) pkt)"
proof -
  have "length (Egress (PolSpec p)) \<le> 1" using assms(4) by (simp add: plain_policy_def)
  from at_most_one [OF this] show ?thesis
  proof (elim disjE exE)
    fix e
    assume e: "Egress (PolSpec p) = [e]"
    with assms(4) have "list_all plain_port (EgressPorts e)" "list_all (plain_peer lib deps) (To e)" "To e \<noteq> []"
      "''Egress'' \<in> set (policy_types p)"
      by (simp_all add: plain_policy_def)
    with e plain_peers_include [OF assms(1-3)] plain_ports show ?thesis
      by (simp add: egress_peers_def egress_ports_def)
  qed (simp_all add: egress_peers_def peers_include_def)
qed

section \<open>Where the code departs\<close>

text \<open>
  Policies that govern ingress only leave egress open as documented; the code lets nothing out.
\<close>

lemma ingress_policies_stop_egress:
  assumes "\<forall>p \<in> set pols. ''Egress'' \<notin> set (policy_types p) \<and> Egress (PolSpec p) = []"
  shows "egress_documented lib ns_labels eps pols pod f pkt \<and> \<not> egress_allows lib pols deps pod f pkt"
  using assms by (auto simp: egress_documented_def egress_allows_def governs_def egress_peers_def peers_include_def)

text \<open>A section without peers means everyone as documented, nobody in the code.\<close>

lemma no_peers_allow_nothing:
  "peers_documented lib ns_labels ns eps [] f x \<and> \<not> peers_include lib deps [] f x"
  by (simp add: peers_documented_def peers_include_def)

section \<open>The rules of a run, in the Pod's own namespace\<close>

lemma NewNetRuleSet_netns:
  assumes "NewNetRuleSet lib ps (NewDanmEpSet (Inr deps) pod) = Inr rs"
  shows "\<exists>d \<in> set deps. PodUID (EpSpec d) = UID (PodMeta pod) \<and> RuleNetns rs = Netns (EpSpec d)"
proof -
  let ?eps = "PodEps (NewDanmEpSet (Inr deps) pod)"
  from assms obtain d ds where d: "?eps = d # ds" "RuleNetns rs = Netns (EpSpec d)"
    by (cases ?eps) (auto simp: NewNetRuleSet_def addPolicies_eq split: if_splits)
  from d(1) have "d \<in> set ?eps" by simp
  then have "d \<in> set deps" "PodUID (EpSpec d) = UID (PodMeta pod)" by (simp_all add: PodEps_eq)
  with d(2) show ?thesis by blast
qed

section \<open>The tables of a Pod on a node\<close>

text \<open>
  The tables of a Pod after its run, on a node where other runs are interleaved with it, and what the
  handler listed.
\<close>

lemma node_tables_allow:
  assumes "run_state (AddPod lib api node pod) h = (r, h @ t)" and "SpawnAddRules rs p \<in> set t"
    and "\<And>pols. ListPolicies (Namespace (PodMeta pod)) (Inr pols) \<in> set t \<Longrightarrow> inj_on pol_uid (set pols)"
    and "\<And>deps. ListDanmEps (Namespace (PodMeta pod)) (Inr deps) \<in> set t \<Longrightarrow> inj_on ep_uid (set deps)"
    and "(node_step resolve apply_call runs)\<^sup>*\<^sup>* (node_start host tabs runs) s"
    and "\<forall>(env, rs) \<in> set runs. \<forall>h. setNS_err env h OrigNS = None"
    and "distinct (host # map (\<lambda>(env, rs). resolve (RuleNetns rs)) runs)"
    and "g < length runs" and "runs ! g = (env, rs)" and "calls_succeed env" and "todo s g = []"
    and "filter_table apply_call rules_of" and "fresh (rules_of (tabs (resolve (RuleNetns rs))))"
  shows "\<exists>pols deps.
     ListPolicies (Namespace (PodMeta pod)) (Inr pols) \<in> set t \<and>
     ListDanmEps (Namespace (PodMeta pod)) (Inr deps) \<in> set t \<and>
     (\<exists>d \<in> set deps. PodUID (EpSpec d) = UID (PodMeta pod) \<and> RuleNetns rs = Netns (EpSpec d)) \<and>
     (\<forall>f pkt.
        (accepts (rules_of (ns_tables s (resolve (RuleNetns rs)))) f ChainInput (packet_matches pkt) \<longleftrightarrow>
           input_exempt pkt \<or> ingress_allows lib pols deps pod f pkt) \<and>
        (accepts (rules_of (ns_tables s (resolve (RuleNetns rs)))) f ChainOutput (packet_matches pkt) \<longleftrightarrow>
           output_exempt pkt \<or> egress_allows lib pols deps pod f pkt))"
proof -
  obtain pols deps where pd: "ListPolicies (Namespace (PodMeta pod)) (Inr pols) \<in> set t"
    "ListDanmEps (Namespace (PodMeta pod)) (Inr deps) \<in> set t"
    "NewNetRuleSet lib (applicable lib (Inr pols) pod) (NewDanmEpSet (Inr deps) pod) = Inr rs"
    using spawn_justified [OF assms(1,2)] unfolding justified_def by blast
  note tables = provisioned_on_node [where rules_of = rules_of, OF assms(5-11)]
  note allow = chain_rules_allow [OF assms(3) [OF pd(1)] assms(4) [OF pd(2)] pd(3)]
  have "(accepts (rules_of (ns_tables s (resolve (RuleNetns rs)))) f ChainInput (packet_matches pkt) \<longleftrightarrow>
         input_exempt pkt \<or> ingress_allows lib pols deps pod f pkt) \<and>
      (accepts (rules_of (ns_tables s (resolve (RuleNetns rs)))) f ChainOutput (packet_matches pkt) \<longleftrightarrow>
         output_exempt pkt \<or> egress_allows lib pols deps pod f pkt)" for f pkt
    unfolding tables provisioned_ingress [OF assms(10,12,13) pd(3)] provisioned_egress [OF assms(10,12,13) pd(3)]
      allow input_exempt_def output_exempt_def by blast
  with pd(1,2) NewNetRuleSet_netns [OF pd(3)] show ?thesis by blast
qed

lemma plain_allows_documented:
  assumes "label_map_law lib" and "listed_in (Namespace (PodMeta pod)) eps deps" and "plain_deps lib deps"
    and "plain_policies lib deps pod pols"
  shows "ingress_allows lib pols deps pod f pkt \<longleftrightarrow> ingress_documented lib ns_labels eps pols pod f pkt"
    and "egress_allows lib pols deps pod f pkt \<longleftrightarrow> egress_documented lib ns_labels eps pols pod f pkt"
proof -
  have plain: "plain_policy lib deps pod p" if "p \<in> set pols" for p
    using assms(4) that by (simp add: plain_policies_def)
  have selects: "code_selects lib p pod \<longleftrightarrow> selector_holds (PodSelector (PolSpec p)) (Labels (PodMeta pod))"
    if "p \<in> set pols" for p by (rule plain_selects [OF assms(1) plain [OF that]])
  show "ingress_allows lib pols deps pod f pkt \<longleftrightarrow> ingress_documented lib ns_labels eps pols pod f pkt"
    using assms(4) selects plain_ingress [OF assms(1-3) plain]
    unfolding ingress_allows_def ingress_documented_def plain_policies_def governs_def by blast
  show "egress_allows lib pols deps pod f pkt \<longleftrightarrow> egress_documented lib ns_labels eps pols pod f pkt"
    using assms(4) selects plain_egress [OF assms(1-3) plain]
    unfolding egress_allows_def egress_documented_def plain_policies_def governs_def by blast
qed

section \<open>Properties\<close>

text \<open>
  C1: The policer enforces the policies. When the arrival of a Pod starts a provisioner run that, on
  a node where runs for other Pods are interleaved with it in any way, is done without a failed
  call, then the tables in the network namespace of the Pod accept a packet exactly if it is exempt
  or the policies and endpoints the API server listed in that very handler allow it, into the Pod
  and out of it, for both address families.
\<close>

theorem node_enforces_policies:
  assumes "run_state (AddPod lib api node pod) h = (r, h @ t)" and "SpawnAddRules rs p \<in> set t"
    and "\<And>pols. ListPolicies (Namespace (PodMeta pod)) (Inr pols) \<in> set t \<Longrightarrow> inj_on pol_uid (set pols)"
    and "\<And>deps. ListDanmEps (Namespace (PodMeta pod)) (Inr deps) \<in> set t \<Longrightarrow> inj_on ep_uid (set deps)"
    and "(node_step resolve apply_call runs)\<^sup>*\<^sup>* (node_start host tabs runs) s"
    and "\<forall>(env, rs) \<in> set runs. \<forall>h. setNS_err env h OrigNS = None"
    and "distinct (host # map (\<lambda>(env, rs). resolve (RuleNetns rs)) runs)"
    and "g < length runs" and "runs ! g = (env, rs)" and "calls_succeed env" and "todo s g = []"
    and "filter_table apply_call rules_of" and "fresh (rules_of (tabs (resolve (RuleNetns rs))))"
  shows "\<exists>pols deps.
     ListPolicies (Namespace (PodMeta pod)) (Inr pols) \<in> set t \<and>
     ListDanmEps (Namespace (PodMeta pod)) (Inr deps) \<in> set t \<and>
     (\<exists>d \<in> set deps. PodUID (EpSpec d) = UID (PodMeta pod) \<and> RuleNetns rs = Netns (EpSpec d)) \<and>
     (\<forall>f pkt.
        (accepts (rules_of (ns_tables s (resolve (RuleNetns rs)))) f ChainInput (packet_matches pkt) \<longleftrightarrow>
           input_exempt pkt \<or> ingress_allows lib pols deps pod f pkt) \<and>
        (accepts (rules_of (ns_tables s (resolve (RuleNetns rs)))) f ChainOutput (packet_matches pkt) \<longleftrightarrow>
           output_exempt pkt \<or> egress_allows lib pols deps pod f pkt))"
  by (rule node_tables_allow [OF assms])


section \<open>The properties at concrete inputs\<close>

text \<open>A Pod alone on its node, its run done.\<close>

definition lone_run :: "net_rule_set \<Rightarrow> run_spec list" where
  "lone_run rs = [(quiet_env, rs)]"

lemma lone_run_hyps:
  "\<forall>(env, rs) \<in> set (lone_run rs). \<forall>h. setNS_err env h OrigNS = None"
  "RuleNetns rs \<noteq> ''host'' \<Longrightarrow> distinct (''host'' # map (\<lambda>(env, rs). id (RuleNetns rs)) (lone_run rs))"
  "0 < length (lone_run rs)" "lone_run rs ! 0 = (quiet_env, rs)"
  by (simp_all add: lone_run_def quiet_env_def)

lemma lone_run_done:
  assumes "RuleNetns rs \<noteq> ''host''"
  obtains s where "(node_step id kernel_call (lone_run rs))\<^sup>*\<^sup>* (node_start ''host'' (\<lambda>_. pod_tables) (lone_run rs)) s"
    and "todo s 0 = []"
  using runs_can_finish [OF concurrent_runs_inv [where resolve = id and apply_call = kernel_call and
      tabs = "\<lambda>_. pod_tables", OF rtranclp.rtrancl_refl lone_run_hyps(1) lone_run_hyps(2) [OF assms]]] by blast

lemma lone_run_fresh: "fresh (id ((\<lambda>_ :: string. pod_tables) x))"
  using example_fresh by simp

lemma example_netns: "RuleNetns example_rules \<noteq> ''host''" "RuleNetns example_rules = ''/proc/1/ns/net''"
  by (simp_all add: example_rules_def)

lemma example_answers:
  assumes "t = [ListPolicies ''ns'' (Inr example_policies), ListDanmEps ''ns'' (Inr example_deps),
      SpawnAddRules example_rules example_pod]"
  shows "SpawnAddRules example_rules example_pod \<in> set t"
    and "ListPolicies (Namespace (PodMeta example_pod)) (Inr pols) \<in> set t \<longleftrightarrow> pols = example_policies"
    and "ListDanmEps (Namespace (PodMeta example_pod)) (Inr deps) \<in> set t \<longleftrightarrow> deps = example_deps"
  by (auto simp: assms example_pod_def)

lemma example_policies_inj: "inj_on pol_uid (set example_policies)"
  by (simp add: example_policies_def)

lemma node_enforces_policies_witness:
  "\<exists>s. (node_step id kernel_call (lone_run example_rules))\<^sup>*\<^sup>*
       (node_start ''host'' (\<lambda>_. pod_tables) (lone_run example_rules)) s \<and>
     (\<forall>pkt. accepts (ns_tables s ''/proc/1/ns/net'') V4 ChainInput (packet_matches pkt) \<longleftrightarrow>
        input_exempt pkt \<or> ingress_allows example_lib example_policies example_deps example_pod V4 pkt)"
proof -
  obtain s where s: "(node_step id kernel_call (lone_run example_rules))\<^sup>*\<^sup>*
      (node_start ''host'' (\<lambda>_. pod_tables) (lone_run example_rules)) s" "todo s 0 = []"
    by (rule lone_run_done [OF example_netns(1)])
  have "\<forall>pkt. accepts (id (ns_tables s (id (RuleNetns example_rules)))) V4 ChainInput (packet_matches pkt) \<longleftrightarrow>
      input_exempt pkt \<or> ingress_allows example_lib example_policies example_deps example_pod V4 pkt"
    using node_enforces_policies [where rules_of = id, OF example_AddPod example_answers(1) [OF refl] _ _ s(1)
        lone_run_hyps(1) lone_run_hyps(2) [OF example_netns(1)] lone_run_hyps(3,4) quiet_env_succeeds s(2)
        example_hyps(4) lone_run_fresh] example_inj example_policies_inj
    unfolding example_answers(2,3) [OF refl] by blast
  then show ?thesis using s(1) by (auto simp: example_netns(2))
qed

text \<open>
  A policy for both directions: the web endpoints may reach the Pod, and it may reach port 80 of the
  endpoints on the network blue. The cluster has an endpoint in another namespace, too.
\<close>

definition plain_example :: danm_network_policy where
  "plain_example = \<lparr>PolTypeMeta = \<lparr>Kind = [], APIVersion = []\<rparr>,
     PolMeta = \<lparr>Name = ''p'', Namespace = ''ns'', UID = ''p'', Labels = [], ResourceVersion = []\<rparr>,
     PolSpec = \<lparr>PodSelector = \<lparr>MatchLabels = [], MatchExpressions = []\<rparr>,
       Ingress = [\<lparr>IngressPorts = [], From = [example_peer [(''app'', ''web'')] []]\<rparr>],
       Egress = [\<lparr>EgressPorts = [\<lparr>Protocol = Some ''TCP'', Port = Some \<lparr>IosType = IosString, IntVal = 0, StrVal = ''80''\<rparr>\<rparr>],
         To = [example_peer [] [\<lparr>SelName = ''blue'', SelType = []\<rparr>]]\<rparr>],
       PolicyTypes = [''Ingress'', ''Egress'']\<rparr>\<rparr>"

definition plain_rules :: net_rule_set where
  "plain_rules =
     \<lparr>IngressV4Chain = \<lparr>ChainName = IngressV4ChainName,
        Rules = [zero_rule\<lparr>SourceIp := ''10.0.0.1''\<rparr>, zero_rule\<lparr>SourceIp := ''10.0.1.1''\<rparr>]\<rparr>,
      IngressV6Chain = \<lparr>ChainName = IngressV6ChainName, Rules = []\<rparr>,
      EgressV4Chain = \<lparr>ChainName = EgressV4ChainName,
        Rules = [zero_rule\<lparr>DestIp := ''10.0.1.1'', DestPort := ''80'', RuleProtocol := ''TCP''\<rparr>,
          zero_rule\<lparr>DestIp := ''10.0.1.2'', DestPort := ''80'', RuleProtocol := ''TCP''\<rparr>]\<rparr>,
      EgressV6Chain = \<lparr>ChainName = EgressV6ChainName, Rules = []\<rparr>,
      RuleNetns = ''/proc/1/ns/net''\<rparr>"

definition plain_cluster :: "danm_ep list" where
  "plain_cluster = (example_ep ''x'' [(''app'', ''web'')] ''red'' ''10.0.0.9/24'')
     \<lparr>EpMeta := \<lparr>Name = ''x'', Namespace = ''other'', UID = ''x'', Labels = [(''app'', ''web'')], ResourceVersion = []\<rparr>\<rparr>
     # example_deps"

lemma plain_applicable:
  "FilterApplicablePolicies (NewPolicySet example_lib (Inr [plain_example])) example_pod = [plain_example]"
  by code_simp

lemma plain_NewNetRuleSet:
  "NewNetRuleSet example_lib [plain_example] (NewDanmEpSet (Inr example_deps) example_pod) = Inr plain_rules"
  by code_simp

lemma plain_example_deps: "plain_deps example_lib example_deps"
  by code_simp

lemma plain_example_policies: "plain_policies example_lib example_deps example_pod [plain_example]"
  by code_simp

lemma plain_listed: "listed_in (Namespace (PodMeta example_pod)) plain_cluster example_deps"
proof -
  have "Namespace (EpMeta d) = ''ns''" if "d \<in> set example_deps" for d
    using that unfolding example_deps_def by (auto simp: example_ep_def)
  then show ?thesis by (auto simp: listed_in_def plain_cluster_def example_pod_def)
qed

lemma plain_inj: "inj_on pol_uid (set [plain_example])"
  by simp

lemma plain_law: "label_map_law example_lib"
  by (simp add: label_map_law_def example_lib_def)

lemma plain_answers:
  assumes "t = [ListPolicies ''ns'' (Inr [plain_example]), ListDanmEps ''ns'' (Inr example_deps),
      SpawnAddRules plain_rules example_pod]"
  shows "SpawnAddRules plain_rules example_pod \<in> set t"
    and "ListPolicies (Namespace (PodMeta example_pod)) (Inr pols) \<in> set t \<longleftrightarrow> pols = [plain_example]"
    and "ListDanmEps (Namespace (PodMeta example_pod)) (Inr deps) \<in> set t \<longleftrightarrow> deps = example_deps"
  by (auto simp: assms example_pod_def)

definition plain_packet :: packet where
  "plain_packet = \<lparr>PktIn = [], PktOut = ''eth0'', PktSrc = ''10.0.0.1'', PktDst = ''10.0.1.2'', PktProto = ''tcp'',
     PktSport = ''40000'', PktDport = ''80'', PktState = ''NEW''\<rparr>"


end
