(* ===== verification/Ipaddr.thy ===== *)
theory Ipaddr
  imports Prelude "HOL-Library.Word"
begin

text \<open>
  What the programs use of Go's package \<open>net\<close> (the release named in the build files, 1.13): the
  byte slices of \<open>net.IP\<close>, \<open>ParseIP\<close>, \<open>ParseCIDR\<close>, masks, and the comparison of addresses
  across their 4-byte and 16-byte forms. A nil slice is the empty list; a mask is a byte list.
\<close>

unbundle bit_operations_syntax

type_synonym byte = "8 word"
type_synonym go_ip = "byte list"

record ip_net =
  NetIP :: go_ip
  NetMask :: "byte list"

section \<open>Forms of an address\<close>

definition v4_prefix :: "byte list" where
  "v4_prefix = [0, 0, 0, 0, 0, 0, 0, 0, 0, 0, 0xff, 0xff]"

definition To4 :: "go_ip \<Rightarrow> go_ip" where
  "To4 ip = (if length ip = 4 then ip
     else if length ip = 16 \<and> take 12 ip = v4_prefix then drop 12 ip else [])"

definition To16 :: "go_ip \<Rightarrow> go_ip" where
  "To16 ip = (if length ip = 4 then v4_prefix @ ip else if length ip = 16 then ip else [])"

definition ip_equal :: "go_ip \<Rightarrow> go_ip \<Rightarrow> bool" where
  "ip_equal ip x =
     (if length ip = length x then ip = x
      else if length ip = 4 \<and> length x = 16 then take 12 x = v4_prefix \<and> ip = drop 12 x
      else if length ip = 16 \<and> length x = 4 then take 12 ip = v4_prefix \<and> drop 12 ip = x
      else False)"

definition valid_ip :: "go_ip \<Rightarrow> bool" where
  "valid_ip ip \<longleftrightarrow> length ip = 4 \<or> length ip = 16"

lemma length_v4_prefix [simp]: "length v4_prefix = 12"
  by (simp add: v4_prefix_def)

lemma length_To16: "valid_ip ip \<Longrightarrow> length (To16 ip) = 16"
  by (auto simp: valid_ip_def To16_def)

lemma To16_16 [simp]: "length ip = 16 \<Longrightarrow> To16 ip = ip"
  by (simp add: To16_def)

text \<open>Two addresses are equal when their 16-byte forms are.\<close>

lemma ip_equal_iff:
  assumes "valid_ip ip" and "valid_ip x"
  shows "ip_equal ip x \<longleftrightarrow> To16 ip = To16 x"
proof -
  have split: "take 12 y = v4_prefix \<and> z = drop 12 y \<longleftrightarrow> y = v4_prefix @ z" for y z :: go_ip
    by (metis append_eq_conv_conj append_take_drop_id length_v4_prefix)
  show ?thesis
    using assms split [of ip x] split [of x ip]
    by (auto simp: valid_ip_def ip_equal_def To16_def)
qed

lemma ip_equal_nil [simp]: "valid_ip x \<Longrightarrow> \<not> ip_equal [] x"
  by (auto simp: valid_ip_def ip_equal_def)

section \<open>Masks\<close>

text \<open>\<open>CIDRMask\<close> for \<open>l\<close> bytes.\<close>

fun cidr_mask :: "nat \<Rightarrow> nat \<Rightarrow> byte list" where
  "cidr_mask n 0 = []"
| "cidr_mask n (Suc l) =
     (if n \<ge> 8 then 0xff # cidr_mask (n - 8) l else NOT (drop_bit n 0xff) # cidr_mask 0 l)"

definition and_bytes :: "byte list \<Rightarrow> byte list \<Rightarrow> byte list" where
  "and_bytes xs ys = map2 (AND) xs ys"

definition ip_mask :: "go_ip \<Rightarrow> byte list \<Rightarrow> go_ip" where
  "ip_mask ip m =
     (let m = (if length m = 16 \<and> length ip = 4 \<and> take 12 m = replicate 12 0xff
               then drop 12 m else m);
          ip = (if length m = 4 \<and> length ip = 16 \<and> take 12 ip = v4_prefix then drop 12 ip else ip)
      in if length ip \<noteq> length m then [] else and_bytes ip m)"

definition network_number_and_mask :: "ip_net \<Rightarrow> (go_ip \<times> byte list) option" where
  "network_number_and_mask n =
     (let ip = (if To4 (NetIP n) \<noteq> [] then To4 (NetIP n) else NetIP n)
      in if length ip \<noteq> 4 \<and> length ip \<noteq> 16 then None
         else if length (NetMask n) = 4 then (if length ip \<noteq> 4 then None else Some (ip, NetMask n))
         else if length (NetMask n) = 16
         then Some (ip, if length ip = 4 then drop 12 (NetMask n) else NetMask n)
         else None)"

definition net_contains :: "ip_net \<Rightarrow> go_ip \<Rightarrow> bool" where
  "net_contains n ip =
     (let (nn, m) = (case network_number_and_mask n of None \<Rightarrow> ([], []) | Some p \<Rightarrow> p);
          x = (if To4 ip \<noteq> [] then To4 ip else ip)
      in length x = length nn \<and> and_bytes nn m = and_bytes x m)"

section \<open>Parsing\<close>

definition big :: nat where "big = 0xFFFFFF"

definition digit_value :: "char \<Rightarrow> nat option" where
  "digit_value c = (if 48 \<le> (of_char c :: nat) \<and> (of_char c :: nat) \<le> 57 then Some (of_char c - 48) else None)"

definition hex_value :: "char \<Rightarrow> nat option" where
  "hex_value c =
     (if 48 \<le> (of_char c :: nat) \<and> (of_char c :: nat) \<le> 57 then Some (of_char c - 48)
      else if 97 \<le> (of_char c :: nat) \<and> (of_char c :: nat) \<le> 102 then Some (of_char c - 97 + 10)
      else if 65 \<le> (of_char c :: nat) \<and> (of_char c :: nat) \<le> 70 then Some (of_char c - 65 + 10)
      else None)"

text \<open>
  \<open>dtoi\<close> and \<open>xtoi\<close>: the number at the front of the string and the rest behind it; \<open>None\<close> when
  there is no digit or the number is too big.
\<close>

fun read_number :: "(char \<Rightarrow> nat option) \<Rightarrow> nat \<Rightarrow> nat \<Rightarrow> bool \<Rightarrow> string \<Rightarrow> (nat \<times> string) option" where
  "read_number val base n seen [] = (if seen then Some (n, []) else None)"
| "read_number val base n seen (c # cs) =
     (case val c of
        None \<Rightarrow> (if seen then Some (n, c # cs) else None)
      | Some d \<Rightarrow>
          (let n' = n * base + d in if n' \<ge> big then None else read_number val base n' True cs))"

definition dtoi :: "string \<Rightarrow> (nat \<times> string) option" where
  "dtoi s = read_number digit_value 10 0 False s"

definition xtoi :: "string \<Rightarrow> (nat \<times> string) option" where
  "xtoi s = read_number hex_value 16 0 False s"

lemma read_number_shorter:
  "read_number val base n seen s = Some (m, r) \<Longrightarrow> length r \<le> length s \<and> (seen \<or> length r < length s)"
proof (induction s arbitrary: n seen)
  case (Cons c cs)
  show ?case
  proof (cases "val c")
    case None
    with Cons.prems show ?thesis by (auto split: if_splits)
  next
    case (Some d)
    with Cons.prems have "read_number val base (n * base + d) True cs = Some (m, r)"
      by (simp add: Let_def split: if_splits)
    from Cons.IH [OF this] show ?thesis by auto
  qed
qed (auto split: if_splits)

fun parse_octets :: "nat \<Rightarrow> string \<Rightarrow> byte list option" where
  "parse_octets 0 s = (if s = [] then Some [] else None)"
| "parse_octets (Suc k) s =
     (case s of [] \<Rightarrow> None
      | c # cs \<Rightarrow> if c \<noteq> CHR ''.'' then None
          else (case dtoi cs of None \<Rightarrow> None
                | Some (n, r) \<Rightarrow> if n > 0xFF then None
                    else map_option (\<lambda>bs. of_nat n # bs) (parse_octets k r)))"

definition parseIPv4 :: "string \<Rightarrow> go_ip" where
  "parseIPv4 s =
     (case (if s = [] then None else parse_octets 4 (CHR ''.'' # s)) of
        None \<Rightarrow> [] | Some bs \<Rightarrow> v4_prefix @ bs)"

text \<open>
  The loop of \<open>parseIPv6\<close>: the bytes read so far, the position of the ellipsis, and the rest of
  the string. The answer is \<open>None\<close> on a syntax error.
\<close>

function (sequential) parse_groups :: "byte list \<Rightarrow> nat option \<Rightarrow> string \<Rightarrow> (byte list \<times> nat option \<times> string) option" where
  "parse_groups ip ellipsis s =
     (if length ip \<ge> 16 then Some (ip, ellipsis, s)
      else case xtoi s of None \<Rightarrow> None
      | Some (n, r) \<Rightarrow>
          if n > 0xFFFF then None
          else if r \<noteq> [] \<and> hd r = CHR ''.'' then
            (if ellipsis = None \<and> length ip \<noteq> 12 then None
             else if length ip + 4 > 16 then None
             else if parseIPv4 s = [] then None
             else Some (ip @ drop 12 (parseIPv4 s), ellipsis, []))
          else
            (let ip' = ip @ [of_nat (n div 256), of_nat n] in
             case r of [] \<Rightarrow> Some (ip', ellipsis, [])
             | c # r' \<Rightarrow>
                 if c \<noteq> CHR '':'' \<or> r' = [] then None
                 else if hd r' = CHR '':'' then
                   (if ellipsis \<noteq> None then None
                    else if tl r' = [] then Some (ip', Some (length ip'), [])
                    else parse_groups ip' (Some (length ip')) (tl r'))
                 else parse_groups ip' ellipsis r'))"
  by pat_completeness auto
termination
  by (relation "measure (\<lambda>(ip, ellipsis, s). 16 - length ip)") auto

definition parseIPv6 :: "string \<Rightarrow> go_ip" where
  "parseIPv6 s =
     (let lead = (take 2 s = ''::'');
          s' = (if lead then drop 2 s else s)
      in if lead \<and> s' = [] then replicate 16 0
         else case parse_groups [] (if lead then Some 0 else None) s' of
           None \<Rightarrow> []
         | Some (ip, ellipsis, r) \<Rightarrow>
             if r \<noteq> [] then []
             else if length ip < 16 then
               (case ellipsis of None \<Rightarrow> []
                | Some e \<Rightarrow> take e ip @ replicate (16 - length ip) 0 @ drop e ip)
             else if ellipsis \<noteq> None then [] else ip)"

definition ParseIP :: "string \<Rightarrow> go_ip" where
  "ParseIP s =
     (case [c \<leftarrow> s. c = CHR ''.'' \<or> c = CHR '':''] of
        [] \<Rightarrow> []
      | c # _ \<Rightarrow> if c = CHR ''.'' then parseIPv4 s else parseIPv6 s)"

text \<open>\<open>None\<close> is the error; then the address and the net are nil.\<close>

definition ParseCIDR :: "string \<Rightarrow> (go_ip \<times> ip_net) option" where
  "ParseCIDR s =
     (if CHR ''/'' \<notin> set s then None
      else
        (let addr = takeWhile (\<lambda>c. c \<noteq> CHR ''/'') s;
             bits = tl (dropWhile (\<lambda>c. c \<noteq> CHR ''/'') s);
             ip4 = parseIPv4 addr;
             iplen = (if ip4 \<noteq> [] then 4 else 16);
             ip = (if ip4 \<noteq> [] then ip4 else parseIPv6 addr)
         in case dtoi bits of None \<Rightarrow> None
            | Some (n, r) \<Rightarrow>
                if ip = [] \<or> r \<noteq> [] \<or> n > 8 * iplen then None
                else Some (ip, \<lparr>NetIP = ip_mask ip (cidr_mask n iplen), NetMask = cidr_mask n iplen\<rparr>)))"

section \<open>Lengths\<close>

lemma parse_octets_length: "parse_octets k s = Some bs \<Longrightarrow> length bs = k"
  by (induction k s arbitrary: bs rule: parse_octets.induct)
    (auto split: list.splits if_splits option.splits prod.splits)

lemma parseIPv4_length: "parseIPv4 s = [] \<or> length (parseIPv4 s) = 16"
  by (auto simp: parseIPv4_def dest: parse_octets_length split: option.split)

lemma length_cidr_mask [simp]: "length (cidr_mask n l) = l"
  by (induction l arbitrary: n) auto

lemma length_and_bytes [simp]: "length (and_bytes xs ys) = min (length xs) (length ys)"
  by (simp add: and_bytes_def)

lemma parse_groups_length:
  "parse_groups ip ellipsis s = Some (ip', e, r) \<Longrightarrow> length ip \<le> 16 \<Longrightarrow> even (length ip) \<Longrightarrow> length ip' \<le> 16"
proof (induction "16 - length ip" arbitrary: ip ellipsis s rule: less_induct)
  case less
  show ?case
  proof (cases "length ip \<ge> 16")
    case True
    with less.prems show ?thesis by (simp add: parse_groups.simps [of ip])
  next
    case False
    with less.prems(3) have short: "length ip + 2 \<le> 16" by presburger
    obtain n q where x: "xtoi s = Some (n, q)"
      using less.prems(1) False by (cases "xtoi s") (auto simp: parse_groups.simps [of ip])
    have tail: "length (drop 12 (parseIPv4 s)) \<le> 4" using parseIPv4_length [of s] by auto
    have rec: "length ip' \<le> 16" if "parse_groups (ip @ [b, c]) e1 s1 = Some (ip', e, r)" for b c e1 s1
      using less.hyps [of "ip @ [b, c]" e1 s1] that short less.prems(3) by simp
    have "length ip' \<le> 16" if "ip' = ip @ [b, c]" for b c using that short by simp
    moreover have "length ip' \<le> 16" if "ip' = ip @ drop 12 (parseIPv4 s)" "length ip + 4 \<le> 16"
      using that tail by (simp del: length_drop)
    ultimately show ?thesis
      using less.prems(1) unfolding parse_groups.simps [of ip ellipsis s] Let_def
      by (simp only: False x if_False option.case prod.case)
        (auto simp only: not_less split: if_split_asm list.split_asm dest!: rec)
  qed
qed

lemma parseIPv6_length: "parseIPv6 s = [] \<or> length (parseIPv6 s) = 16"
proof -
  define joined where "joined g = (case g of None \<Rightarrow> []
      | Some (ip, ellipsis, r) \<Rightarrow>
          if r \<noteq> [] then []
          else if length ip < 16 then
            (case ellipsis of None \<Rightarrow> []
             | Some e \<Rightarrow> take e ip @ replicate (16 - length ip) 0 @ drop e ip)
          else if ellipsis \<noteq> None then [] else ip)" for g :: "(byte list \<times> nat option \<times> string) option"
  have "joined g = [] \<or> length (joined g) = 16" if "\<And>ip e r. g = Some (ip, e, r) \<Longrightarrow> length ip \<le> 16" for g
  proof (cases g)
    case (Some x)
    obtain ip e r where g: "g = Some (ip, e, r)" using Some by (cases x) auto
    with that have "length ip \<le> 16" by blast
    moreover have "min e' (length ip) + (16 - length ip) + (length ip - e') = 16" if "length ip \<le> 16" for e'
      using that by (simp add: min_def)
    ultimately show ?thesis by (cases e) (auto simp: joined_def g)
  qed (simp add: joined_def)
  moreover have "length ip \<le> 16" if "parse_groups [] e t = Some (ip, e', r)" for e t ip e' r
    using parse_groups_length [OF that] by simp
  ultimately have "joined (parse_groups [] e t) = [] \<or> length (joined (parse_groups [] e t)) = 16" for e t by blast
  then show ?thesis unfolding parseIPv6_def Let_def joined_def by simp
qed

lemma parseIPv4_prefix: "parseIPv4 s \<noteq> [] \<Longrightarrow> take 12 (parseIPv4 s) = v4_prefix"
  unfolding parseIPv4_def by (cases "if s = [] then None else parse_octets 4 (CHR ''.'' # s)") simp_all

lemma ParseIP_valid: "ParseIP s \<noteq> [] \<Longrightarrow> valid_ip (ParseIP s)"
  using parseIPv4_length [of s] parseIPv6_length [of s]
  by (auto simp: ParseIP_def valid_ip_def split: list.splits if_splits)

text \<open>The base address of a range that parses is a valid address.\<close>

lemma ParseCIDR_base_valid:
  assumes "ParseCIDR s = Some (ip, net)"
  shows "valid_ip (ip_mask ip (NetMask net))"
proof -
  let ?addr = "takeWhile (\<lambda>c. c \<noteq> CHR ''/'') s"
  show ?thesis
  proof (cases "parseIPv4 ?addr = []")
    case True
    with assms have "ip = parseIPv6 ?addr" "ip \<noteq> []" "length (NetMask net) = 16"
      by (auto simp: ParseCIDR_def Let_def split: option.splits if_splits)
    with parseIPv6_length [of ?addr] show ?thesis by (auto simp: ip_mask_def valid_ip_def)
  next
    case False
    with assms have ip: "ip = parseIPv4 ?addr" "length (NetMask net) = 4"
      by (auto simp: ParseCIDR_def Let_def split: option.splits if_splits)
    from False have "take 12 ip = v4_prefix" "length ip = 16"
      using parseIPv4_length [of ?addr] parseIPv4_prefix [of ?addr] by (simp_all add: ip)
    with ip(2) show ?thesis by (auto simp: ip_mask_def valid_ip_def)
  qed
qed

section \<open>Evaluation\<close>

lemma cidr_mask_numeral [simp]:
  "cidr_mask n (numeral k) =
     (if n \<ge> 8 then 0xff # cidr_mask (n - 8) (pred_numeral k)
      else NOT (drop_bit n 0xff) # cidr_mask 0 (pred_numeral k))"
  by (simp add: numeral_eq_Suc)

lemma parse_octets_numeral [simp]:
  "parse_octets (numeral k) s =
     (case s of [] \<Rightarrow> None
      | c # cs \<Rightarrow> if c \<noteq> CHR ''.'' then None
          else (case dtoi cs of None \<Rightarrow> None
                | Some (n, r) \<Rightarrow> if n > 0xFF then None
                    else map_option (\<lambda>bs. of_nat n # bs) (parse_octets (pred_numeral k) r)))"
  by (simp add: numeral_eq_Suc)

lemmas dtoi_eval = dtoi_def digit_value_def big_def Let_def

end
