(* ===== verification/Danmep.thy ===== *)
theory Danmep
  imports Poltypes Ipaddr
begin

text \<open>
  \<open>pkg/danmep\<close>: releasing the addresses of a dangling endpoint and deleting it. The services that
  can release an address share the interface \<open>ReleaseIPInterface\<close>, stated here as a locale with
  one interpretation for each of its two implementations.
\<close>

section \<open>External calls of the cleaner\<close>

text \<open>The answer of the Pod lister.\<close>

datatype pod_lookup = PodFound pod | PodNotFound | PodLookupError string

text \<open>
  Work items: the code expects keys, the queue carries any object; of another object only its
  representation in Go syntax (\<open>%#v\<close>) is used.
\<close>

datatype work_item = KeyItem string | OtherItem string

datatype clean_event =
    IpamFree danm_net string "string option"
  | CalicoRelease go_ip "string option"
  | DeleteEp string string "string option"
  | GetEp string string "string option"
  | GetNetwork danm_ep "string + danm_net"
  | GetPod string string pod_lookup
  | FindByPodName string string "string + danm_ep list"
  | CleanSleep nat
  | PodSynced bool
  | QueueGet "work_item option"
  | QueueAdd string
  | QueueForget work_item
  | QueueDone work_item
  | QueueShutDown
  | HandleError string
  | WaitForCacheSync bool
  | SpawnWorker
  | SpawnPeriodicCleanup
  | SpawnCleanupOnTick
  | StartInformers
  | WaitForStop
  | CleanExit int
  | NewTicker nat
  | AwaitTick

text \<open>The answers, as functions of the history; an error is \<open>Some\<close> message.\<close>

record clean_env =
  free_err :: "clean_event list \<Rightarrow> danm_net \<Rightarrow> string \<Rightarrow> string option"
  calicoctl_err :: "clean_event list \<Rightarrow> go_ip \<Rightarrow> string option"
  calicoctl_output :: "clean_event list \<Rightarrow> go_ip \<Rightarrow> string"
  delete_ep_err :: "clean_event list \<Rightarrow> string \<Rightarrow> string \<Rightarrow> string option"
  get_ep_err :: "clean_event list \<Rightarrow> string \<Rightarrow> string \<Rightarrow> string option"
  get_network :: "clean_event list \<Rightarrow> danm_ep \<Rightarrow> string + danm_net"
  get_pod :: "clean_event list \<Rightarrow> string \<Rightarrow> string \<Rightarrow> pod_lookup"
  find_eps :: "clean_event list \<Rightarrow> string \<Rightarrow> string \<Rightarrow> string + danm_ep list"
  pod_synced :: "clean_event list \<Rightarrow> bool"
  cache_synced :: "clean_event list \<Rightarrow> bool"
  queue_get :: "clean_event list \<Rightarrow> work_item option"

text \<open>What is used of DANM's \<open>ipam\<close> package: who allocated an address, and the "none" address.\<close>

record ipam_lib =
  WasIpAllocatedByDanm :: "string \<Rightarrow> string \<Rightarrow> bool"
  IpamNone :: string

section \<open>The release services\<close>

datatype release_service = DanmReleaseIPService | CalicoReleaseIPService

definition GetSupportedReleaseIPHandlers :: "release_service list" where
  "GetSupportedReleaseIPHandlers = [DanmReleaseIPService, CalicoReleaseIPService]"

definition danm_IsIPAllocatedByMe :: "ipam_lib \<Rightarrow> danm_net \<Rightarrow> string \<Rightarrow> bool" where
  "danm_IsIPAllocatedByMe lib dnet ip \<longleftrightarrow>
     WasIpAllocatedByDanm lib ip (Cidr (Options dnet)) \<or>
     WasIpAllocatedByDanm lib ip (Pool6Cidr (Options dnet))"

definition danm_ReleaseIP :: "clean_env \<Rightarrow> danm_net \<Rightarrow> string \<Rightarrow> (clean_event, string option) io" where
  "danm_ReleaseIP env dnet ip = observe (\<lambda>h. free_err env h dnet ip) (IpamFree dnet ip)"

definition calico_IsIPAllocatedByMe :: "ipam_lib \<Rightarrow> danm_net \<Rightarrow> danm_ep \<Rightarrow> string \<Rightarrow> bool" where
  "calico_IsIPAllocatedByMe lib dnet ep ip \<longleftrightarrow>
     ip \<noteq> IpamNone lib \<and> ip \<noteq> [] \<and>
     \<not> WasIpAllocatedByDanm lib ip (Cidr (Options dnet)) \<and>
     \<not> WasIpAllocatedByDanm lib ip (Pool6Cidr (Options dnet)) \<and>
     NetworkType (EpSpec ep) = ''calico''"

text \<open>The address handed to \<open>calicoctl\<close>; nil when neither form parses.\<close>

definition calico_address :: "string \<Rightarrow> go_ip" where
  "calico_address ip =
     (if ParseIP ip = [] then (case ParseCIDR ip of None \<Rightarrow> [] | Some (a, ipnet) \<Rightarrow> a) else ParseIP ip)"

definition calico_ReleaseIP :: "clean_env \<Rightarrow> string \<Rightarrow> (clean_event, string option) io" where
  "calico_ReleaseIP env ip = do {
     let parsedIp = calico_address ip;
     (output, err) \<leftarrow> observe (\<lambda>h. (calicoctl_output env h parsedIp, calicoctl_err env h parsedIp))
       (\<lambda>(output, err). CalicoRelease parsedIp err);
     (case err of
        Some e \<Rightarrow> ret (Some (''could not release calico managed IP '' @ ip @ '', because: '' @ e @
          '' | output: '' @ output))
      | None \<Rightarrow> ret None)
   }"

fun IsIPAllocatedByMe :: "ipam_lib \<Rightarrow> danm_net \<Rightarrow> danm_ep \<Rightarrow> release_service \<Rightarrow> string \<Rightarrow> bool" where
  "IsIPAllocatedByMe lib dnet ep DanmReleaseIPService ip = danm_IsIPAllocatedByMe lib dnet ip"
| "IsIPAllocatedByMe lib dnet ep CalicoReleaseIPService ip = calico_IsIPAllocatedByMe lib dnet ep ip"

fun ReleaseIP :: "clean_env \<Rightarrow> danm_net \<Rightarrow> release_service \<Rightarrow> string \<Rightarrow> (clean_event, string option) io" where
  "ReleaseIP env dnet DanmReleaseIPService ip = danm_ReleaseIP env dnet ip"
| "ReleaseIP env dnet CalicoReleaseIPService ip = calico_ReleaseIP env ip"

fun select_service ::
  "ipam_lib \<Rightarrow> danm_net \<Rightarrow> danm_ep \<Rightarrow> string \<Rightarrow> release_service list \<Rightarrow> release_service option" where
  "select_service lib dnet ep ip [] = None"
| "select_service lib dnet ep ip (service # impls) =
     (if IsIPAllocatedByMe lib dnet ep service ip then Some service
      else select_service lib dnet ep ip impls)"

definition SelectReleaseIpServiceImplementation ::
  "ipam_lib \<Rightarrow> danm_net \<Rightarrow> danm_ep \<Rightarrow> string \<Rightarrow> release_service option" where
  "SelectReleaseIpServiceImplementation lib dnet ep ip =
     select_service lib dnet ep ip GetSupportedReleaseIPHandlers"

section \<open>Deleting an endpoint\<close>

definition DeleteDanmEp ::
  "clean_env \<Rightarrow> ipam_lib \<Rightarrow> danm_ep \<Rightarrow> danm_net \<Rightarrow> (clean_event, string option) io" where
  "DeleteDanmEp env lib ep dnet =
     (case SelectReleaseIpServiceImplementation lib dnet ep (Address (Iface (EpSpec ep))) of
        None \<Rightarrow> ret (Some ''unable to release ipv4 IP because: no releaseIP Service selected'')
      | Some service \<Rightarrow> do {
          err \<leftarrow> ReleaseIP env dnet service (Address (Iface (EpSpec ep)));
          (case err of
             Some e \<Rightarrow> ret (Some (''unable to release ipv4 IP because: '' @ e))
           | None \<Rightarrow>
               (case SelectReleaseIpServiceImplementation lib dnet ep (AddressIPv6 (Iface (EpSpec ep))) of
                  None \<Rightarrow> ret (Some ''unable to release ipv6 IP because: no releaseIP Service selected'')
                | Some service \<Rightarrow> do {
                    err \<leftarrow> ReleaseIP env dnet service (AddressIPv6 (Iface (EpSpec ep)));
                    (case err of
                       Some e \<Rightarrow> ret (Some (''unable to release ipv6 IP because: '' @ e))
                     | None \<Rightarrow> observe (\<lambda>h. delete_ep_err env h (Namespace (EpMeta ep)) (Name (EpMeta ep)))
                         (DeleteEp (Namespace (EpMeta ep)) (Name (EpMeta ep))))
                  }))
        })"

section \<open>The interface of a release service\<close>

text \<open>
  The contract: releasing an address is one external call about that address, and it succeeds
  exactly when the call did.
\<close>

locale release_service_contract =
  fixes release :: "string \<Rightarrow> (clean_event, string option) io"
    and call :: "string \<Rightarrow> string option \<Rightarrow> clean_event"
  assumes one_call: "\<exists>e err. run_state (release ip) h = (err, h @ [call ip e]) \<and> (err = None \<longleftrightarrow> e = None)"
begin

lemma run_release:
  obtains (released) "run_state (release ip) h = (None, h @ [call ip None])"
  | (refused) e m where "run_state (release ip) h = (Some m, h @ [call ip (Some e)])"
proof -
  obtain e err where r: "run_state (release ip) h = (err, h @ [call ip e])" "err = None \<longleftrightarrow> e = None"
    using one_call by blast
  then show ?thesis using released refused by (cases e; cases err) auto
qed

end

interpretation danm_rel: release_service_contract "danm_ReleaseIP env dnet" "IpamFree dnet" for env dnet
  by unfold_locales (simp add: danm_ReleaseIP_def)

interpretation calico_rel: release_service_contract "calico_ReleaseIP env" "\<lambda>ip. CalicoRelease (calico_address ip)"
  for env
  by unfold_locales (simp add: calico_ReleaseIP_def Let_def split: option.split)

text \<open>The call by which a service releases an address.\<close>

fun release_call :: "danm_net \<Rightarrow> release_service \<Rightarrow> string \<Rightarrow> string option \<Rightarrow> clean_event" where
  "release_call dnet DanmReleaseIPService ip e = IpamFree dnet ip e"
| "release_call dnet CalicoReleaseIPService ip e = CalicoRelease (calico_address ip) e"

interpretation any_rel: release_service_contract "ReleaseIP env dnet service" "release_call dnet service"
  for env dnet service
proof
  fix ip h
  show "\<exists>e err. run_state (ReleaseIP env dnet service ip) h = (err, h @ [release_call dnet service ip e]) \<and>
      (err = None \<longleftrightarrow> e = None)"
    using danm_rel.one_call [of env dnet ip h] calico_rel.one_call [of env ip h]
    by (cases service) auto
qed

lemma selected_claims:
  "SelectReleaseIpServiceImplementation lib dnet ep ip = Some s \<Longrightarrow> IsIPAllocatedByMe lib dnet ep s ip"
  by (auto simp: SelectReleaseIpServiceImplementation_def GetSupportedReleaseIPHandlers_def split: if_splits)

text \<open>The five ways of a deletion.\<close>

lemma run_DeleteDanmEp:
  fixes ep :: danm_ep and lib :: ipam_lib and dnet :: danm_net
  defines "a4 \<equiv> Address (Iface (EpSpec ep))" and "a6 \<equiv> AddressIPv6 (Iface (EpSpec ep))"
    and "del \<equiv> DeleteEp (Namespace (EpMeta ep)) (Name (EpMeta ep))"
  defines "select \<equiv> SelectReleaseIpServiceImplementation lib dnet ep"
  obtains (no4) m where "select a4 = None"
      "run_state (DeleteDanmEp env lib ep dnet) h = (Some m, h)"
  | (err4) s e m where "select a4 = Some s"
      "run_state (DeleteDanmEp env lib ep dnet) h = (Some m, h @ [release_call dnet s a4 (Some e)])"
  | (no6) s m where "select a4 = Some s" "select a6 = None"
      "run_state (DeleteDanmEp env lib ep dnet) h = (Some m, h @ [release_call dnet s a4 None])"
  | (err6) s s' e m where "select a4 = Some s" "select a6 = Some s'"
      "run_state (DeleteDanmEp env lib ep dnet) h =
        (Some m, h @ [release_call dnet s a4 None, release_call dnet s' a6 (Some e)])"
  | (tried) s s' err where "select a4 = Some s" "select a6 = Some s'"
      "run_state (DeleteDanmEp env lib ep dnet) h =
        (err, h @ [release_call dnet s a4 None, release_call dnet s' a6 None, del err])"
proof (cases "select a4")
  case None
  then show ?thesis by (intro no4) (simp_all add: DeleteDanmEp_def select_def a4_def)
next
  case (Some s)
  note s = this
  show ?thesis
  proof (rule any_rel.run_release [of env dnet s a4 h])
    fix e m
    assume "run_state (ReleaseIP env dnet s a4) h = (Some m, h @ [release_call dnet s a4 (Some e)])"
    with s show ?thesis by (intro err4) (simp_all add: DeleteDanmEp_def select_def a4_def)
  next
    assume r4: "run_state (ReleaseIP env dnet s a4) h = (None, h @ [release_call dnet s a4 None])"
    show ?thesis
    proof (cases "select a6")
      case None
      with s r4 show ?thesis by (intro no6) (simp_all add: DeleteDanmEp_def select_def a4_def a6_def)
    next
      case (Some s')
      note s' = this
      show ?thesis
      proof (rule any_rel.run_release [of env dnet s' a6 "h @ [release_call dnet s a4 None]"])
        fix e m
        assume "run_state (ReleaseIP env dnet s' a6) (h @ [release_call dnet s a4 None]) =
          (Some m, (h @ [release_call dnet s a4 None]) @ [release_call dnet s' a6 (Some e)])"
        with s s' r4 show ?thesis
          by (intro err6) (simp_all add: DeleteDanmEp_def select_def a4_def a6_def)
      next
        assume "run_state (ReleaseIP env dnet s' a6) (h @ [release_call dnet s a4 None]) =
          (None, (h @ [release_call dnet s a4 None]) @ [release_call dnet s' a6 None])"
        with s s' r4 show ?thesis
          by (intro tried) (simp_all add: DeleteDanmEp_def select_def a4_def a6_def del_def)
      qed
    qed
  qed
qed

section \<open>Properties\<close>

text \<open>
  An endpoint is deleted only after both its addresses were released: when the deletion is
  requested at all, the run is exactly two successful release calls, each by a service that claims
  the address, followed by it.
\<close>

theorem delete_only_after_release:
  assumes "run_state (DeleteDanmEp env lib ep dnet) h = (err, h @ t)" and "DeleteEp ns n e \<in> set t"
  shows "ns = Namespace (EpMeta ep) \<and> n = Name (EpMeta ep) \<and> err = e \<and>
     (\<exists>s4 s6. IsIPAllocatedByMe lib dnet ep s4 (Address (Iface (EpSpec ep))) \<and>
        IsIPAllocatedByMe lib dnet ep s6 (AddressIPv6 (Iface (EpSpec ep))) \<and>
        t = [release_call dnet s4 (Address (Iface (EpSpec ep))) None,
             release_call dnet s6 (AddressIPv6 (Iface (EpSpec ep))) None, DeleteEp ns n e])"
proof -
  have other: "release_call dnet s a e' \<noteq> DeleteEp ns n e" for s a e' by (cases s) simp_all
  show ?thesis
  proof (rule run_DeleteDanmEp [of lib dnet ep env h])
    fix s s' err'
    assume "SelectReleaseIpServiceImplementation lib dnet ep (Address (Iface (EpSpec ep))) = Some s"
      "SelectReleaseIpServiceImplementation lib dnet ep (AddressIPv6 (Iface (EpSpec ep))) = Some s'"
    note claims = this [THEN selected_claims]
    assume "run_state (DeleteDanmEp env lib ep dnet) h = (err', h @
       [release_call dnet s (Address (Iface (EpSpec ep))) None,
        release_call dnet s' (AddressIPv6 (Iface (EpSpec ep))) None,
        DeleteEp (Namespace (EpMeta ep)) (Name (EpMeta ep)) err'])"
    with assms other other [symmetric] have "t = [release_call dnet s (Address (Iface (EpSpec ep))) None,
        release_call dnet s' (AddressIPv6 (Iface (EpSpec ep))) None, DeleteEp ns n e]"
      "ns = Namespace (EpMeta ep)" "n = Name (EpMeta ep)" "err = e" by auto
    with claims show ?thesis by blast
  qed (use assms other other [symmetric] in auto)
qed

text \<open>
  Success means done: a deletion that returns no error released both addresses and deleted the
  endpoint.
\<close>

theorem delete_success_complete:
  assumes "run_state (DeleteDanmEp env lib ep dnet) h = (None, h @ t)"
  shows "\<exists>s4 s6. t = [release_call dnet s4 (Address (Iface (EpSpec ep))) None,
     release_call dnet s6 (AddressIPv6 (Iface (EpSpec ep))) None,
     DeleteEp (Namespace (EpMeta ep)) (Name (EpMeta ep)) None]"
  by (rule run_DeleteDanmEp [of lib dnet ep env h]) (use assms in auto)

text \<open>
  No two services claim the same address, so the order in which they are asked is irrelevant.
\<close>

theorem services_exclusive:
  "\<not> (IsIPAllocatedByMe lib dnet ep DanmReleaseIPService ip \<and>
      IsIPAllocatedByMe lib dnet ep CalicoReleaseIPService ip)"
  by (auto simp: danm_IsIPAllocatedByMe_def calico_IsIPAllocatedByMe_def)

text \<open>
  C28: A missing address blocks the deletion: when an endpoint has no address of one of the families
  (empty or none), its deletion fails with an error and calls nothing but, at most, the release of
  the IPv4 address, however often it is repeated, unless DANM's own library counts the missing address as
  allocated in one of the ranges of the network.
\<close>

theorem missing_address_blocks_deletion:
  assumes "run_state (DeleteDanmEp env lib ep dnet) h = (err, h @ t)"
    and "a \<in> {Address (Iface (EpSpec ep)), AddressIPv6 (Iface (EpSpec ep))}" and "a = [] \<or> a = IpamNone lib"
  shows "WasIpAllocatedByDanm lib a (Cidr (Options dnet)) \<or> WasIpAllocatedByDanm lib a (Pool6Cidr (Options dnet)) \<or>
     err \<noteq> None \<and> (t = [] \<or> (\<exists>s e. t = [release_call dnet s (Address (Iface (EpSpec ep))) e]))"
proof (cases "danm_IsIPAllocatedByMe lib dnet a")
  case False
  then have none: "SelectReleaseIpServiceImplementation lib dnet ep a = None"
    using assms(3) by (auto simp: SelectReleaseIpServiceImplementation_def
        GetSupportedReleaseIPHandlers_def calico_IsIPAllocatedByMe_def)
  have "err \<noteq> None \<and> (t = [] \<or> (\<exists>s e. t = [release_call dnet s (Address (Iface (EpSpec ep))) e]))"
    by (rule run_DeleteDanmEp [of lib dnet ep env h]) (use none assms(1,2) in auto)
  then show ?thesis by blast
next
  case True
  then show ?thesis unfolding danm_IsIPAllocatedByMe_def by blast
qed

section \<open>The properties at concrete inputs\<close>

definition cleaner_ep :: "string \<Rightarrow> string \<Rightarrow> danm_ep" where
  "cleaner_ep a4 a6 =
     \<lparr>EpMeta = \<lparr>Name = ''ep'', Namespace = ''ns'', UID = ''e'', Labels = [], ResourceVersion = []\<rparr>,
      EpSpec = \<lparr>NetworkName = ''net'', NetworkType = ''ipvlan'', ApiType = [], PodName = ''pod'',
        PodUID = ''u'', Netns = [], Iface = \<lparr>IfaceName = ''eth0'', Address = a4, AddressIPv6 = a6\<rparr>\<rparr>\<rparr>"

definition cleaner_net :: danm_net where
  "cleaner_net =
     \<lparr>NetMeta = \<lparr>Name = ''net'', Namespace = ''ns'', UID = ''n'', Labels = [], ResourceVersion = []\<rparr>,
      Options = \<lparr>Alloc = [], Alloc6 = [], Cidr = ''10.0.0.0/24'', PoolStart = [], PoolEnd = [],
        Pool6Cidr = ''fd00::/64'', Pool6Start = [], Pool6End = []\<rparr>\<rparr>"

text \<open>A library in which DANM allocated every non-empty address, and calls that all succeed.\<close>

definition cleaner_lib :: ipam_lib where
  "cleaner_lib = \<lparr>WasIpAllocatedByDanm = \<lambda>ip cidr. ip \<noteq> [], IpamNone = ''none''\<rparr>"

definition willing_env :: clean_env where
  "willing_env = \<lparr>free_err = \<lambda>_ _ _. None, calicoctl_err = \<lambda>_ _. None, calicoctl_output = \<lambda>_ _. [],
     delete_ep_err = \<lambda>_ _ _. None, get_ep_err = \<lambda>_ _ _. None, get_network = \<lambda>_ _. Inr cleaner_net,
     get_pod = \<lambda>_ _ _. PodNotFound, find_eps = \<lambda>_ _ _. Inr [cleaner_ep ''10.0.0.1/24'' ''fd00::1/64''],
     pod_synced = \<lambda>_. False, cache_synced = \<lambda>_. True, queue_get = \<lambda>_. None\<rparr>"

lemma example_delete:
  "run_state (DeleteDanmEp willing_env cleaner_lib (cleaner_ep ''10.0.0.1/24'' ''fd00::1/64'') cleaner_net) [] =
     (None, [] @ [IpamFree cleaner_net ''10.0.0.1/24'' None, IpamFree cleaner_net ''fd00::1/64'' None,
        DeleteEp ''ns'' ''ep'' None])"
  by (simp add: DeleteDanmEp_def SelectReleaseIpServiceImplementation_def
      GetSupportedReleaseIPHandlers_def danm_IsIPAllocatedByMe_def danm_ReleaseIP_def cleaner_ep_def
      cleaner_lib_def willing_env_def)

lemma delete_only_after_release_witness:
  "\<exists>s4 s6. [IpamFree cleaner_net ''10.0.0.1/24'' None, IpamFree cleaner_net ''fd00::1/64'' None,
      DeleteEp ''ns'' ''ep'' None] =
     [release_call cleaner_net s4 ''10.0.0.1/24'' None, release_call cleaner_net s6 ''fd00::1/64'' None,
      DeleteEp ''ns'' ''ep'' None]"
  using delete_only_after_release [OF example_delete, of "''ns''" "''ep''" None]
  by (auto simp: cleaner_ep_def)

lemma delete_success_complete_witness:
  "\<exists>s4 s6. [IpamFree cleaner_net ''10.0.0.1/24'' None, IpamFree cleaner_net ''fd00::1/64'' None,
      DeleteEp ''ns'' ''ep'' None] =
     [release_call cleaner_net s4 ''10.0.0.1/24'' None, release_call cleaner_net s6 ''fd00::1/64'' None,
      DeleteEp ''ns'' ''ep'' None]"
  using delete_success_complete [OF example_delete] by (simp add: cleaner_ep_def)

lemma missing_address_blocks_deletion_witness:
  "\<exists>err t. run_state (DeleteDanmEp willing_env cleaner_lib (cleaner_ep ''10.0.0.1/24'' []) cleaner_net) [] = (err, [] @ t) \<and>
     err \<noteq> None \<and> (t = [] \<or> (\<exists>s e. t = [release_call cleaner_net s ''10.0.0.1/24'' e]))"
proof -
  let ?ep = "cleaner_ep ''10.0.0.1/24'' []"
  obtain err t where run: "run_state (DeleteDanmEp willing_env cleaner_lib ?ep cleaner_net) [] = (err, [] @ t)"
    by fastforce
  have "[] \<in> {Address (Iface (EpSpec ?ep)), AddressIPv6 (Iface (EpSpec ?ep))}" by (simp add: cleaner_ep_def)
  from missing_address_blocks_deletion [OF run this] have
    "err \<noteq> None \<and> (t = [] \<or> (\<exists>s e. t = [release_call cleaner_net s ''10.0.0.1/24'' e]))"
    by (simp add: cleaner_lib_def cleaner_ep_def)
  with run show ?thesis by blast
qed

end
