(* ===== verification/Cleaner.thy ===== *)
theory Cleaner
  imports Danmep
begin

text \<open>
  \<open>pkg/cleaner\<close>: the controller that frees the addresses of endpoints whose Pod is gone. Two
  threads work on the API: the periodic sweep over all endpoints, and the workers of the queue
  the Pod informer fills.
\<close>

section \<open>Deleting one interface\<close>

definition deleteInterface :: "clean_env \<Rightarrow> ipam_lib \<Rightarrow> danm_ep \<Rightarrow> (clean_event, unit) io" where
  "deleteInterface env lib ep = do {
     emit (CleanSleep 1000);
     err \<leftarrow> observe (\<lambda>h. get_ep_err env h (Namespace (EpMeta ep)) (Name (EpMeta ep)))
       (GetEp (Namespace (EpMeta ep)) (Name (EpMeta ep)));
     (if err \<noteq> None then ret ()
      else do {
        netInfo \<leftarrow> observe (\<lambda>h. get_network env h ep) (GetNetwork ep);
        (case netInfo of
           Inl err \<Rightarrow> ret ()
         | Inr dnet \<Rightarrow> do { err \<leftarrow> DeleteDanmEp env lib ep dnet; ret () })
      })
   }"

section \<open>The sweep\<close>

text \<open>A Pod is gone when the lister does not find it, or finds one with another UID.\<close>

definition gone :: "pod_lookup \<Rightarrow> uid \<Rightarrow> bool" where
  "gone answer u \<longleftrightarrow>
     (case answer of PodNotFound \<Rightarrow> True | PodFound pod \<Rightarrow> UID (PodMeta pod) \<noteq> u | PodLookupError e \<Rightarrow> False)"

fun sweep :: "clean_env \<Rightarrow> ipam_lib \<Rightarrow> danm_ep list \<Rightarrow> (uid \<rightharpoonup> bool) \<Rightarrow> (clean_event, unit) io" where
  "sweep env lib [] podCache = ret ()"
| "sweep env lib (dep # danmeps) podCache =
     (case podCache (PodUID (EpSpec dep)) of
        Some doesPodExist \<Rightarrow>
          (if \<not> doesPodExist then do {
             deleteInterface env lib dep;
             sweep env lib danmeps podCache
           } else sweep env lib danmeps podCache)
      | None \<Rightarrow> do {
          answer \<leftarrow> observe (\<lambda>h. get_pod env h (Namespace (EpMeta dep)) (PodName (EpSpec dep)))
            (GetPod (Namespace (EpMeta dep)) (PodName (EpSpec dep)));
          (if gone answer (PodUID (EpSpec dep)) then do {
             deleteInterface env lib dep;
             sweep env lib danmeps (podCache(PodUID (EpSpec dep) \<mapsto> False))
           } else sweep env lib danmeps (podCache(PodUID (EpSpec dep) \<mapsto> True)))
        })"

definition cleanDanglingEps :: "clean_env \<Rightarrow> ipam_lib \<Rightarrow> danm_ep list \<Rightarrow> (clean_event, unit) io" where
  "cleanDanglingEps env lib danmeps = sweep env lib danmeps Map.empty"

text \<open>One tick of the endless loop, and the first \<open>n\<close> of them.\<close>

definition cleanup_tick :: "clean_env \<Rightarrow> ipam_lib \<Rightarrow> (clean_event, unit) io" where
  "cleanup_tick env lib = do {
     danmeps \<leftarrow> observe (\<lambda>h. find_eps env h [] []) (FindByPodName [] []);
     (case danmeps of Inl err \<Rightarrow> ret () | Inr danmeps \<Rightarrow> cleanDanglingEps env lib danmeps)
   }"

fun tick_loop :: "clean_env \<Rightarrow> ipam_lib \<Rightarrow> nat \<Rightarrow> (clean_event, unit) io" where
  "tick_loop env lib 0 = ret ()"
| "tick_loop env lib (Suc n) = do {
     emit AwaitTick;
     cleanup_tick env lib;
     tick_loop env lib n
   }"

definition cleanupOnTick :: "clean_env \<Rightarrow> ipam_lib \<Rightarrow> nat \<Rightarrow> (clean_event, unit) io" where
  "cleanupOnTick env lib n = do { emit (NewTicker 10000); tick_loop env lib n }"

text \<open>
  \<open>PeriodicCleanup\<close> starts the endless loop in a goroutine of its own and waits for the stop
  channel, which the loop never looks at.
\<close>

definition PeriodicCleanup :: "(clean_event, unit) io" where
  "PeriodicCleanup = do { emit SpawnCleanupOnTick; emit WaitForStop }"

section \<open>The work queue\<close>

text \<open>
  What is used of client-go's cache package: the key of an object, and the parts of a key; an
  error is \<open>Inl\<close>. Informers deliver API objects, and tombstones for deletions they missed.
\<close>

datatype informer_obj = MetaObject pod | DeletedFinalStateUnknown string informer_obj | OtherObj

record cache_lib =
  MetaNamespaceKeyFunc :: "informer_obj \<Rightarrow> string + string"
  SplitMetaNamespaceKey :: "string \<Rightarrow> string + string \<times> string"

fun delete_all :: "clean_env \<Rightarrow> ipam_lib \<Rightarrow> danm_ep list \<Rightarrow> (clean_event, unit) io" where
  "delete_all env lib [] = ret ()"
| "delete_all env lib (dep # deps) = do { deleteInterface env lib dep; delete_all env lib deps }"

definition handleKey :: "clean_env \<Rightarrow> ipam_lib \<Rightarrow> cache_lib \<Rightarrow> string \<Rightarrow> (clean_event, string option) io" where
  "handleKey env lib kc key =
     (case SplitMetaNamespaceKey kc key of
        Inl err \<Rightarrow> ret None
      | Inr (ns, name) \<Rightarrow> do {
          deps \<leftarrow> observe (\<lambda>h. find_eps env h name ns) (FindByPodName name ns);
          (case deps of
             Inl err \<Rightarrow> ret (Some err)
           | Inr deps \<Rightarrow> do { delete_all env lib deps; ret None })
        })"

definition processItemInQueue ::
  "clean_env \<Rightarrow> ipam_lib \<Rightarrow> cache_lib \<Rightarrow> work_item \<Rightarrow> (clean_event, string option) io" where
  "processItemInQueue env lib kc obj = do {
     r \<leftarrow> (case obj of
       OtherItem repr \<Rightarrow> do {
         emit (QueueForget obj);
         emit (HandleError (''WARNING: Cannot decode work item from queue because instead string type we got '' @ repr));
         ret None
       }
     | KeyItem key \<Rightarrow> do {
         err \<leftarrow> handleKey env lib kc key;
         (case err of
            Some e \<Rightarrow> ret (Some (''ERROR: could not process item:'' @ key @ '' because:'' @ e))
          | None \<Rightarrow> do { emit (QueueForget obj); ret None })
       });
     emit (QueueDone obj);
     ret r
   }"

text \<open>\<open>None\<close> from the queue is a shutdown.\<close>

definition processNextWorkItem :: "clean_env \<Rightarrow> ipam_lib \<Rightarrow> cache_lib \<Rightarrow> (clean_event, bool) io" where
  "processNextWorkItem env lib kc = do {
     item \<leftarrow> observe (queue_get env) QueueGet;
     (case item of
        None \<Rightarrow> ret False
      | Some obj \<Rightarrow> do {
          err \<leftarrow> processItemInQueue env lib kc obj;
          (case err of None \<Rightarrow> ret () | Some e \<Rightarrow> emit (HandleError e));
          ret True
        })
   }"

text \<open>The loop of a worker with fuel: \<open>False\<close> when the fuel did not suffice.\<close>

fun runWorker :: "clean_env \<Rightarrow> ipam_lib \<Rightarrow> cache_lib \<Rightarrow> nat \<Rightarrow> (clean_event, bool) io" where
  "runWorker env lib kc 0 = ret False"
| "runWorker env lib kc (Suc n) = do {
     more \<leftarrow> processNextWorkItem env lib kc;
     (if more then runWorker env lib kc n else ret True)
   }"

section \<open>Handlers of the Pod informer\<close>

definition isPodRunning :: "pod \<Rightarrow> bool" where
  "isPodRunning pod \<longleftrightarrow> Phase pod = ''Running''"

definition enqueuePod :: "cache_lib \<Rightarrow> informer_obj \<Rightarrow> (clean_event, unit) io" where
  "enqueuePod kc obj =
     (case MetaNamespaceKeyFunc kc obj of Inl err \<Rightarrow> ret () | Inr key \<Rightarrow> emit (QueueAdd key))"

definition updatePod :: "cache_lib \<Rightarrow> pod \<Rightarrow> pod \<Rightarrow> (clean_event, unit) io" where
  "updatePod kc oldPod newPod =
     (if ResourceVersion (PodMeta oldPod) = ResourceVersion (PodMeta newPod) then ret ()
      else if \<not> isPodRunning newPod \<and> isPodRunning oldPod then enqueuePod kc (MetaObject newPod)
      else ret ())"

fun delPod :: "cache_lib \<Rightarrow> informer_obj \<Rightarrow> (clean_event, unit) io" where
  "delPod kc (MetaObject pod) = enqueuePod kc (MetaObject pod)"
| "delPod kc (DeletedFinalStateUnknown key (MetaObject pod)) =
     enqueuePod kc (DeletedFinalStateUnknown key (MetaObject pod))"
| "delPod kc (DeletedFinalStateUnknown key other) = ret ()"
| "delPod kc OtherObj = ret ()"

section \<open>Start and stop\<close>

text \<open>The polling loop, over the timer in milliseconds.\<close>

function pollSynced :: "clean_env \<Rightarrow> nat \<Rightarrow> (clean_event, unit) io" where
  "pollSynced env timer =
     (if timer \<le> 10000 then do {
        synced \<leftarrow> observe (pod_synced env) PodSynced;
        (if synced then ret ()
         else do { emit (CleanSleep 100); pollSynced env (timer + 100) })
      }
      else ret ())"
  by pat_completeness auto
termination by (relation "measure (\<lambda>(env, timer). 10001 - timer)") auto

declare pollSynced.simps [simp del]

text \<open>
  The cleaner with the handlers it registers on the Pod informer; it has none for new Pods. The
  clients, the lister and the queue are the environment.
\<close>

record cleaner =
  Initialized :: bool
  OnAdd :: "(pod \<Rightarrow> (clean_event, unit) io) option"
  OnUpdate :: "(pod \<Rightarrow> pod \<Rightarrow> (clean_event, unit) io) option"
  OnDelete :: "(informer_obj \<Rightarrow> (clean_event, unit) io) option"

definition NewCleaner :: "cache_lib \<Rightarrow> cleaner" where
  "NewCleaner kc = \<lparr>Initialized = False, OnAdd = None, OnUpdate = Some (updatePod kc),
     OnDelete = Some (delPod kc)\<rparr>"

definition Initialize :: "clean_env \<Rightarrow> cleaner \<Rightarrow> (clean_event, cleaner \<times> bool) io" where
  "Initialize env c = do { pollSynced env 0; ret (c\<lparr>Initialized := True\<rparr>, True) }"

fun spawnWorkers :: "nat \<Rightarrow> (clean_event, unit) io" where
  "spawnWorkers 0 = ret ()"
| "spawnWorkers (Suc n) = do { emit SpawnWorker; spawnWorkers n }"

definition RunCleaner :: "clean_env \<Rightarrow> nat \<Rightarrow> (clean_event, string option) io" where
  "RunCleaner env threadiness = do {
     ok \<leftarrow> observe (cache_synced env) WaitForCacheSync;
     (if \<not> ok then do { emit QueueShutDown; ret (Some ''synching Cleaner's cache failed'') }
      else do {
        spawnWorkers threadiness;
        emit WaitForStop;
        emit QueueShutDown;
        ret None
      })
   }"

text \<open>The callback of the leader, \<open>cleanStuff\<close> in \<open>cmd/cleaner/cleaner.go\<close>.\<close>

definition cleanStuff :: "clean_env \<Rightarrow> cleaner \<Rightarrow> (clean_event, unit) io" where
  "cleanStuff env mrHandy = do {
     emit StartInformers;
     (mrHandy, ok) \<leftarrow> Initialize env mrHandy;
     (if \<not> ok then emit (CleanExit 1)
      else do {
        emit SpawnPeriodicCleanup;
        err \<leftarrow> RunCleaner env 10;
        (if err \<noteq> None then emit (CleanExit 1) else ret ())
      })
   }"

section \<open>Traces of deletions\<close>

abbreviation ep_key :: "danm_ep \<Rightarrow> string \<times> string" where
  "ep_key ep \<equiv> (Namespace (EpMeta ep), Name (EpMeta ep))"

text \<open>The endpoints a trace tried to delete, by the read that starts each attempt.\<close>

fun attempted :: "clean_event list \<Rightarrow> (string \<times> string) list" where
  "attempted [] = []"
| "attempted (GetEp ns n e # t) = (ns, n) # attempted t"
| "attempted (ev # t) = attempted t"

fun is_queue_event :: "clean_event \<Rightarrow> bool" where
  "is_queue_event (QueueGet i) = True"
| "is_queue_event (QueueAdd k) = True"
| "is_queue_event (QueueForget i) = True"
| "is_queue_event (QueueDone i) = True"
| "is_queue_event QueueShutDown = True"
| "is_queue_event _ = False"

fun is_pod_read :: "clean_event \<Rightarrow> bool" where
  "is_pod_read (GetPod ns n a) = True"
| "is_pod_read _ = False"

text \<open>
  A deletion trace of an endpoint: one attempt, no other endpoint deleted, neither the Pod lister
  nor the queue touched.
\<close>

definition deletion_trace :: "danm_ep \<Rightarrow> clean_event list \<Rightarrow> bool" where
  "deletion_trace ep t \<longleftrightarrow> attempted t = [ep_key ep] \<and>
     (\<forall>ns n e. DeleteEp ns n e \<in> set t \<longrightarrow> (ns, n) = ep_key ep \<and> GetEp ns n None \<in> set t) \<and>
     filter is_queue_event t = [] \<and> filter is_pod_read t = []"

lemma attempted_append [simp]: "attempted (xs @ ys) = attempted xs @ attempted ys"
  by (induction xs rule: attempted.induct) simp_all

lemma release_call_simps [simp]:
  "attempted (release_call dnet s a e # t) = attempted t"
  "\<not> is_queue_event (release_call dnet s a e)"
  "\<not> is_pod_read (release_call dnet s a e)"
  "release_call dnet s a e \<noteq> DeleteEp ns n e'"
  "DeleteEp ns n e' \<noteq> release_call dnet s a e"
  "release_call dnet s a e \<noteq> GetPod ns n a'"
  by (cases s; simp)+

lemma run_DeleteDanmEp_trace:
  "\<exists>err t. run_state (DeleteDanmEp env lib ep dnet) h = (err, h @ t) \<and> attempted t = [] \<and>
     filter is_queue_event t = [] \<and> filter is_pod_read t = [] \<and>
     (\<forall>ns n e. DeleteEp ns n e \<in> set t \<longrightarrow> (ns, n) = ep_key ep)"
  by (rule run_DeleteDanmEp [of lib dnet ep env h]) simp_all

lemma run_deleteInterface:
  obtains t where "run_state (deleteInterface env lib ep) h = ((), h @ t)" and "deletion_trace ep t"
proof -
  let ?get = "\<lambda>e. [CleanSleep 1000, GetEp (Namespace (EpMeta ep)) (Name (EpMeta ep)) e]"
  have "\<exists>t. run_state (deleteInterface env lib ep) h = ((), h @ t) \<and> deletion_trace ep t"
  proof (cases "get_ep_err env (h @ [CleanSleep 1000]) (Namespace (EpMeta ep)) (Name (EpMeta ep))")
    case (Some e)
    then show ?thesis
      by (intro exI [of _ "?get (Some e)"]) (simp add: deleteInterface_def deletion_trace_def)
  next
    case None
    show ?thesis
    proof (cases "get_network env (h @ ?get None) ep")
      case (Inl e)
      with None show ?thesis
        by (intro exI [of _ "?get None @ [GetNetwork ep (Inl e)]"])
          (simp add: deleteInterface_def deletion_trace_def)
    next
      case (Inr dnet)
      let ?pre = "?get None @ [GetNetwork ep (Inr dnet)]"
      have step: "run_state (deleteInterface env lib ep) h =
          ((), snd (run_state (DeleteDanmEp env lib ep dnet) (h @ ?pre)))"
        using None Inr by (simp add: deleteInterface_def split: prod.split)
      obtain err t where t: "run_state (DeleteDanmEp env lib ep dnet) (h @ ?pre) = (err, (h @ ?pre) @ t)"
        and shape: "attempted t = []" "filter is_queue_event t = []" "filter is_pod_read t = []"
          "\<And>ns n e. DeleteEp ns n e \<in> set t \<Longrightarrow> (ns, n) = ep_key ep"
        using run_DeleteDanmEp_trace [of env lib ep dnet "h @ ?pre"] by blast
      have "run_state (deleteInterface env lib ep) h = ((), h @ ?pre @ t)"
        using step t by simp
      moreover have "deletion_trace ep (?pre @ t)"
        using shape by (simp add: deletion_trace_def)
      ultimately show ?thesis by blast
    qed
  qed
  then show ?thesis using that by blast
qed

section \<open>What a sweep deletes\<close>

text \<open>A read of the trace found the Pod of a UID gone.\<close>

definition swept_for :: "danm_ep list \<Rightarrow> clean_event list \<Rightarrow> uid \<Rightarrow> bool" where
  "swept_for deps t u \<longleftrightarrow> (\<exists>d a. d \<in> set deps \<and> PodUID (EpSpec d) = u \<and>
     GetPod (Namespace (EpMeta d)) (PodName (EpSpec d)) a \<in> set t \<and> gone a u)"

lemma swept_for_mono:
  "swept_for deps t u \<Longrightarrow> set deps \<subseteq> set deps' \<Longrightarrow> set t \<subseteq> set t' \<Longrightarrow> swept_for deps' t' u"
  unfolding swept_for_def by blast

text \<open>
  With a lister whose answers do not change during the sweep, the verdict on a UID is the one on
  the first endpoint that carries it.
\<close>

fun verdict :: "(string \<Rightarrow> string \<Rightarrow> pod_lookup) \<Rightarrow> danm_ep list \<Rightarrow> uid \<Rightarrow> bool" where
  "verdict look [] u = False"
| "verdict look (d # deps) u =
     (if PodUID (EpSpec d) = u then gone (look (Namespace (EpMeta d)) (PodName (EpSpec d))) u
      else verdict look deps u)"

definition cached_verdict ::
  "(uid \<rightharpoonup> bool) \<Rightarrow> (string \<Rightarrow> string \<Rightarrow> pod_lookup) \<Rightarrow> danm_ep list \<Rightarrow> uid \<Rightarrow> bool" where
  "cached_verdict c look deps u = (case c u of Some b \<Rightarrow> \<not> b | None \<Rightarrow> verdict look deps u)"

lemma cached_verdict_cons:
  "cached_verdict c look (dep # deps) u =
     cached_verdict (if c (PodUID (EpSpec dep)) = None
       then c(PodUID (EpSpec dep) \<mapsto> \<not> gone (look (Namespace (EpMeta dep)) (PodName (EpSpec dep))) (PodUID (EpSpec dep)))
       else c) look deps u"
  by (auto simp: cached_verdict_def split: option.split)

text \<open>
  The trace of a sweep endpoint by endpoint: reads of the Pod lister, and an attempt if the verdict
  is "gone".
\<close>

definition swept_part ::
  "clean_env \<Rightarrow> ipam_lib \<Rightarrow> (danm_ep \<Rightarrow> bool) \<Rightarrow> danm_ep \<Rightarrow> clean_event list \<Rightarrow> bool" where
  "swept_part env lib V d p \<longleftrightarrow> (\<exists>r u h. p = r @ u \<and> list_all is_pod_read r \<and>
     (if V d then run_state (deleteInterface env lib d) h = ((), h @ u) else u = []))"

lemma sweep_parts:
  assumes "\<And>h. get_pod env h = look"
  shows "\<exists>parts. run_state (sweep env lib deps c) h = ((), h @ concat parts) \<and>
     list_all2 (swept_part env lib (\<lambda>d. cached_verdict c look deps (PodUID (EpSpec d)))) deps parts"
proof (induction deps arbitrary: c h)
  case Nil
  then show ?case by simp
next
  case (Cons dep deps)
  let ?u = "PodUID (EpSpec dep)"
  let ?a = "look (Namespace (EpMeta dep)) (PodName (EpSpec dep))"
  let ?c = "if c ?u = None then c(?u \<mapsto> \<not> gone ?a ?u) else c"
  let ?read = "if c ?u = None then [GetPod (Namespace (EpMeta dep)) (PodName (EpSpec dep)) ?a] else []"
  let ?V = "\<lambda>d. cached_verdict c look (dep # deps) (PodUID (EpSpec d))"
  have step: "run_state (sweep env lib (dep # deps) c) h =
      (if ?V dep
       then run_state (sweep env lib deps ?c) (snd (run_state (deleteInterface env lib dep) (h @ ?read)))
       else run_state (sweep env lib deps ?c) (h @ ?read))"
    using assms by (auto simp: cached_verdict_def split: option.split prod.split)
  obtain t where t: "run_state (deleteInterface env lib dep) (h @ ?read) = ((), (h @ ?read) @ t)"
    by (rule run_deleteInterface)
  let ?t = "if ?V dep then t else []"
  have "swept_part env lib ?V dep (?read @ ?t)"
    unfolding swept_part_def using t
    by (intro exI [of _ ?read] exI [of _ ?t] exI [of _ "h @ ?read"]) (simp del: append_assoc)
  moreover obtain parts where parts: "run_state (sweep env lib deps ?c) ((h @ ?read) @ ?t) = ((), ((h @ ?read) @ ?t) @ concat parts)"
    "list_all2 (swept_part env lib (\<lambda>d. cached_verdict ?c look deps (PodUID (EpSpec d)))) deps parts"
    using Cons.IH by blast
  moreover have "run_state (sweep env lib (dep # deps) c) h = ((), h @ concat ((?read @ ?t) # parts))"
  proof (cases "?V dep")
    case True
    then have "run_state (sweep env lib (dep # deps) c) h = run_state (sweep env lib deps ?c) ((h @ ?read) @ t)"
      by (simp only: step if_True t snd_conv)
    with parts(1) True show ?thesis by (simp only: if_True concat.simps append_assoc)
  next
    case False
    then have "run_state (sweep env lib (dep # deps) c) h = run_state (sweep env lib deps ?c) (h @ ?read)"
      by (simp only: step if_False)
    with parts(1) False show ?thesis by (simp only: if_False concat.simps append_assoc append_Nil append_Nil2)
  qed
  ultimately show ?case
    by (intro exI [of _ "(?read @ ?t) # parts"]) (simp only: list_all2_Cons cached_verdict_cons [of c look dep deps] simp_thms)
qed

lemma swept_part_attempted:
  assumes "swept_part env lib V d p"
  shows "attempted p = (if V d then [ep_key d] else [])"
proof -
  obtain r u h where p: "p = r @ u" "list_all is_pod_read r"
    "if V d then run_state (deleteInterface env lib d) h = ((), h @ u) else u = []"
    using assms by (auto simp: swept_part_def)
  have "attempted r = []" using p(2) by (induction r rule: attempted.induct) auto
  moreover have "attempted u = [ep_key d]" if "V d"
  proof -
    obtain t where "run_state (deleteInterface env lib d) h = ((), h @ t)" "deletion_trace d t"
      by (rule run_deleteInterface)
    with p(3) that show ?thesis by (simp add: deletion_trace_def)
  qed
  ultimately show ?thesis using p(1,3) by simp
qed

lemma sweep_attempts:
  assumes "\<And>h. get_pod env h = look"
  shows "\<exists>t. run_state (sweep env lib deps c) h = ((), h @ t) \<and>
     attempted t = map ep_key [d \<leftarrow> deps. cached_verdict c look deps (PodUID (EpSpec d))]"
proof -
  obtain parts where parts: "run_state (sweep env lib deps c) h = ((), h @ concat parts)"
    "list_all2 (swept_part env lib (\<lambda>d. cached_verdict c look deps (PodUID (EpSpec d)))) deps parts"
    using sweep_parts [OF assms] by blast
  have "attempted (concat ps) = map ep_key (filter V ds)"
    if "list_all2 (swept_part env lib V) ds ps" for V ds ps
    using that by (induction rule: list_all2_induct) (simp_all add: swept_part_attempted)
  with parts show ?thesis by blast
qed

section \<open>Workers\<close>

lemma run_delete_all:
  "\<exists>t. run_state (delete_all env lib deps) h = ((), h @ t) \<and> attempted t = map ep_key deps \<and>
     filter is_queue_event t = [] \<and> filter is_pod_read t = []"
proof (induction deps arbitrary: h)
  case (Cons d deps)
  obtain t0 where t0: "run_state (deleteInterface env lib d) h = ((), h @ t0)" "deletion_trace d t0"
    by (rule run_deleteInterface)
  from Cons [of "h @ t0"] obtain t where
    "run_state (delete_all env lib deps) (h @ t0) = ((), (h @ t0) @ t)" "attempted t = map ep_key deps"
    "filter is_queue_event t = []" "filter is_pod_read t = []" by blast
  with t0 show ?case
    by (intro exI [of _ "t0 @ t"]) (simp add: deletion_trace_def)
qed simp

lemma run_handleKey:
  "\<exists>r t. run_state (handleKey env lib kc key) h = (r, h @ t) \<and>
     filter is_queue_event t = [] \<and> filter is_pod_read t = []"
proof (cases "SplitMetaNamespaceKey kc key")
  case (Inr p)
  obtain ns name where p: "p = (ns, name)" by fastforce
  show ?thesis
  proof (cases "find_eps env h name ns")
    case (Inl e)
    with Inr p show ?thesis by (auto simp: handleKey_def)
  next
    case (Inr deps)
    obtain t where "run_state (delete_all env lib deps) (h @ [FindByPodName name ns (Inr deps)]) =
        ((), (h @ [FindByPodName name ns (Inr deps)]) @ t)"
      "filter is_queue_event t = []" "filter is_pod_read t = []"
      using run_delete_all by blast
    with Inr p \<open>SplitMetaNamespaceKey kc key = Inr p\<close> show ?thesis
      by (simp add: handleKey_def)
  qed
qed (simp add: handleKey_def)

lemma run_processItemInQueue:
  "\<exists>r t. run_state (processItemInQueue env lib kc obj) h = (r, h @ t) \<and>
     filter is_queue_event t =
       (if r = None then [QueueForget obj, QueueDone obj] else [QueueDone obj])"
proof (cases obj)
  case (KeyItem key)
  obtain r t where "run_state (handleKey env lib kc key) h = (r, h @ t)" "filter is_queue_event t = []"
    using run_handleKey by blast
  with KeyItem show ?thesis
    by (auto simp: processItemInQueue_def split: option.split)
qed (simp add: processItemInQueue_def)

lemma run_processNextWorkItem:
  "\<exists>t. run_state (processNextWorkItem env lib kc) h = (queue_get env h \<noteq> None, h @ QueueGet (queue_get env h) # t) \<and>
     (case queue_get env h of None \<Rightarrow> t = []
      | Some obj \<Rightarrow> filter is_queue_event t = [QueueForget obj, QueueDone obj] \<or>
          filter is_queue_event t = [QueueDone obj])"
proof (cases "queue_get env h")
  case (Some obj)
  obtain r t where "run_state (processItemInQueue env lib kc obj) (h @ [QueueGet (Some obj)]) =
      (r, (h @ [QueueGet (Some obj)]) @ t)"
    "filter is_queue_event t = (if r = None then [QueueForget obj, QueueDone obj] else [QueueDone obj])"
    using run_processItemInQueue by blast
  with Some show ?thesis
    by (cases r) (simp_all add: processNextWorkItem_def)
qed (simp add: processNextWorkItem_def)

text \<open>The items a trace took from the queue, and those it reported done.\<close>

fun taken :: "clean_event list \<Rightarrow> work_item list" where
  "taken [] = []"
| "taken (QueueGet (Some i) # t) = i # taken t"
| "taken (ev # t) = taken t"

fun finished :: "clean_event list \<Rightarrow> work_item list" where
  "finished [] = []"
| "finished (QueueDone i # t) = i # finished t"
| "finished (ev # t) = finished t"

lemma taken_append [simp]: "taken (xs @ ys) = taken xs @ taken ys"
  by (induction xs rule: taken.induct) simp_all

lemma finished_append [simp]: "finished (xs @ ys) = finished xs @ finished ys"
  by (induction xs rule: finished.induct) simp_all

lemma taken_filter: "taken (filter is_queue_event t) = taken t"
  by (induction t rule: taken.induct) simp_all

lemma finished_filter: "finished (filter is_queue_event t) = finished t"
  by (induction t rule: finished.induct) simp_all

lemma run_runWorker:
  "\<exists>r t. run_state (runWorker env lib kc n) h = (r, h @ t) \<and> taken t = finished t"
proof (induction n arbitrary: h)
  case (Suc n)
  obtain t0 where t0: "run_state (processNextWorkItem env lib kc) h =
      (queue_get env h \<noteq> None, h @ QueueGet (queue_get env h) # t0)"
    "case queue_get env h of None \<Rightarrow> t0 = []
      | Some obj \<Rightarrow> filter is_queue_event t0 = [QueueForget obj, QueueDone obj] \<or>
          filter is_queue_event t0 = [QueueDone obj]"
    using run_processNextWorkItem by blast
  show ?case
  proof (cases "queue_get env h")
    case None
    with t0 show ?thesis by (intro exI [of _ True] exI [of _ "[QueueGet None]"]) simp
  next
    case (Some obj)
    have "taken t0 = [] \<and> finished t0 = [obj]"
      using t0(2) Some taken_filter [of t0] finished_filter [of t0] by auto
    moreover obtain r t where "run_state (runWorker env lib kc n) (h @ QueueGet (Some obj) # t0) =
        (r, (h @ QueueGet (Some obj) # t0) @ t)" "taken t = finished t"
      using Suc.IH by blast
    ultimately show ?thesis
      using t0(1) Some by (intro exI [of _ r] exI [of _ "QueueGet (Some obj) # t0 @ t"]) simp
  qed
qed (rule exI [of _ False], simp)

lemma runWorker_stops:
  assumes "\<And>h. n \<le> length (taken h) \<Longrightarrow> queue_get env h = None"
  shows "n \<le> length (taken h) + k \<Longrightarrow> fst (run_state (runWorker env lib kc (Suc k)) h)"
proof (induction k arbitrary: h)
  case 0
  with assms have "queue_get env h = None" by simp
  then show ?case by (simp add: processNextWorkItem_def)
next
  case (Suc k)
  obtain t0 where t0: "run_state (processNextWorkItem env lib kc) h =
      (queue_get env h \<noteq> None, h @ QueueGet (queue_get env h) # t0)"
    using run_processNextWorkItem by blast
  show ?case
  proof (cases "queue_get env h")
    case None
    with t0 show ?thesis by simp
  next
    case (Some obj)
    have "n \<le> length (taken (h @ QueueGet (Some obj) # t0)) + k" using Suc.prems by simp
    from Suc.IH [OF this] t0 Some show ?thesis by (simp del: runWorker.simps add: runWorker.simps(2) [of _ _ _ "Suc k"])
  qed
qed

section \<open>Polling\<close>

lemma pollSynced_extends:
  "\<exists>t. run_state (pollSynced env timer) h = ((), h @ t) \<and>
     100 * length (filter (\<lambda>ev. ev \<in> range PodSynced) t) \<le> 10100 - timer + 99"
proof (induction env timer arbitrary: h rule: pollSynced.induct)
  case (1 env timer)
  show ?case
  proof (cases "timer \<le> 10000 \<and> \<not> pod_synced env h")
    case True
    obtain t where "run_state (pollSynced env (timer + 100)) (h @ [PodSynced False, CleanSleep 100]) =
        ((), (h @ [PodSynced False, CleanSleep 100]) @ t)"
      "100 * length (filter (\<lambda>ev. ev \<in> range PodSynced) t) \<le> 10100 - (timer + 100) + 99"
      using "1.IH" True by blast
    with True show ?thesis
      by (intro exI [of _ "[PodSynced False, CleanSleep 100] @ t"])
        (auto simp: pollSynced.simps [of env timer])
  qed (auto simp: pollSynced.simps [of env timer])
qed

lemma pollSynced_never:
  assumes "\<And>h. \<not> pod_synced env h"
  shows "timer + 100 * k = 10100 \<Longrightarrow> run_state (pollSynced env timer) h =
     ((), h @ concat (replicate k [PodSynced False, CleanSleep 100]))"
proof (induction k arbitrary: timer h)
  case 0
  then show ?case by (simp add: pollSynced.simps [of env 10100])
next
  case (Suc k)
  then show ?case using assms by (simp add: pollSynced.simps [of env timer])
qed

section \<open>Properties\<close>

text \<open>
  A sweep misses nothing: with a lister whose answers are stable, deletion is attempted for
  exactly the endpoints whose UID has the verdict "gone", in list order and once per endpoint.
\<close>

theorem sweep_attempts_exact:
  assumes "\<And>h. get_pod env h = look"
  shows "\<exists>t. run_state (cleanDanglingEps env lib deps) h = ((), h @ t) \<and>
     attempted t = map ep_key [d \<leftarrow> deps. verdict look deps (PodUID (EpSpec d))]"
  using sweep_attempts [where c = Map.empty, OF assms]
  by (simp add: cleanDanglingEps_def cached_verdict_def)

text \<open>
  A live Pod keeps its endpoints: with a stable lister that finds the Pod of every endpoint
  carrying a UID alive, no endpoint with that UID is up for deletion.
\<close>

theorem live_pod_protected:
  assumes "\<And>h. get_pod env h = look" and "d \<in> set deps"
    and "\<And>d'. d' \<in> set deps \<Longrightarrow> PodUID (EpSpec d') = PodUID (EpSpec d) \<Longrightarrow>
      \<not> gone (look (Namespace (EpMeta d')) (PodName (EpSpec d'))) (PodUID (EpSpec d))"
    and "\<And>d'. d' \<in> set deps \<Longrightarrow> ep_key d' = ep_key d \<Longrightarrow> PodUID (EpSpec d') = PodUID (EpSpec d)"
  shows "\<exists>t. run_state (cleanDanglingEps env lib deps) h = ((), h @ t) \<and> ep_key d \<notin> set (attempted t)"
proof -
  obtain t where t: "run_state (cleanDanglingEps env lib deps) h = ((), h @ t)"
    "attempted t = map ep_key [d \<leftarrow> deps. verdict look deps (PodUID (EpSpec d))]"
    using sweep_attempts [where c = Map.empty and lib = lib and deps = deps and h = h, OF assms(1)]
    by (auto simp: cleanDanglingEps_def cached_verdict_def)
  have "\<not> verdict look xs (PodUID (EpSpec d))" if "set xs \<subseteq> set deps" for xs
    using that assms(3) by (induction xs) auto
  then have "\<not> verdict look deps (PodUID (EpSpec d))" by blast
  with assms(4) have "ep_key d \<notin> set (attempted t)" unfolding t(2) by (auto; metis)
  with t(1) show ?thesis by blast
qed

text \<open>
  The queue handler does not look at the Pod: for a key it attempts to delete every endpoint of
  the Pod name, without reading the Pod again, so the endpoints of a Pod re-created under the same
  name are attempted too.
\<close>

theorem handleKey_deletes_by_name:
  assumes "SplitMetaNamespaceKey kc key = Inr (ns, name)" and "\<And>h. find_eps env h name ns = Inr deps"
  shows "\<exists>t. run_state (handleKey env lib kc key) h = (None, h @ t) \<and>
     attempted t = map ep_key deps \<and> filter is_pod_read t = []"
proof -
  obtain t where "run_state (delete_all env lib deps) (h @ [FindByPodName name ns (Inr deps)]) =
      ((), (h @ [FindByPodName name ns (Inr deps)]) @ t)"
    "attempted t = map ep_key deps" "filter is_pod_read t = []"
    using run_delete_all by blast
  with assms show ?thesis by (simp add: handleKey_def)
qed

text \<open>
  C27: Every work item is reported done exactly once and last; a failed item is neither forgotten nor
  put back into the queue.
\<close>

theorem work_item_done_once:
  "\<exists>r t. run_state (processItemInQueue env lib kc obj) h = (r, h @ t) \<and>
     filter is_queue_event t = (if r = None then [QueueForget obj] else []) @ [QueueDone obj]"
  using run_processItemInQueue [of env lib kc obj h]
  by (simp only: if_distrib [of "\<lambda>xs. xs @ [QueueDone obj]"] append_Cons append_Nil)

text \<open>
  A worker balances the queue: in every run the items taken from the queue are, in order, the
  items reported done.
\<close>

theorem worker_balances_queue:
  "\<exists>r t. run_state (runWorker env lib kc n) h = (r, h @ t) \<and> taken t = finished t"
  by (rule run_runWorker)

text \<open>
  A worker stops: when the queue is shut down once \<open>n\<close> items have been taken, the worker returns
  within \<open>n + 1\<close> rounds.
\<close>

theorem worker_terminates:
  assumes "\<And>h. n \<le> length (taken h) \<Longrightarrow> queue_get env h = None"
  shows "fst (run_state (runWorker env lib kc (Suc n)) [])"
  using runWorker_stops [where h = "[]" and k = n, OF assms] by simp

text \<open>
  Initialisation always reports success, after at most 101 polls.
\<close>

theorem Initialize_bounded:
  "\<exists>t. run_state (Initialize env c) h = ((c\<lparr>Initialized := True\<rparr>, True), h @ t) \<and>
     length (filter (\<lambda>ev. ev \<in> range PodSynced) t) \<le> 101"
proof -
  obtain t where "run_state (pollSynced env 0) h = ((), h @ t)"
    "100 * length (filter (\<lambda>ev. ev \<in> range PodSynced) t) \<le> 10100 - 0 + 99"
    using pollSynced_extends by blast
  then show ?thesis by (intro exI [of _ t]) (simp add: Initialize_def)
qed

text \<open>
  The time-out goes unnoticed: a cache that never synchronises is polled 101 times, and
  initialisation still reports success.
\<close>

theorem Initialize_ignores_timeout:
  assumes "\<And>h. \<not> pod_synced env h"
  shows "run_state (Initialize env c) h =
     ((c\<lparr>Initialized := True\<rparr>, True), h @ concat (replicate 101 [PodSynced False, CleanSleep 100]))"
  using pollSynced_never [OF assms, of 0 101 h] by (simp add: Initialize_def)

text \<open>
  Tombstones are lost: with a key function that knows API objects only, as
  \<open>MetaNamespaceKeyFunc\<close> does, the deletion of a Pod that the informer missed enqueues nothing,
  although \<open>delPod\<close> unwraps the tombstone to accept it.
\<close>

theorem tombstones_not_enqueued:
  assumes "\<And>key obj. \<exists>err. MetaNamespaceKeyFunc kc (DeletedFinalStateUnknown key obj) = Inl err"
  shows "run_state (delPod kc (DeletedFinalStateUnknown key obj)) h = ((), h)"
proof -
  obtain err where "MetaNamespaceKeyFunc kc (DeletedFinalStateUnknown key obj) = Inl err"
    using assms by blast
  then show ?thesis by (cases obj) (simp_all add: enqueuePod_def)
qed

section \<open>The properties at concrete inputs\<close>

definition sweep_deps :: "danm_ep list" where
  "sweep_deps = [cleaner_ep ''10.0.0.1/24'' ''fd00::1/64'']"

lemma example_sweep:
  "run_state (cleanDanglingEps willing_env cleaner_lib sweep_deps) [] =
     ((), [] @ [GetPod ''ns'' ''pod'' PodNotFound, CleanSleep 1000, GetEp ''ns'' ''ep'' None,
        GetNetwork (cleaner_ep ''10.0.0.1/24'' ''fd00::1/64'') (Inr cleaner_net),
        IpamFree cleaner_net ''10.0.0.1/24'' None, IpamFree cleaner_net ''fd00::1/64'' None,
        DeleteEp ''ns'' ''ep'' None])"
  by (simp add: cleanDanglingEps_def sweep_deps_def deleteInterface_def DeleteDanmEp_def
      SelectReleaseIpServiceImplementation_def GetSupportedReleaseIPHandlers_def gone_def
      danm_IsIPAllocatedByMe_def danm_ReleaseIP_def cleaner_lib_def willing_env_def)
    (simp add: cleaner_ep_def)

lemma sweep_attempts_exact_witness:
  "\<exists>t. run_state (cleanDanglingEps willing_env cleaner_lib sweep_deps) [] = ((), [] @ t) \<and>
     attempted t = map ep_key [d \<leftarrow> sweep_deps. verdict (\<lambda>_ _. PodNotFound) sweep_deps (PodUID (EpSpec d))]"
  by (rule sweep_attempts_exact) (simp add: willing_env_def)

definition live_pod :: pod where
  "live_pod = \<lparr>PodMeta = \<lparr>Name = ''pod'', Namespace = ''ns'', UID = ''u'', Labels = [], ResourceVersion = []\<rparr>,
     NodeName = ''node'', Phase = ''Running''\<rparr>"

lemma live_pod_protected_witness:
  "\<exists>t. run_state (cleanDanglingEps (willing_env\<lparr>get_pod := \<lambda>_ _ _. PodFound live_pod\<rparr>) cleaner_lib sweep_deps) [] =
       ((), [] @ t) \<and> ep_key (cleaner_ep ''10.0.0.1/24'' ''fd00::1/64'') \<notin> set (attempted t)"
  by (rule live_pod_protected [where look = "\<lambda>_ _. PodFound live_pod"])
    (simp_all add: sweep_deps_def gone_def live_pod_def cleaner_ep_def)

text \<open>A key function and a splitter for keys without a namespace.\<close>

definition plain_cache_lib :: cache_lib where
  "plain_cache_lib = \<lparr>MetaNamespaceKeyFunc = \<lambda>obj. (case obj of MetaObject p \<Rightarrow> Inr (Name (PodMeta p))
       | _ \<Rightarrow> Inl ''object does not implement the Object interfaces''),
     SplitMetaNamespaceKey = \<lambda>key. Inr (''ns'', key)\<rparr>"

lemma handleKey_deletes_by_name_witness:
  "\<exists>t. run_state (handleKey willing_env cleaner_lib plain_cache_lib ''pod'') [] = (None, [] @ t) \<and>
     attempted t = map ep_key sweep_deps \<and> filter is_pod_read t = []"
  by (rule handleKey_deletes_by_name) (simp_all add: plain_cache_lib_def willing_env_def sweep_deps_def)

lemma worker_terminates_witness:
  "fst (run_state (runWorker (willing_env\<lparr>queue_get := \<lambda>h. if length (taken h) < 2 then Some (OtherItem ''nil'')
     else None\<rparr>) cleaner_lib plain_cache_lib (Suc 2)) [])"
  by (rule worker_terminates) simp

lemma Initialize_ignores_timeout_witness:
  "run_state (Initialize willing_env (NewCleaner plain_cache_lib)) [] =
     ((NewCleaner plain_cache_lib\<lparr>Initialized := True\<rparr>, True), [] @ concat (replicate 101 [PodSynced False, CleanSleep 100]))"
  by (rule Initialize_ignores_timeout) (simp add: willing_env_def)

lemma tombstones_not_enqueued_witness:
  "run_state (delPod plain_cache_lib (DeletedFinalStateUnknown ''ns/pod'' (MetaObject live_pod))) [] = ((), [])"
  by (rule tombstones_not_enqueued) (simp add: plain_cache_lib_def)

end
