(* ===== verification/Cleanrace.thy ===== *)
theory Cleanrace
  imports Cleaner
begin

text \<open>
  The cleaner's threads side by side: the periodic sweep and the queue workers delete endpoints at
  the same time, and nothing keeps two of them from working on the same one. A run of several
  threads is one list of their calls in the order they took place; the API server, which all
  threads share, is the set of the endpoints that exist.
\<close>

section \<open>Threads and the API server\<close>

definition of_thread :: "nat \<Rightarrow> (nat \<times> clean_event) list \<Rightarrow> clean_event list" where
  "of_thread i tr = map snd (filter (\<lambda>(j, e). j = i) tr)"

text \<open>Thread \<open>i\<close> makes the calls of a run of the \<open>i\<close>-th program.\<close>

definition interleaved :: "(clean_event list \<Rightarrow> bool) list \<Rightarrow> (nat \<times> clean_event) list \<Rightarrow> bool" where
  "interleaved progs tr \<longleftrightarrow>
     (\<forall>i<length progs. (progs ! i) (of_thread i tr)) \<and> fst ` set tr \<subseteq> {..<length progs}"

text \<open>
  What the API server lets happen: an endpoint that is read or deleted without an error exists,
  and is gone after the deletion. Requests may fail at any time.
\<close>

fun api_run :: "(string \<times> string) set \<Rightarrow> clean_event list \<Rightarrow> (string \<times> string) set option" where
  "api_run E [] = Some E"
| "api_run E (GetEp ns n None # t) = (if (ns, n) \<in> E then api_run E t else None)"
| "api_run E (DeleteEp ns n None # t) = (if (ns, n) \<in> E then api_run (E - {(ns, n)}) t else None)"
| "api_run E (e # t) = api_run E t"

fun is_release :: "clean_event \<Rightarrow> bool" where
  "is_release (IpamFree dnet ip e) = True"
| "is_release (CalicoRelease a e) = True"
| "is_release e = False"

lemma is_release_call [simp]: "is_release (release_call dnet s ip e)"
  by (cases s) simp_all

lemma api_run_append:
  "api_run E (xs @ ys) = (case api_run E xs of None \<Rightarrow> None | Some E' \<Rightarrow> api_run E' ys)"
  by (induction E xs rule: api_run.induct) auto

lemma api_run_keeps:
  "api_run E t = Some E' \<Longrightarrow> (ns, n) \<in> E \<Longrightarrow> DeleteEp ns n None \<notin> set t \<Longrightarrow> (ns, n) \<in> E'"
  by (induction E t rule: api_run.induct) (auto split: if_splits)

lemma of_thread_append [simp]: "of_thread i (xs @ ys) = of_thread i xs @ of_thread i ys"
  by (simp add: of_thread_def)

lemma of_thread_Cons [simp]:
  "of_thread i ((j, e) # tr) = (if j = i then e # of_thread i tr else of_thread i tr)"
  by (simp add: of_thread_def)

lemma set_of_thread: "e \<in> set (of_thread i tr) \<longleftrightarrow> (i, e) \<in> set tr"
  by (force simp: of_thread_def)

text \<open>An endpoint that was read exists as long as nobody deletes it.\<close>

lemma api_run_read:
  assumes "api_run E (xs @ GetEp ns n None # ys) \<noteq> None" and "DeleteEp ns n None \<notin> set ys"
  shows "\<exists>E'. api_run E (xs @ GetEp ns n None # ys) = Some E' \<and> (ns, n) \<in> E'"
proof -
  obtain E1 E' where "api_run E xs = Some E1" "(ns, n) \<in> E1" "api_run E1 ys = Some E'"
    using assms(1) by (auto simp: api_run_append split: option.splits if_splits)
  moreover from this have "(ns, n) \<in> E'" using api_run_keeps assms(2) by blast
  ultimately show ?thesis by (simp add: api_run_append)
qed

section \<open>Attempts to delete an endpoint\<close>

text \<open>The calls an attempt may consist of: a look at the endpoint, or a successful one and then releases.\<close>

definition releases_of :: "danm_ep \<Rightarrow> clean_event \<Rightarrow> bool" where
  "releases_of ep e \<longleftrightarrow> (\<exists>dnet s err. e = release_call dnet s (Address (Iface (EpSpec ep))) err \<or>
     e = release_call dnet s (AddressIPv6 (Iface (EpSpec ep))) err)"

fun is_look :: "clean_event \<Rightarrow> bool" where
  "is_look (CleanSleep n) = True"
| "is_look (GetEp ns n e) = True"
| "is_look (GetNetwork ep a) = True"
| "is_look e = False"

definition found_first :: "danm_ep \<Rightarrow> danm_net \<Rightarrow> clean_event list" where
  "found_first ep dnet =
     [CleanSleep 1000, GetEp (Namespace (EpMeta ep)) (Name (EpMeta ep)) None, GetNetwork ep (Inr dnet)]"

definition released_both :: "danm_ep \<Rightarrow> danm_net \<Rightarrow> clean_event list \<Rightarrow> bool" where
  "released_both ep dnet t \<longleftrightarrow> (\<exists>s4 s6. t = [release_call dnet s4 (Address (Iface (EpSpec ep))) None,
     release_call dnet s6 (AddressIPv6 (Iface (EpSpec ep))) None])"

definition deletion_shape :: "danm_ep \<Rightarrow> clean_event list \<Rightarrow> bool" where
  "deletion_shape ep t \<longleftrightarrow> list_all is_look t \<and> attempted t = [ep_key ep] \<or>
     (\<exists>dnet v w. t = found_first ep dnet @ v @ w \<and> list_all (releases_of ep) v \<and>
        (w = [] \<or> released_both ep dnet v \<and> (\<exists>err. w = [DeleteEp (Namespace (EpMeta ep)) (Name (EpMeta ep)) err])))"

lemma releases_of_is_release: "releases_of ep e \<Longrightarrow> is_release e"
  by (auto simp: releases_of_def)

lemma releases_of_not_delete [simp]: "\<not> releases_of ep (DeleteEp ns n err)"
  by (auto simp: releases_of_def)

lemma is_look_simps: "is_look e \<Longrightarrow> \<not> is_release e \<and> e \<noteq> DeleteEp ns n err \<and> \<not> is_queue_event e"
  by (cases e) auto

lemma shape_attempted: "deletion_shape ep t \<Longrightarrow> attempted t = [ep_key ep]"
proof -
  have "attempted v = []" if "list_all (releases_of ep) v" for v
    using that by (induction v) (auto simp: releases_of_def)
  then show "deletion_shape ep t \<Longrightarrow> attempted t = [ep_key ep]"
    by (auto simp: deletion_shape_def found_first_def)
qed

lemma deleteInterface_shape:
  "\<exists>t. run_state (deleteInterface env lib ep) h = ((), h @ t) \<and> deletion_shape ep t"
proof -
  let ?get = "GetEp (Namespace (EpMeta ep)) (Name (EpMeta ep))"
  show ?thesis
  proof (cases "get_ep_err env (h @ [CleanSleep 1000]) (Namespace (EpMeta ep)) (Name (EpMeta ep))")
    case (Some e)
    then show ?thesis
      by (intro exI [of _ "[CleanSleep 1000, ?get (Some e)]"])
        (simp add: deleteInterface_def deletion_shape_def)
  next
    case None
    show ?thesis
    proof (cases "get_network env (h @ [CleanSleep 1000, ?get None]) ep")
      case (Inl e)
      with None show ?thesis
        by (intro exI [of _ "[CleanSleep 1000, ?get None, GetNetwork ep (Inl e)]"])
          (simp add: deleteInterface_def deletion_shape_def)
    next
      case (Inr dnet)
      let ?pre = "found_first ep dnet"
      have run: "run_state (deleteInterface env lib ep) h =
          ((), snd (run_state (DeleteDanmEp env lib ep dnet) (h @ ?pre)))"
        using None Inr by (simp add: deleteInterface_def found_first_def split: prod.splits)
      have rel: "releases_of ep (release_call dnet s (Address (Iface (EpSpec ep))) err)"
        "releases_of ep (release_call dnet s (AddressIPv6 (Iface (EpSpec ep))) err)" for s err
        unfolding releases_of_def by blast+
      have both: "released_both ep dnet [release_call dnet s (Address (Iface (EpSpec ep))) None,
          release_call dnet s' (AddressIPv6 (Iface (EpSpec ep))) None]" for s s'
        unfolding released_both_def by blast
      have tail: "\<exists>v w. snd (run_state (DeleteDanmEp env lib ep dnet) (h @ ?pre)) = h @ ?pre @ v @ w \<and>
          list_all (releases_of ep) v \<and>
          (w = [] \<or> released_both ep dnet v \<and> (\<exists>err. w = [DeleteEp (Namespace (EpMeta ep)) (Name (EpMeta ep)) err]))"
      proof (rule run_DeleteDanmEp [of lib dnet ep env "h @ ?pre"])
        fix s s' err
        assume "run_state (DeleteDanmEp env lib ep dnet) (h @ ?pre) = (err, (h @ ?pre) @
          [release_call dnet s (Address (Iface (EpSpec ep))) None,
           release_call dnet s' (AddressIPv6 (Iface (EpSpec ep))) None,
           DeleteEp (Namespace (EpMeta ep)) (Name (EpMeta ep)) err])"
        then show ?thesis
          by (intro exI [of _ "[release_call dnet s (Address (Iface (EpSpec ep))) None,
              release_call dnet s' (AddressIPv6 (Iface (EpSpec ep))) None]"]
            exI [of _ "[DeleteEp (Namespace (EpMeta ep)) (Name (EpMeta ep)) err]"]) (simp add: rel both)
      qed (force simp: rel)+
      then obtain v w where vw: "snd (run_state (DeleteDanmEp env lib ep dnet) (h @ ?pre)) = h @ ?pre @ v @ w"
        "list_all (releases_of ep) v"
        "w = [] \<or> released_both ep dnet v \<and> (\<exists>err. w = [DeleteEp (Namespace (EpMeta ep)) (Name (EpMeta ep)) err])" by blast
      then have "deletion_shape ep (?pre @ v @ w)" unfolding deletion_shape_def by blast
      with run vw(1) show ?thesis by auto
    qed
  qed
qed

definition attempt :: "ipam_lib \<Rightarrow> danm_ep \<Rightarrow> clean_event list \<Rightarrow> bool" where
  "attempt lib ep t \<longleftrightarrow> (\<exists>env. run_state (deleteInterface env lib ep) [] = ((), t))"

lemma attempt_shape:
  assumes "attempt lib ep t"
  shows "deletion_shape ep t"
proof -
  obtain env where "run_state (deleteInterface env lib ep) [] = ((), t)"
    using assms by (auto simp: attempt_def)
  with deleteInterface_shape [of env lib ep "[]"] show ?thesis by auto
qed

text \<open>Before an attempt releases an address it has read the endpoint, and not deleted it.\<close>

lemma shape_acts:
  assumes "deletion_shape ep (us @ e # vs)" and "is_release e \<or> (\<exists>ns n err. e = DeleteEp ns n err)"
  shows "\<exists>dnet w. us = found_first ep dnet @ w \<and> list_all (releases_of ep) w \<and>
     (releases_of ep e \<or> (\<exists>err. e = DeleteEp (Namespace (EpMeta ep)) (Name (EpMeta ep)) err))"
proof -
  have "\<not> is_look e" using assms(2) is_look_simps by blast
  then obtain dnet v w where t: "us @ e # vs = found_first ep dnet @ v @ w" "list_all (releases_of ep) v"
    "w = [] \<or> (\<exists>err. w = [DeleteEp (Namespace (EpMeta ep)) (Name (EpMeta ep)) err])"
    using assms(1) unfolding deletion_shape_def by auto
  have "list_all is_look (found_first ep dnet)" by (simp add: found_first_def)
  from append_past [OF t(1) this \<open>\<not> is_look e\<close>] obtain x where
    x: "us = found_first ep dnet @ x" "x @ e # vs = v @ w" by blast
  show ?thesis
  proof (cases "length x < length v")
    case True
    with x(2) obtain y where "v = x @ e # y"
      by (auto simp: append_eq_append_conv2 append_eq_Cons_conv Cons_eq_append_conv)
    with t(2) x(1) show ?thesis by auto
  next
    case False
    with x(2) obtain y where "x = v @ y" "y @ e # vs = w" by (auto simp: append_eq_append_conv2)
    with t(3) have "x = v" "w = [e]" by (cases y; auto)+
    with t(2,3) x(1) show ?thesis by auto
  qed
qed

lemma attempt_release:
  assumes "attempt lib ep (us @ e # vs)" and "is_release e"
  shows "GetEp (Namespace (EpMeta ep)) (Name (EpMeta ep)) None \<in> set us \<and> (\<forall>ns n err. DeleteEp ns n err \<notin> set us)"
proof -
  obtain dnet w where "us = found_first ep dnet @ w" "list_all (releases_of ep) w"
    using shape_acts [OF attempt_shape [OF assms(1)]] assms(2) by blast
  then show ?thesis by (auto simp: found_first_def list_all_iff)
qed

lemma attempt_deletes:
  assumes "attempt lib ep t" and "DeleteEp ns n err \<in> set t"
  shows "(ns, n) = ep_key ep"
proof -
  obtain us vs where "t = us @ DeleteEp ns n err # vs" using assms(2) by (auto simp: in_set_conv_decomp)
  with shape_acts [of ep us "DeleteEp ns n err" vs] attempt_shape [OF assms(1)] show ?thesis
    by (auto dest: releases_of_is_release)
qed

section \<open>Properties\<close>

text \<open>
  No two attempts on the same endpoint overlap: between two calls of one there is no call of
  another.
\<close>

definition no_overlap :: "danm_ep list \<Rightarrow> (nat \<times> clean_event) list \<Rightarrow> bool" where
  "no_overlap eps tr \<longleftrightarrow> (\<forall>xs i a ys j b zs c ws.
     tr = xs @ (i, a) # ys @ (j, b) # zs @ (i, c) # ws \<longrightarrow> i \<noteq> j \<longrightarrow>
     ep_key (eps ! i) \<noteq> ep_key (eps ! j))"

text \<open>
  As long as no two attempts to delete the same endpoint overlap, any number of threads
  deleting endpoints in any interleaving release an address only while the endpoint that holds
  it exists.
\<close>

theorem exclusive_deletions_release_held:
  assumes "interleaved (map (attempt lib) eps) tr" and "api_run E (map snd tr) \<noteq> None"
    and "no_overlap eps tr" and "tr = us @ (i, e) # vs" and "is_release e"
  shows "\<exists>E'. api_run E (map snd us) = Some E' \<and> ep_key (eps ! i) \<in> E'"
proof -
  let ?get = "GetEp (Namespace (EpMeta (eps ! i))) (Name (EpMeta (eps ! i))) None"
  have run: "attempt lib (eps ! j) (of_thread j tr)" if "(j, b) \<in> set tr" for j b
    using assms(1) that by (force simp: interleaved_def)
  have "attempt lib (eps ! i) (of_thread i us @ e # of_thread i vs)"
    using run [of i e] assms(4) by simp
  from attempt_release [OF this assms(5)] have get: "(i, ?get) \<in> set us"
    and kept: "\<And>ns n err. (i, DeleteEp ns n err) \<notin> set us" by (auto simp: set_of_thread)
  from get obtain xs ys where us: "us = xs @ (i, ?get) # ys" by (auto simp: in_set_conv_decomp)
  have "DeleteEp ns n None \<notin> set (map snd ys)" if key: "(ns, n) = ep_key (eps ! i)" for ns n
  proof
    assume "DeleteEp ns n None \<in> set (map snd ys)"
    then obtain j where j: "(j, DeleteEp ns n None) \<in> set ys" by auto
    with kept us have "i \<noteq> j" by auto
    obtain ys1 ys2 where "ys = ys1 @ (j, DeleteEp ns n None) # ys2" using j by (auto simp: in_set_conv_decomp)
    with us assms(4) have "tr = xs @ (i, ?get) # ys1 @ (j, DeleteEp ns n None) # ys2 @ (i, e) # vs" by simp
    with assms(3) \<open>i \<noteq> j\<close> have "ep_key (eps ! i) \<noteq> ep_key (eps ! j)" unfolding no_overlap_def by blast
    moreover have "(j, DeleteEp ns n None) \<in> set tr" using j us assms(4) by auto
    then have "(ns, n) = ep_key (eps ! j)"
      using attempt_deletes [OF run] by (metis set_of_thread)
    ultimately show False using key by simp
  qed
  moreover have "api_run E (map snd us) \<noteq> None"
    using assms(2,4) by (auto simp: api_run_append split: option.splits)
  ultimately show ?thesis
    using api_run_read [of E "map snd xs" "Namespace (EpMeta (eps ! i))" "Name (EpMeta (eps ! i))" "map snd ys"]
    by (simp add: us)
qed

text \<open>The sweep over one dangling endpoint, and a worker that handles the key of its Pod.\<close>

definition sweep_thread :: "ipam_lib \<Rightarrow> danm_ep \<Rightarrow> clean_event list \<Rightarrow> bool" where
  "sweep_thread lib ep t \<longleftrightarrow> (\<exists>env. run_state (cleanDanglingEps env lib [ep]) [] = ((), t))"

definition worker_thread :: "ipam_lib \<Rightarrow> cache_lib \<Rightarrow> string \<Rightarrow> clean_event list \<Rightarrow> bool" where
  "worker_thread lib kc key t \<longleftrightarrow> (\<exists>env. run_state (handleKey env lib kc key) [] = (None, t))"

definition race_env :: "danm_ep \<Rightarrow> danm_net \<Rightarrow> string option \<Rightarrow> clean_env" where
  "race_env ep dnet err = willing_env\<lparr>get_network := \<lambda>_ _. Inr dnet, find_eps := \<lambda>_ _ _. Inr [ep],
     delete_ep_err := \<lambda>_ _ _. err\<rparr>"

lemma race_env_simps [simp]:
  "get_network (race_env ep dnet err) h d = Inr dnet" "find_eps (race_env ep dnet err) h n p = Inr [ep]"
  "delete_ep_err (race_env ep dnet err) h ns n = err" "get_ep_err (race_env ep dnet err) h ns n = None"
  "get_pod (race_env ep dnet err) h ns n = PodNotFound" "free_err (race_env ep dnet err) h net ip = None"
  "calicoctl_err (race_env ep dnet err) h a = None"
  by (simp_all add: race_env_def willing_env_def)

text \<open>
  C21: nothing keeps the sweep and a worker from overlapping: for every endpoint whose addresses
  can be released there is a run of the two in which the worker releases the IPv4 address again
  after the sweep has released it and deleted the endpoint, when it may already belong to
  another Pod.
\<close>

theorem sweep_and_worker_release_twice:
  assumes "SelectReleaseIpServiceImplementation lib dnet ep (Address (Iface (EpSpec ep))) = Some s4"
    and "SelectReleaseIpServiceImplementation lib dnet ep (AddressIPv6 (Iface (EpSpec ep))) = Some s6"
    and "SplitMetaNamespaceKey kc key = Inr (Namespace (EpMeta ep), PodName (EpSpec ep))"
  shows "\<exists>tr us vs. interleaved [sweep_thread lib ep, worker_thread lib kc key] tr \<and>
     api_run {ep_key ep} (map snd tr) \<noteq> None \<and>
     tr = us @ (1, release_call dnet s4 (Address (Iface (EpSpec ep))) None) # vs \<and>
     (0, release_call dnet s4 (Address (Iface (EpSpec ep))) None) \<in> set us \<and>
     api_run {ep_key ep} (map snd us) = Some {}"
proof -
  let ?ns = "Namespace (EpMeta ep)" and ?n = "Name (EpMeta ep)"
  let ?r4 = "release_call dnet s4 (Address (Iface (EpSpec ep))) None"
  let ?r6 = "release_call dnet s6 (AddressIPv6 (Iface (EpSpec ep))) None"
  let ?look = "[CleanSleep 1000, GetEp ?ns ?n None, GetNetwork ep (Inr dnet)]"
  let ?sweep = "GetPod ?ns (PodName (EpSpec ep)) PodNotFound # ?look @ [?r4, ?r6, DeleteEp ?ns ?n None]"
  let ?find = "FindByPodName (PodName (EpSpec ep)) ?ns (Inr [ep])"
  let ?gone = "[?r6, DeleteEp ?ns ?n (Some ''not found'')]"
  let ?us = "map (Pair 1) (?find # ?look) @ map (Pair 0) ?sweep"
  let ?tr = "?us @ (1, ?r4) # map (Pair 1) ?gone"
  have release: "run_state (ReleaseIP (race_env ep dnet err) dnet s ip) h =
      (None, h @ [release_call dnet s ip None])" for err s ip h
    by (cases s) (simp_all add: danm_ReleaseIP_def calico_ReleaseIP_def Let_def)
  have delete: "run_state (deleteInterface (race_env ep dnet err) lib ep) h =
      ((), h @ ?look @ [?r4, ?r6, DeleteEp ?ns ?n err])" for err h
    by (simp add: deleteInterface_def DeleteDanmEp_def assms(1,2) release)
  have "run_state (cleanDanglingEps (race_env ep dnet None) lib [ep]) [] = ((), ?sweep)"
    by (simp add: cleanDanglingEps_def gone_def delete)
  then have sweep: "sweep_thread lib ep ?sweep" unfolding sweep_thread_def by blast
  have "run_state (handleKey (race_env ep dnet (Some ''not found'')) lib kc key) [] =
      (None, ?find # ?look @ ?r4 # ?gone)"
    by (simp add: handleKey_def assms(3) delete)
  then have worker: "worker_thread lib kc key (?find # ?look @ ?r4 # ?gone)"
    unfolding worker_thread_def by blast
  have no_api: "api_run E (release_call dnet s ip err # t) = api_run E t" for E s ip err t
    by (cases s) simp_all
  have "interleaved [sweep_thread lib ep, worker_thread lib kc key] ?tr"
    using sweep worker by (auto simp: interleaved_def less_Suc_eq of_thread_def)
  moreover have "api_run {ep_key ep} (map snd ?us) = Some {}" "api_run {ep_key ep} (map snd ?tr) \<noteq> None"
    by (simp_all add: no_api)
  moreover have "(0, ?r4) \<in> set ?us" by simp
  ultimately show ?thesis by blast
qed

text \<open>The properties at the endpoint of Danmep.\<close>

definition race_ep :: danm_ep where
  "race_ep = cleaner_ep ''10.0.0.1/24'' ''fd00::1/64''"

definition race_kc :: cache_lib where
  "race_kc = \<lparr>MetaNamespaceKeyFunc = \<lambda>_. Inl [], SplitMetaNamespaceKey = \<lambda>_. Inr (''ns'', ''pod'')\<rparr>"

lemma sweep_and_worker_release_twice_witness:
  "\<exists>tr us vs. interleaved [sweep_thread cleaner_lib race_ep, worker_thread cleaner_lib race_kc ''ns/pod''] tr \<and>
     api_run {(''ns'', ''ep'')} (map snd tr) \<noteq> None \<and>
     tr = us @ (1, IpamFree cleaner_net ''10.0.0.1/24'' None) # vs \<and>
     (0, IpamFree cleaner_net ''10.0.0.1/24'' None) \<in> set us \<and>
     api_run {(''ns'', ''ep'')} (map snd us) = Some {}"
  using sweep_and_worker_release_twice [of cleaner_lib cleaner_net race_ep DanmReleaseIPService
      DanmReleaseIPService race_kc "''ns/pod''"]
  by (simp add: race_ep_def race_kc_def cleaner_ep_def cleaner_lib_def danm_IsIPAllocatedByMe_def
      SelectReleaseIpServiceImplementation_def GetSupportedReleaseIPHandlers_def)

text \<open>Two attempts on the same endpoint, one after the other: the second finds it gone.\<close>

definition orderly_trace :: "(nat \<times> clean_event) list" where
  "orderly_trace = map (Pair 0) [CleanSleep 1000, GetEp ''ns'' ''ep'' None,
       GetNetwork race_ep (Inr cleaner_net), IpamFree cleaner_net ''10.0.0.1/24'' None,
       IpamFree cleaner_net ''fd00::1/64'' None, DeleteEp ''ns'' ''ep'' None] @
     map (Pair 1) [CleanSleep 1000, GetEp ''ns'' ''ep'' (Some ''not found'')]"

lemma sorted_no_overlap:
  assumes "sorted (map fst tr)"
  shows "no_overlap eps tr"
  using assms by (auto simp: no_overlap_def sorted_append)

lemma orderly_run:
  "interleaved (map (attempt cleaner_lib) [race_ep, race_ep]) orderly_trace"
proof -
  have "run_state (deleteInterface (race_env race_ep cleaner_net None) cleaner_lib race_ep) [] =
      ((), of_thread 0 orderly_trace)"
    by (simp add: deleteInterface_def DeleteDanmEp_def SelectReleaseIpServiceImplementation_def
        GetSupportedReleaseIPHandlers_def danm_IsIPAllocatedByMe_def danm_ReleaseIP_def
        race_ep_def cleaner_ep_def cleaner_lib_def orderly_trace_def of_thread_def)
  then have "attempt cleaner_lib race_ep (of_thread 0 orderly_trace)" unfolding attempt_def by blast
  moreover have "run_state (deleteInterface (willing_env\<lparr>get_ep_err := \<lambda>_ _ _. Some ''not found''\<rparr>)
      cleaner_lib race_ep) [] = ((), of_thread 1 orderly_trace)"
    by (simp add: deleteInterface_def race_ep_def cleaner_ep_def orderly_trace_def of_thread_def)
  then have "attempt cleaner_lib race_ep (of_thread 1 orderly_trace)" unfolding attempt_def by blast
  moreover have "fst ` set orderly_trace \<subseteq> {..<2}" by (simp add: orderly_trace_def)
  ultimately show ?thesis by (auto simp: interleaved_def less_Suc_eq numeral_2_eq_2)
qed

lemma exclusive_deletions_release_held_witness:
  "\<exists>E'. api_run {(''ns'', ''ep'')} (map snd (take 3 orderly_trace)) = Some E' \<and> (''ns'', ''ep'') \<in> E'"
proof -
  have "api_run {(''ns'', ''ep'')} (map snd orderly_trace) \<noteq> None" by (simp add: orderly_trace_def)
  moreover have "no_overlap [race_ep, race_ep] orderly_trace"
    by (rule sorted_no_overlap) (simp add: orderly_trace_def)
  moreover have "orderly_trace = take 3 orderly_trace @
      (0, IpamFree cleaner_net ''10.0.0.1/24'' None) # drop 4 orderly_trace"
    by (simp add: orderly_trace_def)
  ultimately show ?thesis
    using exclusive_deletions_release_held [OF orderly_run, of _ _ 0] by (fastforce simp: race_ep_def cleaner_ep_def)
qed

end
