(* ===== verification/Workqueue.thy ===== *)
theory Workqueue
  imports Cleanrace
begin

text \<open>
  The queue workers of the cleaner side by side. What keeps two of them from the same endpoint is
  the work queue of client-go, stated as a contract: a key that is being worked on is handed out
  to nobody else. Its reference model is the algorithm its documentation describes.
\<close>

section \<open>The work queue\<close>

fun is_queue_call :: "clean_event \<Rightarrow> bool" where
  "is_queue_call (QueueGet (Some i)) = True"
| "is_queue_call (QueueDone i) = True"
| "is_queue_call (QueueAdd key) = True"
| "is_queue_call e = False"

text \<open>
  Items wait to be handed out or are being processed; an item that is added while it is
  processed waits until it is done.
\<close>

locale work_queue =
  fixes step :: "'q \<Rightarrow> clean_event \<Rightarrow> 'q option" and ok :: "'q \<Rightarrow> bool"
    and waiting :: "'q \<Rightarrow> work_item set" and processing :: "'q \<Rightarrow> work_item set"
  assumes get: "ok q \<Longrightarrow> step q (QueueGet (Some i)) = Some q' \<Longrightarrow>
      ok q' \<and> i \<in> waiting q \<and> i \<notin> processing q \<and> waiting q' \<subseteq> waiting q \<and>
      processing q' = insert i (processing q)"
    and finish: "ok q \<Longrightarrow> i \<in> processing q \<Longrightarrow> step q (QueueDone i) = Some q' \<Longrightarrow>
      ok q' \<and> waiting q' \<subseteq> waiting q \<and> processing q' = processing q - {i}"
    and add: "ok q \<Longrightarrow> step q (QueueAdd key) = Some q' \<Longrightarrow>
      ok q' \<and> waiting q' \<subseteq> insert (KeyItem key) (waiting q) \<and> processing q' = processing q"
    and other: "ok q \<Longrightarrow> \<not> is_queue_call e \<Longrightarrow> step q e = Some q' \<Longrightarrow>
      ok q' \<and> waiting q' \<subseteq> waiting q \<and> processing q' = processing q"

fun queue_run :: "('q \<Rightarrow> clean_event \<Rightarrow> 'q option) \<Rightarrow> 'q \<Rightarrow> clean_event list \<Rightarrow> 'q option" where
  "queue_run step q [] = Some q"
| "queue_run step q (e # t) = (case step q e of None \<Rightarrow> None | Some q' \<Rightarrow> queue_run step q' t)"

lemma queue_run_append:
  "queue_run step q (xs @ ys) = (case queue_run step q xs of None \<Rightarrow> None | Some q' \<Rightarrow> queue_run step q' ys)"
  by (induction step q xs rule: queue_run.induct) (auto split: option.split)

text \<open>A thread holds an item from the moment it gets it until it reports it done.\<close>

definition holds :: "work_item \<Rightarrow> clean_event list \<Rightarrow> bool" where
  "holds i t \<longleftrightarrow> (\<exists>xs ys. t = xs @ QueueGet (Some i) # ys \<and> QueueDone i \<notin> set ys)"

lemma holds_snoc:
  "holds i (t @ [e]) \<longleftrightarrow> e = QueueGet (Some i) \<or> holds i t \<and> e \<noteq> QueueDone i"
proof
  assume "holds i (t @ [e])"
  then obtain xs ys where t: "t @ [e] = xs @ QueueGet (Some i) # ys" "QueueDone i \<notin> set ys"
    by (auto simp: holds_def)
  show "e = QueueGet (Some i) \<or> holds i t \<and> e \<noteq> QueueDone i"
  proof (cases ys rule: rev_cases)
    case Nil
    with t show ?thesis by simp
  next
    case (snoc zs z)
    with t have "t = xs @ QueueGet (Some i) # zs" "z = e" "QueueDone i \<notin> set zs" "e \<noteq> QueueDone i" by auto
    then show ?thesis unfolding holds_def by blast
  qed
next
  assume "e = QueueGet (Some i) \<or> holds i t \<and> e \<noteq> QueueDone i"
  then show "holds i (t @ [e])"
  proof (elim disjE conjE)
    assume "holds i t" "e \<noteq> QueueDone i"
    then obtain xs ys where "t @ [e] = xs @ QueueGet (Some i) # (ys @ [e])" "QueueDone i \<notin> set (ys @ [e])"
      by (auto simp: holds_def)
    then show ?thesis unfolding holds_def by blast
  next
    assume "e = QueueGet (Some i)"
    then have "t @ [e] = t @ QueueGet (Some i) # []" by simp
    then show ?thesis unfolding holds_def by (metis empty_iff list.set(1))
  qed
qed

lemma holds_Nil [simp]: "\<not> holds i []"
  by (simp add: holds_def)

text \<open>No thread reports an item done that it does not hold.\<close>

definition returns_own :: "(nat \<times> clean_event) list \<Rightarrow> bool" where
  "returns_own tr \<longleftrightarrow> (\<forall>xs j i ys. tr = xs @ (j, QueueDone i) # ys \<longrightarrow> holds i (of_thread j xs))"

lemma returns_own_snoc:
  "returns_own (tr @ [(j, e)]) \<Longrightarrow> returns_own tr \<and> (\<forall>i. e = QueueDone i \<longrightarrow> holds i (of_thread j tr))"
  by (auto simp: returns_own_def)

definition added :: "(nat \<times> clean_event) list \<Rightarrow> work_item set" where
  "added tr = {KeyItem key |key. QueueAdd key \<in> snd ` set tr}"

lemma added_snoc:
  "added (tr @ [(j, QueueAdd key)]) = insert (KeyItem key) (added tr)"
  "(\<And>key. e \<noteq> QueueAdd key) \<Longrightarrow> added (tr @ [(j, e)]) = added tr"
  by (auto simp: added_def)

context work_queue
begin

text \<open>
  If every thread reports only items done that it holds, then the items held are being processed, no
  item is held by two threads, and what is handed out was added before.
\<close>

lemma exclusive:
  assumes "queue_run step q (map snd tr) = Some q'" and "ok q" and "processing q = {}" and "waiting q = {}"
    and "returns_own tr"
  shows "ok q' \<and> (\<forall>j i. holds i (of_thread j tr) \<longrightarrow> i \<in> processing q') \<and>
     (\<forall>j k i. holds i (of_thread j tr) \<longrightarrow> holds i (of_thread k tr) \<longrightarrow> j = k) \<and>
     waiting q' \<subseteq> added tr \<and> (\<forall>j i. (j, QueueGet (Some i)) \<in> set tr \<longrightarrow> i \<in> added tr)"
  using assms(1,5)
proof (induction tr arbitrary: q' rule: rev_induct)
  case Nil
  with assms(2-4) show ?case by (simp add: of_thread_def added_def)
next
  case (snoc x tr)
  obtain j e where x: "x = (j, e)" by fastforce
  obtain q1 where q1: "queue_run step q (map snd tr) = Some q1" "step q1 e = Some q'"
    using snoc.prems(1) by (auto simp: queue_run_append x split: option.splits)
  note own = returns_own_snoc [OF snoc.prems(2) [unfolded x]]
  from snoc.IH [OF q1(1) conjunct1 [OF own]]
  have ok: "ok q1" and held: "\<And>j i. holds i (of_thread j tr) \<Longrightarrow> i \<in> processing q1"
    and one: "\<And>j k i. holds i (of_thread j tr) \<Longrightarrow> holds i (of_thread k tr) \<Longrightarrow> j = k"
    and waits: "waiting q1 \<subseteq> added tr" and got: "\<And>j i. (j, QueueGet (Some i)) \<in> set tr \<Longrightarrow> i \<in> added tr"
    by blast+
  have thread: "holds i (of_thread k (tr @ [x])) \<longleftrightarrow>
      (if k = j then e = QueueGet (Some i) \<or> holds i (of_thread j tr) \<and> e \<noteq> QueueDone i
       else holds i (of_thread k tr))" for k i
    by (simp add: x of_thread_def flip: holds_snoc)
  consider (got_one) i where "e = QueueGet (Some i)" | (returned) i where "e = QueueDone i"
    | (added_one) key where "e = QueueAdd key" | (neither) "\<not> is_queue_call e"
    by (cases e rule: is_queue_call.cases) auto
  then show ?case
  proof cases
    case got_one
    note step = get [OF ok q1(2) [unfolded got_one]]
    have "\<not> holds i (of_thread k tr)" for k using held step by blast
    moreover have "added (tr @ [x]) = added tr" by (simp add: x got_one added_snoc(2))
    ultimately show ?thesis using step held one waits got
      unfolding thread by (auto simp: got_one x)
  next
    case returned
    have mine: "holds i (of_thread j tr)" using own returned by blast
    note step = finish [OF ok held [OF mine] q1(2) [unfolded returned]]
    have "k = j" if "holds i (of_thread k tr)" for k using one that mine by blast
    moreover have "added (tr @ [x]) = added tr" by (simp add: x returned added_snoc(2))
    ultimately show ?thesis using step held one waits got
      unfolding thread by (auto simp: returned x)
  next
    case added_one
    note step = add [OF ok q1(2) [unfolded added_one]]
    have "added (tr @ [x]) = insert (KeyItem key) (added tr)" by (simp add: x added_one added_snoc(1))
    with step held one waits got show ?thesis
      unfolding thread by (auto simp: added_one x)
  next
    case neither
    note step = other [OF ok neither q1(2)]
    have no: "e \<noteq> QueueGet (Some i)" "e \<noteq> QueueDone i" "e \<noteq> QueueAdd key" for i key
      using neither by auto
    have "holds i (of_thread k (tr @ [x])) \<longleftrightarrow> holds i (of_thread k tr)" for i k
      using no(1,2) unfolding thread by auto
    moreover have "added (tr @ [x]) = added tr" unfolding x by (rule added_snoc(2)) (rule no(3))
    moreover have "(k, QueueGet (Some i)) \<in> set (tr @ [x]) \<longleftrightarrow> (k, QueueGet (Some i)) \<in> set tr" for k i
      using no(1) [of i] by (auto simp: x)
    moreover have "waiting q' \<subseteq> added tr" using step waits by blast
    ultimately show ?thesis using step held one got by simp
  qed
qed

end

section \<open>The reference model of the queue\<close>

record wq =
  Queue :: "work_item list"
  Dirty :: "work_item set"
  Processing :: "work_item set"
  ShuttingDown :: bool

fun wq_step :: "wq \<Rightarrow> clean_event \<Rightarrow> wq option" where
  "wq_step q (QueueAdd key) =
     (if ShuttingDown q \<or> KeyItem key \<in> Dirty q then Some q
      else Some (q\<lparr>Dirty := insert (KeyItem key) (Dirty q),
        Queue := (if KeyItem key \<in> Processing q then Queue q else Queue q @ [KeyItem key])\<rparr>))"
| "wq_step q (QueueGet (Some i)) =
     (case Queue q of [] \<Rightarrow> None
      | j # rest \<Rightarrow> if i = j
          then Some (q\<lparr>Queue := rest, Dirty := Dirty q - {i}, Processing := insert i (Processing q)\<rparr>)
          else None)"
| "wq_step q (QueueGet None) = (if Queue q = [] \<and> ShuttingDown q then Some q else None)"
| "wq_step q (QueueDone i) =
     Some (q\<lparr>Processing := Processing q - {i}, Queue := (if i \<in> Dirty q then Queue q @ [i] else Queue q)\<rparr>)"
| "wq_step q QueueShutDown = Some (q\<lparr>ShuttingDown := True\<rparr>)"
| "wq_step q e = Some q"

definition wq_empty :: wq where
  "wq_empty = \<lparr>Queue = [], Dirty = {}, Processing = {}, ShuttingDown = False\<rparr>"

definition wq_ok :: "wq \<Rightarrow> bool" where
  "wq_ok q \<longleftrightarrow> distinct (Queue q) \<and> set (Queue q) = Dirty q - Processing q"

interpretation wq: work_queue wq_step wq_ok Dirty Processing
proof
  fix q q' i
  assume ok: "wq_ok q" and "wq_step q (QueueGet (Some i)) = Some q'"
  then obtain rest where r: "Queue q = i # rest"
    "q' = q\<lparr>Queue := rest, Dirty := Dirty q - {i}, Processing := insert i (Processing q)\<rparr>"
    by (auto split: list.splits if_splits)
  have "distinct (i # rest)" "insert i (set rest) = Dirty q - Processing q"
    using ok r(1) by (simp_all add: wq_ok_def)
  then have "i \<in> Dirty q" "i \<notin> Processing q" "set rest = Dirty q - {i} - insert i (Processing q)" "distinct rest"
    by auto
  with r(2) show "wq_ok q' \<and> i \<in> Dirty q \<and> i \<notin> Processing q \<and> Dirty q' \<subseteq> Dirty q \<and>
      Processing q' = insert i (Processing q)"
    by (simp add: wq_ok_def Diff_subset)
next
  fix q q' i
  assume ok: "wq_ok q" and i: "i \<in> Processing q" and "wq_step q (QueueDone i) = Some q'"
  then have q': "q' = q\<lparr>Processing := Processing q - {i}, Queue := (if i \<in> Dirty q then Queue q @ [i] else Queue q)\<rparr>"
    by simp
  have "i \<notin> set (Queue q)" using ok i by (simp add: wq_ok_def)
  moreover have "set (Queue q) = Dirty q - Processing q" using ok by (simp add: wq_ok_def)
  ultimately have "set (Queue q') = Dirty q - (Processing q - {i})" using i unfolding q' by auto
  with ok \<open>i \<notin> set (Queue q)\<close> show "wq_ok q' \<and> Dirty q' \<subseteq> Dirty q \<and> Processing q' = Processing q - {i}"
    by (simp add: wq_ok_def q')
next
  fix q q' key
  assume ok: "wq_ok q" and step: "wq_step q (QueueAdd key) = Some q'"
  show "wq_ok q' \<and> Dirty q' \<subseteq> insert (KeyItem key) (Dirty q) \<and> Processing q' = Processing q"
  proof (cases "ShuttingDown q \<or> KeyItem key \<in> Dirty q")
    case False
    with step have q': "q' = q\<lparr>Dirty := insert (KeyItem key) (Dirty q),
        Queue := (if KeyItem key \<in> Processing q then Queue q else Queue q @ [KeyItem key])\<rparr>" by auto
    have "set (Queue q) = Dirty q - Processing q" using ok by (simp add: wq_ok_def)
    then have "set (Queue q') = insert (KeyItem key) (Dirty q) - Processing q" unfolding q' by auto
    with ok False show ?thesis by (simp add: wq_ok_def q')
  qed (use ok step in auto)
next
  fix q q' e
  assume ok: "wq_ok q" and "\<not> is_queue_call e" "wq_step q e = Some q'"
  then have "Queue q' = Queue q \<and> Dirty q' = Dirty q \<and> Processing q' = Processing q"
    by (cases "(q, e)" rule: wq_step.cases) (auto split: if_splits)
  with ok show "wq_ok q' \<and> Dirty q' \<subseteq> Dirty q \<and> Processing q' = Processing q"
    by (simp add: wq_ok_def)
qed

section \<open>Keys\<close>

text \<open>
  What client-go documents of its keys: \<open>namespace/name\<close>, or only the name without a namespace; a
  tombstone is no API object and has none. Splitting undoes it.
\<close>

definition key_of :: "string \<Rightarrow> string \<Rightarrow> string" where
  "key_of ns name = (if ns = [] then name else ns @ ''/'' @ name)"

locale cache_keys =
  fixes kc :: cache_lib
  assumes key: "MetaNamespaceKeyFunc kc obj = Inr k \<Longrightarrow>
      \<exists>pod. obj = MetaObject pod \<and> k = key_of (Namespace (PodMeta pod)) (Name (PodMeta pod))"
    and parts: "SplitMetaNamespaceKey kc k = Inr (ns, name) \<Longrightarrow>
      (k = key_of ns name \<or> ns = [] \<and> k = ''/'' @ name) \<and> CHR ''/'' \<notin> set ns \<and> CHR ''/'' \<notin> set name"

text \<open>Pods have a namespace and a name, and neither has a slash in it.\<close>

definition api_name :: "string \<Rightarrow> bool" where
  "api_name s \<longleftrightarrow> s \<noteq> [] \<and> CHR ''/'' \<notin> set s"

definition named :: "pod \<Rightarrow> bool" where
  "named pod \<longleftrightarrow> api_name (Namespace (PodMeta pod)) \<and> api_name (Name (PodMeta pod))"

context cache_keys
begin

text \<open>The parts of the key of a Pod identify the key, and hold a name.\<close>

lemma pod_key_parts:
  assumes "MetaNamespaceKeyFunc kc (MetaObject pod) = Inr k" and "named pod"
    and "SplitMetaNamespaceKey kc k = Inr (ns, name)"
  shows "k = key_of ns name \<and> ns \<noteq> [] \<and> name \<noteq> []"
proof -
  let ?ns = "Namespace (PodMeta pod)" and ?name = "Name (PodMeta pod)"
  have k: "k = ?ns @ ''/'' @ ?name" and ne: "?ns \<noteq> []" "?name \<noteq> []" and slash: "CHR ''/'' \<notin> set ?ns" "CHR ''/'' \<notin> set ?name"
    using key [OF assms(1)] assms(2) by (auto simp: key_of_def named_def api_name_def)
  from parts [OF assms(3)] have p: "k = key_of ns name \<or> ns = [] \<and> k = ''/'' @ name"
    "CHR ''/'' \<notin> set ns" "CHR ''/'' \<notin> set name" by blast+
  have "hd k = hd ?ns" "hd ?ns \<in> set ?ns" using ne by (simp_all add: k)
  then have "hd k \<noteq> CHR ''/''" using slash by metis
  then have kk: "k = key_of ns name" using p(1) by auto
  have "CHR ''/'' \<in> set k" by (simp add: k)
  with kk p(3) have "ns \<noteq> []" by (auto simp: key_of_def)
  moreover have "last k = last ?name" "last ?name \<in> set ?name" using ne by (simp_all add: k)
  then have "last k \<noteq> CHR ''/''" using slash by metis
  then have "name \<noteq> []" using kk \<open>ns \<noteq> []\<close> by (auto simp: key_of_def)
  ultimately show ?thesis using kk by blast
qed

end

text \<open>The splitting client-go documents, on Pods.\<close>

definition slash_keys :: cache_lib where
  "slash_keys = \<lparr>MetaNamespaceKeyFunc = \<lambda>obj. (case obj of
       MetaObject p \<Rightarrow> Inr (key_of (Namespace (PodMeta p)) (Name (PodMeta p)))
     | _ \<Rightarrow> Inl ''object does not implement the Object interfaces''),
     SplitMetaNamespaceKey = \<lambda>key. (case split_char (CHR ''/'') key of
       [name] \<Rightarrow> Inr ([], name) | [ns, name] \<Rightarrow> Inr (ns, name) | _ \<Rightarrow> Inl ''unexpected key format'')\<rparr>"

lemma split_char_join: "split_char c s = [a] \<Longrightarrow> s = a" "split_char c s = [a, b] \<Longrightarrow> s = a @ c # b"
  by (induction s arbitrary: a b) (auto split: if_splits list.splits simp: split_char_ne)

lemma split_char_free: "p \<in> set (split_char c s) \<Longrightarrow> c \<notin> set p"
  by (induction s arbitrary: p) (auto split: if_splits list.splits)

interpretation sk: cache_keys slash_keys
proof
  fix obj k
  show "MetaNamespaceKeyFunc slash_keys obj = Inr k \<Longrightarrow>
      \<exists>pod. obj = MetaObject pod \<and> k = key_of (Namespace (PodMeta pod)) (Name (PodMeta pod))"
    by (cases obj) (simp_all add: slash_keys_def)
next
  fix k ns name
  assume "SplitMetaNamespaceKey slash_keys k = Inr (ns, name)"
  then have "ns = [] \<and> split_char (CHR ''/'') k = [name] \<or> split_char (CHR ''/'') k = [ns, name]"
    by (auto simp: slash_keys_def split: list.splits)
  then show "(k = key_of ns name \<or> ns = [] \<and> k = ''/'' @ name) \<and> CHR ''/'' \<notin> set ns \<and> CHR ''/'' \<notin> set name"
    using split_char_join [of "CHR ''/''" k] split_char_free [of _ "CHR ''/''" k] by (auto simp: key_of_def)
qed

section \<open>The informer and the workers as threads\<close>

text \<open>The Pod informer calls the handlers one after the other, here \<open>OnUpdate\<close> and \<open>OnDelete\<close>.\<close>

datatype pod_change = PodChanged pod pod | PodRemoved informer_obj

fun informer_run :: "cleaner \<Rightarrow> pod_change list \<Rightarrow> (clean_event, unit) io" where
  "informer_run c [] = ret ()"
| "informer_run c (PodChanged p p' # cs) = do {
     (case OnUpdate c of None \<Rightarrow> ret () | Some f \<Rightarrow> f p p');
     informer_run c cs
   }"
| "informer_run c (PodRemoved obj # cs) = do {
     (case OnDelete c of None \<Rightarrow> ret () | Some f \<Rightarrow> f obj);
     informer_run c cs
   }"

fun change_named :: "pod_change \<Rightarrow> bool" where
  "change_named (PodChanged p p') = named p'"
| "change_named (PodRemoved (MetaObject p)) = named p"
| "change_named (PodRemoved obj) = True"

definition informer_thread :: "cache_lib \<Rightarrow> clean_event list \<Rightarrow> bool" where
  "informer_thread kc t \<longleftrightarrow> (\<exists>cs. list_all change_named cs \<and>
     run_state (informer_run (NewCleaner kc) cs) [] = ((), t))"

definition queue_worker :: "ipam_lib \<Rightarrow> cache_lib \<Rightarrow> clean_event list \<Rightarrow> bool" where
  "queue_worker lib kc t \<longleftrightarrow> (\<exists>env n r. run_state (runWorker env lib kc n) [] = (r, t))"

text \<open>The informer adds keys of Pods and nothing else.\<close>

definition pod_key :: "cache_lib \<Rightarrow> string \<Rightarrow> bool" where
  "pod_key kc k \<longleftrightarrow> (\<exists>pod. named pod \<and> MetaNamespaceKeyFunc kc (MetaObject pod) = Inr k)"

context cache_keys
begin

lemma run_enqueuePod:
  assumes "\<And>pod. obj = MetaObject pod \<Longrightarrow> named pod"
  shows "\<exists>ks. run_state (enqueuePod kc obj) h = ((), h @ map QueueAdd ks) \<and> list_all (pod_key kc) ks"
proof (cases "MetaNamespaceKeyFunc kc obj")
  case (Inl e)
  then show ?thesis by (intro exI [of _ "[]"]) (simp add: enqueuePod_def)
next
  case (Inr k)
  then obtain pod where "obj = MetaObject pod" using key by blast
  with Inr assms have "pod_key kc k" by (auto simp: pod_key_def)
  with Inr show ?thesis by (intro exI [of _ "[k]"]) (simp add: enqueuePod_def)
qed

lemma run_informer:
  assumes "list_all change_named cs"
  shows "\<exists>ks. run_state (informer_run (NewCleaner kc) cs) h = ((), h @ map QueueAdd ks) \<and> list_all (pod_key kc) ks"
  using assms
proof (induction cs arbitrary: h)
  case Nil
  then show ?case by (intro exI [of _ "[]"]) simp
next
  case (Cons c cs)
  have first: "\<exists>ks. run_state (informer_run (NewCleaner kc) [c]) h = ((), h @ map QueueAdd ks) \<and>
      list_all (pod_key kc) ks" (is "\<exists>ks. ?first ks")
  proof (cases c)
    case (PodChanged p p')
    with Cons.prems have "\<And>pod. MetaObject p' = MetaObject pod \<Longrightarrow> named pod" by simp
    from run_enqueuePod [where obj = "MetaObject p'" and h = h, OF this] show ?thesis
      by (auto simp: PodChanged NewCleaner_def updatePod_def intro: exI [of _ "[]"])
  next
    case (PodRemoved obj)
    show ?thesis
    proof (cases "(kc, obj)" rule: delPod.cases)
      case (1 k pod)
      with Cons.prems PodRemoved have "\<And>pod. obj = MetaObject pod \<Longrightarrow> named pod" by simp
      from run_enqueuePod [where obj = obj and h = h, OF this] 1 PodRemoved show ?thesis by (simp add: NewCleaner_def)
    next
      case (2 k key pod)
      then have "\<And>pod. obj = MetaObject pod \<Longrightarrow> named pod" by simp
      from run_enqueuePod [where obj = obj and h = h, OF this] 2 PodRemoved show ?thesis by (simp add: NewCleaner_def)
    qed (auto simp: PodRemoved NewCleaner_def intro: exI [of _ "[]"])
  qed
  then obtain ks where ks: "?first ks" ..
  have "list_all change_named cs" using Cons.prems by simp
  from Cons.IH [OF this, of "h @ map QueueAdd ks"] obtain ks' where
    ks': "run_state (informer_run (NewCleaner kc) cs) (h @ map QueueAdd ks) =
      ((), (h @ map QueueAdd ks) @ map QueueAdd ks')" "list_all (pod_key kc) ks'" by blast
  have "run_state (informer_run (NewCleaner kc) (c # cs)) h =
      run_state (informer_run (NewCleaner kc) cs) (snd (run_state (informer_run (NewCleaner kc) [c]) h))"
    by (cases c) (simp_all split: prod.split)
  with ks ks' show ?case by (intro exI [of _ "ks @ ks'"]) simp
qed

lemma informer_adds:
  assumes "informer_thread kc t" and "e \<in> set t"
  obtains k where "e = QueueAdd k" and "pod_key kc k"
proof -
  from assms(1) obtain cs where cs: "list_all change_named cs" "run_state (informer_run (NewCleaner kc) cs) [] = ((), t)"
    by (auto simp: informer_thread_def)
  with run_informer [OF cs(1), of "[]"] assms(2) that show ?thesis by (auto simp: list_all_iff)
qed

end

section \<open>What a worker does with an item\<close>

fun is_report :: "clean_event \<Rightarrow> bool" where
  "is_report (QueueForget i) = True"
| "is_report (HandleError m) = True"
| "is_report e = False"

text \<open>Looking up the endpoints of a key, and an attempt on each of them.\<close>

definition handled_shape :: "cache_lib \<Rightarrow> work_item \<Rightarrow> clean_event list \<Rightarrow> bool" where
  "handled_shape kc obj t \<longleftrightarrow>
     t = [] \<and> (\<forall>key. obj = KeyItem key \<longrightarrow> (\<exists>err. SplitMetaNamespaceKey kc key = Inl err)) \<or>
     (\<exists>key ns name. obj = KeyItem key \<and> SplitMetaNamespaceKey kc key = Inr (ns, name) \<and>
     ((\<exists>err. t = [FindByPodName name ns (Inl err)]) \<or>
      (\<exists>deps ts. t = FindByPodName name ns (Inr deps) # concat ts \<and> list_all2 deletion_shape deps ts)))"

definition item_shape :: "cache_lib \<Rightarrow> work_item \<Rightarrow> clean_event list \<Rightarrow> bool" where
  "item_shape kc obj t \<longleftrightarrow> (\<exists>mid pre post. t = QueueGet (Some obj) # mid @ pre @ QueueDone obj # post \<and>
     handled_shape kc obj mid \<and> list_all is_report pre \<and> list_all is_report post)"

lemma run_delete_all_shape:
  "\<exists>ts. run_state (delete_all env lib deps) h = ((), h @ concat ts) \<and> list_all2 deletion_shape deps ts"
proof (induction deps arbitrary: h)
  case (Cons d deps)
  obtain t where t: "run_state (deleteInterface env lib d) h = ((), h @ t)" "deletion_shape d t"
    using deleteInterface_shape by blast
  obtain ts where "run_state (delete_all env lib deps) (h @ t) = ((), (h @ t) @ concat ts)"
    "list_all2 deletion_shape deps ts" using Cons.IH by blast
  with t show ?case by (intro exI [of _ "t # ts"]) simp
qed (simp add: exI [of _ "[]"])

lemma run_handleKey_shape:
  "\<exists>r t. run_state (handleKey env lib kc key) h = (r, h @ t) \<and> handled_shape kc (KeyItem key) t"
proof (cases "SplitMetaNamespaceKey kc key")
  case (Inr p)
  obtain ns name where p: "p = (ns, name)" by fastforce
  show ?thesis
  proof (cases "find_eps env h name ns")
    case (Inl e)
    with Inr p show ?thesis by (auto simp: handleKey_def handled_shape_def)
  next
    case (Inr deps)
    let ?find = "FindByPodName name ns (Inr deps)"
    obtain ts where "run_state (delete_all env lib deps) (h @ [?find]) = ((), (h @ [?find]) @ concat ts)"
      "list_all2 deletion_shape deps ts"
      using run_delete_all_shape by blast
    with Inr p \<open>SplitMetaNamespaceKey kc key = Inr p\<close> show ?thesis
      by (intro exI [of _ None] exI [of _ "?find # concat ts"]) (auto simp: handleKey_def handled_shape_def)
  qed
qed (simp add: handleKey_def handled_shape_def)

lemma run_processNextWorkItem_shape:
  "\<exists>t. run_state (processNextWorkItem env lib kc) h = (queue_get env h \<noteq> None, h @ t) \<and>
     (case queue_get env h of None \<Rightarrow> t = [QueueGet None] | Some obj \<Rightarrow> item_shape kc obj t)"
proof (cases "queue_get env h")
  case (Some obj)
  let ?h = "h @ [QueueGet (Some obj)]"
  have "\<exists>r mid pre. run_state (processItemInQueue env lib kc obj) ?h = (r, ?h @ mid @ pre @ [QueueDone obj]) \<and>
      handled_shape kc obj mid \<and> list_all is_report pre"
  proof (cases obj)
    case (KeyItem key)
    obtain r t where "run_state (handleKey env lib kc key) ?h = (r, ?h @ t)" "handled_shape kc obj t"
      using run_handleKey_shape unfolding KeyItem by blast
    then show ?thesis
      by (cases r; intro exI exI [of _ t] exI [of _ "if r = None then [QueueForget obj] else []"])
        (simp_all add: processItemInQueue_def KeyItem)
  next
    case (OtherItem repr)
    then show ?thesis
      by (intro exI exI [of _ "[]"] exI [of _ "[QueueForget obj, HandleError _]"])
        (simp add: processItemInQueue_def handled_shape_def)
  qed
  then obtain r mid pre where run: "run_state (processItemInQueue env lib kc obj) ?h =
      (r, ?h @ mid @ pre @ [QueueDone obj])" "handled_shape kc obj mid" "list_all is_report pre" by blast
  let ?post = "case r of None \<Rightarrow> [] | Some e \<Rightarrow> [HandleError e]"
  let ?t = "QueueGet (Some obj) # mid @ pre @ QueueDone obj # ?post"
  have "run_state (processNextWorkItem env lib kc) h = (True, h @ ?t)"
    using Some run(1) by (cases r) (simp_all add: processNextWorkItem_def)
  moreover have "list_all is_report ?post" by (cases r) simp_all
  with run(2,3) have "item_shape kc obj ?t" unfolding item_shape_def by blast
  ultimately show ?thesis by (intro exI [of _ ?t]) (simp add: Some)
qed (simp add: processNextWorkItem_def)

lemma run_runWorker_shape:
  "\<exists>r bs end_of. run_state (runWorker env lib kc n) h = (r, h @ concat bs @ end_of) \<and>
     (\<forall>b \<in> set bs. \<exists>obj. item_shape kc obj b) \<and> set end_of \<subseteq> {QueueGet None}"
proof (induction n arbitrary: h)
  case 0
  show ?case by (intro exI [of _ False] exI [of _ "[]"]) simp
next
  case (Suc n)
  obtain t where t: "run_state (processNextWorkItem env lib kc) h = (queue_get env h \<noteq> None, h @ t)"
    "case queue_get env h of None \<Rightarrow> t = [QueueGet None] | Some obj \<Rightarrow> item_shape kc obj t"
    using run_processNextWorkItem_shape by blast
  show ?case
  proof (cases "queue_get env h")
    case None
    with t show ?thesis by (intro exI [of _ True] exI [of _ "[]"] exI [of _ "[QueueGet None]"]) simp
  next
    case (Some obj)
    obtain r bs end_of where "run_state (runWorker env lib kc n) (h @ t) = (r, (h @ t) @ concat bs @ end_of)"
      "\<forall>b \<in> set bs. \<exists>obj. item_shape kc obj b" "set end_of \<subseteq> {QueueGet None}"
      using Suc.IH by blast
    with t Some show ?thesis by (intro exI [of _ r] exI [of _ "t # bs"] exI [of _ end_of]) auto
  qed
qed

lemma worker_blocks:
  assumes "queue_worker lib kc (us @ e # vs)" and "e \<noteq> QueueGet None"
  obtains bs xs ys obj zs where "us = concat bs @ xs" and "item_shape kc obj (xs @ e # ys)" and "vs = ys @ zs"
proof -
  obtain env n r where "run_state (runWorker env lib kc n) [] = (r, us @ e # vs)"
    using assms(1) by (auto simp: queue_worker_def)
  with run_runWorker_shape [of env lib kc n "[]"] obtain bs end_of where
    t: "us @ e # vs = concat bs @ end_of" "\<forall>b \<in> set bs. \<exists>obj. item_shape kc obj b" "set end_of \<subseteq> {QueueGet None}"
    by auto
  have "e \<notin> set end_of" using t(3) assms(2) by blast
  from append_before [OF t(1) this] obtain zs where zs: "concat bs = us @ e # zs" by blast
  from concat_at [OF this] obtain yss xs ys zss where
    at: "bs = yss @ (xs @ e # ys) # zss" "us = concat yss @ xs" by blast
  then have "vs = ys @ concat zss @ end_of" using t(1) zs by simp
  with at t(2) that show ?thesis by auto
qed

lemma shape_no_queue: "deletion_shape ep t \<Longrightarrow> e \<in> set t \<Longrightarrow> \<not> is_queue_event e"
proof -
  have rel: "releases_of ep e \<Longrightarrow> \<not> is_queue_event e" by (auto simp: releases_of_def)
  assume "deletion_shape ep t" "e \<in> set t"
  then show ?thesis
    unfolding deletion_shape_def found_first_def using rel by (auto simp: list_all_iff dest: is_look_simps)
qed

lemma handled_no_queue:
  assumes "handled_shape kc obj t" and "e \<in> set t"
  shows "\<not> is_queue_event e"
proof -
  have "\<exists>d \<in> set deps. deletion_shape d t'" if "list_all2 deletion_shape deps ts" "t' \<in> set ts" for deps ts t'
    using that by (metis in_set_conv_nth list_all2_conv_all_nth)
  then show ?thesis
    using assms by (fastforce simp: handled_shape_def dest: shape_no_queue)
qed

lemma worker_done:
  assumes "queue_worker lib kc (us @ QueueDone i # vs)"
  shows "holds i us"
proof -
  obtain bs xs ys obj where us: "us = concat bs @ xs" and "item_shape kc obj (xs @ QueueDone i # ys)"
    by (rule worker_blocks [OF assms]) simp
  then obtain mid pre post where eq: "xs @ QueueDone i # ys = QueueGet (Some obj) # mid @ pre @ QueueDone obj # post"
    and t: "handled_shape kc obj mid" "list_all is_report pre" "list_all is_report post"
    unfolding item_shape_def by blast
  have no: "QueueDone j \<notin> set mid" "QueueDone j \<notin> set pre" "QueueDone j \<notin> set post" for j
    using handled_no_queue [OF t(1), of "QueueDone j"] t(2,3) by (auto simp: list_all_iff)
  have pre: "list_all (\<lambda>e. e \<noteq> QueueDone i) (QueueGet (Some obj) # mid @ pre)"
    using no by (auto simp: list_all_iff)
  have "xs @ QueueDone i # ys = (QueueGet (Some obj) # mid @ pre) @ QueueDone obj # post" using eq by simp
  from append_past [OF this pre] obtain zs where
    zs: "xs = (QueueGet (Some obj) # mid @ pre) @ zs" "zs @ QueueDone i # ys = QueueDone obj # post" by auto
  with no(3) [of i] have "zs = []" "i = obj" by (cases zs; auto)+
  with zs(1) us have "us = concat bs @ QueueGet (Some i) # (mid @ pre)" "QueueDone i \<notin> set (mid @ pre)"
    using no by auto
  then show ?thesis unfolding holds_def by blast
qed

text \<open>
  A worker that releases an address or deletes an endpoint does so in an attempt on an endpoint it
  found for the key it holds.
\<close>

lemma worker_attempt:
  assumes "queue_worker lib kc (us @ e # vs)" and "is_release e \<or> (\<exists>ns n err. e = DeleteEp ns n err)"
  obtains before key ns name deps ts ep p q where
    "us = before @ QueueGet (Some (KeyItem key)) # FindByPodName name ns (Inr deps) # ts @ p"
    and "SplitMetaNamespaceKey kc key = Inr (ns, name)" and "ep \<in> set deps" and "deletion_shape ep (p @ e # q)"
    and "\<And>i. QueueDone i \<notin> set (ts @ p)"
proof -
  have not: "e \<noteq> QueueGet a" "\<not> is_report e" "e \<noteq> QueueDone i" "e \<noteq> FindByPodName name ns r" for a i name ns r
    using assms(2) by (cases e; auto)+
  obtain bs xs ys obj where us: "us = concat bs @ xs" and "item_shape kc obj (xs @ e # ys)"
    by (rule worker_blocks [OF assms(1) not(1)])
  then obtain mid pre post where eq: "xs @ e # ys = [QueueGet (Some obj)] @ mid @ pre @ QueueDone obj # post"
    and t: "handled_shape kc obj mid" "list_all is_report pre" "list_all is_report post"
    unfolding item_shape_def by auto
  have "list_all (\<lambda>x. x \<noteq> e) [QueueGet (Some obj)]" using not(1) by auto
  from append_past [OF eq this] obtain zs where
    zs: "xs = [QueueGet (Some obj)] @ zs" "zs @ e # ys = mid @ pre @ QueueDone obj # post" by auto
  have "e \<notin> set (pre @ QueueDone obj # post)" using t(2,3) not(2,3) by (auto simp: list_all_iff)
  from append_before [OF zs(2) this] obtain ws where mid: "mid = zs @ e # ws" by blast
  then have "mid \<noteq> []" "mid \<noteq> [FindByPodName name ns r]" for name ns r
    using not(4) by (cases zs; auto)+
  with t(1) obtain key ns name deps ts where h: "obj = KeyItem key"
    "SplitMetaNamespaceKey kc key = Inr (ns, name)" "mid = FindByPodName name ns (Inr deps) # concat ts"
    "list_all2 deletion_shape deps ts"
    unfolding handled_shape_def by blast
  have "zs @ e # ws = [FindByPodName name ns (Inr deps)] @ concat ts" using mid h(3) by simp
  note h = h(1,2) this h(4)
  have "list_all (\<lambda>x. x \<noteq> e) [FindByPodName name ns (Inr deps)]" using not(4) by auto
  from append_past [OF h(3) this] obtain rs where
    rs: "zs = [FindByPodName name ns (Inr deps)] @ rs" "concat ts = rs @ e # ws" by auto
  from concat_at [OF rs(2)] obtain ts1 p q ts2 where
    ts: "ts = ts1 @ (p @ e # q) # ts2" "rs = concat ts1 @ p" by blast
  obtain deps1 ep deps2 where deps: "deps = deps1 @ ep # deps2" "deletion_shape ep (p @ e # q)"
    using h(4) by (auto simp: ts(1) list_all2_append2 list_all2_Cons2)
  have "QueueDone i \<notin> set mid" for i using handled_no_queue [OF t(1), of "QueueDone i"] by auto
  then have no_done: "QueueDone i \<notin> set (concat ts1 @ p)" for i by (simp add: mid rs(1) ts(2))
  have "us = concat bs @ QueueGet (Some (KeyItem key)) # FindByPodName name ns (Inr deps) # concat ts1 @ p"
    by (simp add: us zs(1) h(1) rs(1) ts(2))
  from that [OF this h(2) _ deps(2) no_done] show ?thesis by (simp add: deps(1))
qed

text \<open>So it holds the key of the Pod it looked up.\<close>

definition acting :: "cache_lib \<Rightarrow> danm_ep \<Rightarrow> string \<Rightarrow> clean_event list \<Rightarrow> clean_event list \<Rightarrow> bool" where
  "acting kc ep key before after \<longleftrightarrow>
     (\<exists>xs ys ns name deps. before = xs @ QueueGet (Some (KeyItem key)) # ys \<and>
        SplitMetaNamespaceKey kc key = Inr (ns, name) \<and> FindByPodName name ns (Inr deps) \<in> set ys \<and> ep \<in> set deps \<and>
        QueueDone (KeyItem key) \<notin> set (ys @ after)) \<and>
     (\<forall>ns n err. DeleteEp ns n err \<notin> set after)"

lemma acting_less:
  "acting kc ep key before after \<Longrightarrow> set after' \<subseteq> set after \<Longrightarrow> acting kc ep key before after'"
  unfolding acting_def set_append by blast

lemma worker_acts:
  assumes "queue_worker lib kc (us @ e # vs)" and "is_release e \<or> (\<exists>ns n err. e = DeleteEp ns n err)"
  obtains ep key before after where
    "us = before @ GetEp (Namespace (EpMeta ep)) (Name (EpMeta ep)) None # after" and "acting kc ep key before after"
    and "releases_of ep e \<or> (\<exists>err. e = DeleteEp (Namespace (EpMeta ep)) (Name (EpMeta ep)) err)"
proof -
  obtain xs key ns name deps ts ep p q where
    us: "us = xs @ QueueGet (Some (KeyItem key)) # FindByPodName name ns (Inr deps) # ts @ p"
    and t: "SplitMetaNamespaceKey kc key = Inr (ns, name)" "ep \<in> set deps" "deletion_shape ep (p @ e # q)"
      "\<And>i. QueueDone i \<notin> set (ts @ p)"
    by (rule worker_attempt [OF assms]) blast
  from shape_acts [OF t(3) assms(2)] obtain dnet w where w: "p = found_first ep dnet @ w" "list_all (releases_of ep) w"
    "releases_of ep e \<or> (\<exists>err. e = DeleteEp (Namespace (EpMeta ep)) (Name (EpMeta ep)) err)" by blast
  let ?ys = "FindByPodName name ns (Inr deps) # ts @ [CleanSleep 1000]"
  let ?after = "GetNetwork ep (Inr dnet) # w"
  have "us = (xs @ QueueGet (Some (KeyItem key)) # ?ys) @
      GetEp (Namespace (EpMeta ep)) (Name (EpMeta ep)) None # ?after"
    by (simp add: us w(1) found_first_def)
  moreover have "QueueDone i \<notin> set (?ys @ ?after)" for i using t(4) [of i] by (simp add: w(1) found_first_def)
  moreover have "DeleteEp ns' n err \<notin> set ?after" for ns' n err using w(2) by (auto simp: list_all_iff)
  ultimately show ?thesis using that w(3) t(1,2) unfolding acting_def by (metis list.set_intros(1))
qed

lemma worker_adds_nothing: "\<not> queue_worker lib kc (us @ QueueAdd k # vs)"
proof
  assume "queue_worker lib kc (us @ QueueAdd k # vs)"
  then obtain bs xs ys obj where "item_shape kc obj (xs @ QueueAdd k # ys)"
    by (rule worker_blocks) simp
  then obtain mid pre post where "xs @ QueueAdd k # ys = QueueGet (Some obj) # mid @ pre @ QueueDone obj # post"
    and t: "handled_shape kc obj mid" "list_all is_report pre" "list_all is_report post"
    unfolding item_shape_def by blast
  then have "QueueAdd k \<in> set (QueueGet (Some obj) # mid @ pre @ QueueDone obj # post)" by (metis in_set_conv_decomp)
  with t handled_no_queue [OF t(1), of "QueueAdd k"] show False by (auto simp: list_all_iff)
qed

section \<open>All threads together\<close>

lemma of_thread_split:
  assumes "of_thread i tr = before @ e # after"
  shows "\<exists>xs ys. tr = xs @ (i, e) # ys \<and> of_thread i xs = before \<and> of_thread i ys = after"
  using assms
proof (induction tr arbitrary: before)
  case (Cons x tr)
  obtain j a where x: "x = (j, a)" by fastforce
  show ?case
  proof (cases "j = i \<and> before = []")
    case True
    with Cons.prems x show ?thesis by (intro exI [of _ "[]"] exI [of _ tr]) (simp add: of_thread_def)
  next
    case False
    have "\<exists>before'. of_thread i tr = before' @ e # after \<and> of_thread i [x] @ before' = before"
      using Cons.prems False by (cases "j = i"; cases before) (auto simp: x of_thread_def)
    then obtain before' where b: "of_thread i tr = before' @ e # after" "of_thread i [x] @ before' = before" by blast
    from Cons.IH [OF b(1)] obtain xs ys where
      "tr = xs @ (i, e) # ys" "of_thread i xs = before'" "of_thread i ys = after" by blast
    with b(2) show ?thesis
      by (intro exI [of _ "x # xs"] exI [of _ ys]) (auto simp: x of_thread_def)
  qed
qed (simp add: of_thread_def)

text \<open>The threads of the cleaner that share the queue, and what the API server answers them.\<close>

definition queue_threads :: "ipam_lib \<Rightarrow> cache_lib \<Rightarrow> nat \<Rightarrow> (clean_event list \<Rightarrow> bool) list" where
  "queue_threads lib kc n = informer_thread kc # replicate n (queue_worker lib kc)"

definition finds_own :: "(string \<times> string \<Rightarrow> string) \<Rightarrow> clean_event list \<Rightarrow> bool" where
  "finds_own owner t \<longleftrightarrow> (\<forall>name ns deps. FindByPodName name ns (Inr deps) \<in> set t \<longrightarrow> ns \<noteq> [] \<longrightarrow> name \<noteq> [] \<longrightarrow>
     (\<forall>d \<in> set deps. Namespace (EpMeta d) = ns \<and> owner (ep_key d) = name))"

lemma thread_program:
  assumes "interleaved (queue_threads lib kc n) tr" and "(j, e) \<in> set tr"
  shows "j = 0 \<and> informer_thread kc (of_thread j tr) \<or> j \<noteq> 0 \<and> queue_worker lib kc (of_thread j tr)"
proof -
  have "j < length (queue_threads lib kc n)" using assms by (force simp: interleaved_def)
  with assms(1) have "(queue_threads lib kc n ! j) (of_thread j tr)" by (simp add: interleaved_def)
  with \<open>j < length (queue_threads lib kc n)\<close> show ?thesis
    by (cases j) (simp_all add: queue_threads_def)
qed

context cache_keys
begin

lemma thread_worker:
  assumes "interleaved (queue_threads lib kc n) tr" and "tr = us @ (j, e) # vs" and "\<And>k. e \<noteq> QueueAdd k"
  shows "queue_worker lib kc (of_thread j us @ e # of_thread j vs)"
proof -
  have "(j, e) \<in> set tr" by (simp add: assms(2))
  moreover have "e \<in> set (of_thread j tr)" using assms(2) by simp
  then have "\<not> informer_thread kc (of_thread j tr)" using informer_adds assms(3) by metis
  ultimately show ?thesis using thread_program [OF assms(1)] assms(2) by fastforce
qed

lemma threads_return_own:
  assumes "interleaved (queue_threads lib kc n) (xs @ ys)"
  shows "returns_own xs"
  unfolding returns_own_def
proof (intro allI impI)
  fix us j i vs
  assume "xs = us @ (j, QueueDone i) # vs"
  then have "xs @ ys = us @ (j, QueueDone i) # (vs @ ys)" by simp
  from thread_worker [OF assms this] show "holds i (of_thread j us)" by (rule worker_done) simp
qed

lemma added_by_informer:
  assumes "interleaved (queue_threads lib kc n) tr" and "(j, QueueAdd k) \<in> set tr"
  shows "pod_key kc k"
proof -
  obtain us vs where "of_thread j tr = us @ QueueAdd k # vs"
    using assms(2) by (metis in_set_conv_decomp set_of_thread)
  with thread_program [OF assms] worker_adds_nothing have "informer_thread kc (of_thread j tr)" by metis
  moreover have "QueueAdd k \<in> set (of_thread j tr)" using assms(2) by (simp add: set_of_thread)
  ultimately show ?thesis using informer_adds by (metis clean_event.inject(11))
qed

end

text \<open>A thread that acts on an endpoint holds the key of the Pod that owns the endpoint.\<close>

definition owner_key :: "(string \<times> string \<Rightarrow> string) \<Rightarrow> danm_ep \<Rightarrow> work_item" where
  "owner_key owner ep = KeyItem (key_of (Namespace (EpMeta ep)) (owner (ep_key ep)))"

lemma acting_holds:
  assumes "work_queue step ok waiting processing" and "cache_keys kc"
    and "interleaved (queue_threads lib kc n) tr" and "queue_run step q (map snd tr) \<noteq> None"
    and "ok q" and "processing q = {}" and "waiting q = {}" and "finds_own owner (map snd tr)"
    and "tr = xs @ zs" and "of_thread j xs = before @ e # after" and "acting kc ep key before after"
    and "e \<noteq> QueueDone (KeyItem key)"
  shows "holds (owner_key owner ep) (of_thread j xs)"
proof -
  obtain ys ns name deps us where t: "before = us @ QueueGet (Some (KeyItem key)) # ys"
    "SplitMetaNamespaceKey kc key = Inr (ns, name)" "FindByPodName name ns (Inr deps) \<in> set ys" "ep \<in> set deps"
    "QueueDone (KeyItem key) \<notin> set (ys @ after)"
    using assms(11) by (auto simp: acting_def)
  have xs: "of_thread j xs = us @ QueueGet (Some (KeyItem key)) # ys @ e # after" by (simp add: assms(10) t(1))
  have run: "queue_run step q (map snd xs) \<noteq> None"
    using assms(4,9) by (auto simp: queue_run_append split: option.splits)
  have own: "returns_own xs" using cache_keys.threads_return_own [OF assms(2)] assms(3,9) by blast
  have "QueueGet (Some (KeyItem key)) \<in> set (of_thread j xs)" by (simp add: xs)
  then have "(j, QueueGet (Some (KeyItem key))) \<in> set xs" by (simp add: set_of_thread)
  with work_queue.exclusive [OF assms(1) _ assms(5-7) own] run have "KeyItem key \<in> added xs" by blast
  then have "\<exists>k. (k, QueueAdd key) \<in> set tr" by (force simp: added_def assms(9))
  then obtain k where "(k, QueueAdd key) \<in> set tr" ..
  then have "pod_key kc key" by (rule cache_keys.added_by_informer [OF assms(2,3)])
  then have key: "key = key_of ns name" "ns \<noteq> []" "name \<noteq> []"
    using cache_keys.pod_key_parts [OF assms(2) _ _ t(2)] by (auto simp: pod_key_def)
  have "FindByPodName name ns (Inr deps) \<in> set (of_thread j xs)" using t(3) by (simp add: xs)
  then have "FindByPodName name ns (Inr deps) \<in> set (map snd tr)"
    by (force simp: set_of_thread assms(9))
  with assms(8) t(4) key(2,3) have "Namespace (EpMeta ep) = ns" "owner (ep_key ep) = name"
    unfolding finds_own_def by blast+
  with key(1) have "owner_key owner ep = KeyItem key" by (simp add: owner_key_def)
  moreover have "holds (KeyItem key) (of_thread j xs)"
    unfolding holds_def xs using t(5) assms(12)
    by (intro exI [of _ us] exI [of _ "ys @ e # after"]) auto
  ultimately show ?thesis by simp
qed

text \<open>While a worker acts on an endpoint that it found to exist, nobody deletes it.\<close>

lemma nobody_deletes:
  fixes ep :: danm_ep
  defines "look \<equiv> GetEp (Namespace (EpMeta ep)) (Name (EpMeta ep)) None"
    and "del \<equiv> DeleteEp (Namespace (EpMeta ep)) (Name (EpMeta ep)) None"
  assumes "work_queue step ok waiting processing" and "cache_keys kc"
    and "interleaved (queue_threads lib kc n) tr" and "queue_run step q (map snd tr) \<noteq> None"
    and "ok q" and "processing q = {}" and "waiting q = {}" and "finds_own owner (map snd tr)"
    and "tr = xs @ (i, look) # ys @ zs" and "of_thread i xs = before" and "of_thread i ys = after"
    and "acting kc ep key before after"
  shows "del \<notin> set (map snd ys)"
proof
  note holding = acting_holds [OF assms(3-10)]
  assume "del \<in> set (map snd ys)"
  then obtain j ys1 ys2 where ys: "ys = ys1 @ (j, del) # ys2" by (auto simp: in_set_conv_decomp)
  let ?p = "xs @ (i, look) # ys1"
  have tr: "tr = ?p @ (j, del) # (ys2 @ zs)" by (simp add: assms(11) ys)
  have "queue_worker lib kc (of_thread j ?p @ del # of_thread j (ys2 @ zs))"
    by (rule cache_keys.thread_worker [OF assms(4,5) tr]) (simp add: del_def)
  then obtain ep' key' before' after' where
    j: "of_thread j ?p = before' @ GetEp (Namespace (EpMeta ep')) (Name (EpMeta ep')) None # after'"
    "acting kc ep' key' before' after'"
    "releases_of ep' del \<or> (\<exists>err. del = DeleteEp (Namespace (EpMeta ep')) (Name (EpMeta ep')) err)"
    by (rule worker_acts) (simp add: del_def)
  have "owner_key owner ep' = owner_key owner ep" using j(3) by (auto simp: owner_key_def del_def)
  then have "holds (owner_key owner ep) (of_thread j ?p)" using holding [OF tr j(1,2)] by (simp add: del_def)
  moreover have at: "of_thread i ?p = before @ look # of_thread i ys1" by (simp add: assms(12))
  have acts: "acting kc ep key before (of_thread i ys1)"
    using assms(14) by (rule acting_less) (auto simp: assms(13) [symmetric] ys)
  have "holds (owner_key owner ep) (of_thread i ?p)" by (rule holding [OF tr at acts]) (simp add: look_def)
  moreover have "queue_run step q (map snd ?p) \<noteq> None"
    using assms(6) unfolding tr by (auto simp: queue_run_append split: option.splits)
  moreover have "returns_own ?p" using cache_keys.threads_return_own [OF assms(4)] assms(5) tr by blast
  ultimately have "i = j" using work_queue.exclusive [OF assms(3) _ assms(7-9)] by blast
  then have "del \<in> set after" by (simp add: assms(13) [symmetric] ys)
  with assms(14) show False unfolding acting_def del_def by blast
qed

section \<open>Properties\<close>

text \<open>
  C19: The queue workers never release an address their endpoint has lost. Any number of them,
  interleaved in any way with each other and with the informer that fills the queue, release an address
  only of an endpoint they looked up themselves and that still exists: the work queue hands the key of
  a Pod to one worker at a time, so that two of them are never at the same endpoint. (The sweep does
  not take part in this: see the two properties of the cleaner's threads.)
\<close>

theorem workers_release_held:
  assumes "work_queue step ok waiting processing" and "cache_keys kc"
    and "interleaved (queue_threads lib kc n) tr" and "queue_run step q (map snd tr) \<noteq> None"
    and "ok q" and "processing q = {}" and "waiting q = {}" and "finds_own owner (map snd tr)"
    and "api_run E (map snd tr) \<noteq> None" and "tr = us @ (i, e) # vs" and "is_release e"
  shows "\<exists>name ns deps ep E'. (i, FindByPodName name ns (Inr deps)) \<in> set us \<and> ep \<in> set deps \<and>
     releases_of ep e \<and> api_run E (map snd us) = Some E' \<and> ep_key ep \<in> E'"
proof -
  have "e \<noteq> QueueAdd k" for k using assms(11) by auto
  from cache_keys.thread_worker [OF assms(2,3,10) this] have "queue_worker lib kc (of_thread i us @ e # of_thread i vs)" .
  then obtain ep key before after where
    i: "of_thread i us = before @ GetEp (Namespace (EpMeta ep)) (Name (EpMeta ep)) None # after"
    "acting kc ep key before after"
    "releases_of ep e \<or> (\<exists>err. e = DeleteEp (Namespace (EpMeta ep)) (Name (EpMeta ep)) err)"
    by (rule worker_acts) (use assms(11) in blast)
  let ?get = "GetEp (Namespace (EpMeta ep)) (Name (EpMeta ep)) None"
  from of_thread_split [OF i(1)] obtain xs ys where
    us: "us = xs @ (i, ?get) # ys" "of_thread i xs = before" "of_thread i ys = after" by blast
  have "DeleteEp (Namespace (EpMeta ep)) (Name (EpMeta ep)) None \<notin> set (map snd ys)"
    by (rule nobody_deletes [OF assms(1-8) _ us(2,3) i(2)]) (simp add: assms(10) us(1))
  moreover have "api_run E (map snd us) \<noteq> None"
    using assms(9,10) by (auto simp: api_run_append split: option.splits)
  ultimately obtain E' where "api_run E (map snd us) = Some E'" "ep_key ep \<in> E'"
    using api_run_read [of E "map snd xs" "Namespace (EpMeta ep)" "Name (EpMeta ep)" "map snd ys"] by (auto simp: us(1))
  moreover have "\<exists>name ns deps. FindByPodName name ns (Inr deps) \<in> set before \<and> ep \<in> set deps"
    using i(2) unfolding acting_def by fastforce
  then obtain name ns deps where "FindByPodName name ns (Inr deps) \<in> set before" "ep \<in> set deps" by blast
  then have "FindByPodName name ns (Inr deps) \<in> set (of_thread i us)" "ep \<in> set deps" by (simp_all add: i(1))
  then have "(i, FindByPodName name ns (Inr deps)) \<in> set us" "ep \<in> set deps" by (simp_all add: set_of_thread)
  moreover have "releases_of ep e" using i(3) assms(11) by auto
  ultimately show ?thesis by blast
qed

section \<open>The property at a concrete run\<close>

text \<open>
  The informer reports the Pod removed twice while the first worker deletes its endpoint; the second
  worker gets the key once the first is done with it, and finds nothing.
\<close>

definition gone_pod :: pod where
  "gone_pod = \<lparr>PodMeta = \<lparr>Name = ''pod'', Namespace = ''ns'', UID = ''u1'', Labels = [], ResourceVersion = []\<rparr>,
     NodeName = ''node'', Phase = ''Running''\<rparr>"

definition shared_trace :: "(nat \<times> clean_event) list" where
  "shared_trace =
     [(0, QueueAdd ''ns/pod''), (1, QueueGet (Some (KeyItem ''ns/pod''))), (0, QueueAdd ''ns/pod''),
      (1, FindByPodName ''pod'' ''ns'' (Inr [race_ep])), (1, CleanSleep 1000), (1, GetEp ''ns'' ''ep'' None),
      (1, GetNetwork race_ep (Inr cleaner_net)), (1, IpamFree cleaner_net ''10.0.0.1/24'' None),
      (1, IpamFree cleaner_net ''fd00::1/64'' None), (1, DeleteEp ''ns'' ''ep'' None),
      (1, QueueForget (KeyItem ''ns/pod'')), (1, QueueDone (KeyItem ''ns/pod'')),
      (2, QueueGet (Some (KeyItem ''ns/pod''))), (2, FindByPodName ''pod'' ''ns'' (Inr [])),
      (2, QueueForget (KeyItem ''ns/pod'')), (2, QueueDone (KeyItem ''ns/pod''))]"

definition serving_env :: "danm_ep list \<Rightarrow> clean_env" where
  "serving_env deps = (race_env race_ep cleaner_net None)\<lparr>find_eps := \<lambda>_ _ _. Inr deps,
     queue_get := \<lambda>_. Some (KeyItem ''ns/pod'')\<rparr>"

lemma serving_env_simps [simp]:
  "find_eps (serving_env deps) h n ns = Inr deps" "queue_get (serving_env deps) h = Some (KeyItem ''ns/pod'')"
  "get_network (serving_env deps) h d = Inr cleaner_net" "delete_ep_err (serving_env deps) h ns n = None"
  "get_ep_err (serving_env deps) h ns n = None" "free_err (serving_env deps) h net ip = None"
  by (simp_all add: serving_env_def)

lemma shared_trace_threads: "interleaved (queue_threads cleaner_lib slash_keys 2) shared_trace"
proof -
  have split: "SplitMetaNamespaceKey slash_keys ''ns/pod'' = Inr (''ns'', ''pod'')"
    by (simp add: slash_keys_def)
  have "run_state (informer_run (NewCleaner slash_keys) [PodRemoved (MetaObject gone_pod), PodRemoved (MetaObject gone_pod)]) [] =
      ((), of_thread 0 shared_trace)"
    by (simp add: NewCleaner_def enqueuePod_def slash_keys_def key_of_def gone_pod_def shared_trace_def of_thread_def)
  moreover have "named gone_pod" by (simp add: named_def api_name_def gone_pod_def)
  ultimately have informer: "informer_thread slash_keys (of_thread 0 shared_trace)"
    unfolding informer_thread_def by (intro exI conjI) (simp_all del: informer_run.simps)
  have one: "queue_worker cleaner_lib slash_keys (of_thread i shared_trace)"
    if "snd (run_state (runWorker (serving_env deps) cleaner_lib slash_keys 1) []) = of_thread i shared_trace" for i deps
    unfolding queue_worker_def using that by (metis prod.collapse)
  have "queue_worker cleaner_lib slash_keys (of_thread 1 shared_trace)"
    by (rule one [of "[race_ep]"])
      (simp add: processNextWorkItem_def processItemInQueue_def handleKey_def split deleteInterface_def DeleteDanmEp_def
        SelectReleaseIpServiceImplementation_def GetSupportedReleaseIPHandlers_def danm_IsIPAllocatedByMe_def
        danm_ReleaseIP_def race_ep_def cleaner_ep_def cleaner_lib_def shared_trace_def of_thread_def)
  moreover have "queue_worker cleaner_lib slash_keys (of_thread 2 shared_trace)"
    by (rule one [of "[]"])
      (simp add: processNextWorkItem_def processItemInQueue_def handleKey_def split shared_trace_def of_thread_def)
  moreover have "fst ` set shared_trace \<subseteq> {..<3}" by (simp add: shared_trace_def)
  ultimately show ?thesis
    using informer by (auto simp: interleaved_def queue_threads_def less_Suc_eq numeral_2_eq_2 numeral_3_eq_3)
qed

lemma workers_release_held_witness:
  "\<exists>ep E'. releases_of ep (IpamFree cleaner_net ''10.0.0.1/24'' None) \<and>
     api_run {(''ns'', ''ep'')} (map snd (take 7 shared_trace)) = Some E' \<and> ep_key ep \<in> E'"
proof -
  have "queue_run wq_step wq_empty (map snd shared_trace) \<noteq> None"
    by (simp add: shared_trace_def wq_empty_def)
  moreover have "wq_ok wq_empty" "Processing wq_empty = {}" "Dirty wq_empty = {}"
    by (simp_all add: wq_ok_def wq_empty_def)
  moreover have "finds_own (\<lambda>_. ''pod'') (map snd shared_trace)"
    by (auto simp: finds_own_def shared_trace_def race_ep_def cleaner_ep_def)
  moreover have "api_run {(''ns'', ''ep'')} (map snd shared_trace) \<noteq> None" by (simp add: shared_trace_def)
  moreover have "shared_trace = take 7 shared_trace @
      (1, IpamFree cleaner_net ''10.0.0.1/24'' None) # drop 8 shared_trace"
    by (simp add: shared_trace_def)
  ultimately show ?thesis
    using workers_release_held [OF wq.work_queue_axioms sk.cache_keys_axioms shared_trace_threads, of wq_empty
        "\<lambda>_. ''pod''" "{(''ns'', ''ep'')}"] by (metis is_release.simps(1))
qed

end
