(* ===== verification/Drain.thy ===== *)
theory Drain
  imports Workqueue
begin

text \<open>
  The way of a Pod that goes away through the queue of the cleaner: the informer enqueues its key, the
  queue keeps the key until somebody takes it, and the worker that takes it works on the endpoints of
  the Pod.
\<close>

section \<open>A queue that keeps what it accepts\<close>

text \<open>
  What client-go promises beyond \<open>work_queue\<close>: before it is shut down the queue stores every key, and
  an item waits until it is handed out.
\<close>

locale draining_queue = work_queue step ok waiting processing
  for step :: "'q \<Rightarrow> clean_event \<Rightarrow> 'q option" and ok :: "'q \<Rightarrow> bool"
    and waiting :: "'q \<Rightarrow> work_item set" and processing :: "'q \<Rightarrow> work_item set" +
  fixes accepting :: "'q \<Rightarrow> bool"
  assumes keep: "ok q \<Longrightarrow> step q e = Some q' \<Longrightarrow> i \<in> waiting q \<Longrightarrow> e \<noteq> QueueGet (Some i) \<Longrightarrow> i \<in> waiting q'"
    and store: "ok q \<Longrightarrow> accepting q \<Longrightarrow> step q (QueueAdd key) = Some q' \<Longrightarrow> KeyItem key \<in> waiting q'"
    and accepts_on: "ok q \<Longrightarrow> accepting q \<Longrightarrow> step q e = Some q' \<Longrightarrow> e \<noteq> QueueShutDown \<Longrightarrow> accepting q'"

lemma returns_own_prefix: "returns_own (xs @ ys) \<Longrightarrow> returns_own xs"
  by (simp add: returns_own_def)

lemma queue_run_prefix:
  assumes "queue_run step q (map snd (xs @ x # ys)) = Some q'"
  obtains q1 q2 where "queue_run step q (map snd xs) = Some q1" and "step q1 (snd x) = Some q2"
    and "queue_run step q (map snd (xs @ [x])) = Some q2"
  using assms by (auto simp: queue_run_append split: option.splits)

context draining_queue
begin

lemma prefix_ok:
  assumes "ok q" and "processing q = {}" and "waiting q = {}" and "returns_own (xs @ ys)"
    and "queue_run step q (map snd xs) = Some q1"
  shows "ok q1"
  using exclusive [OF assms(5,1-3) returns_own_prefix [OF assms(4)]] by blast

lemma still_accepting:
  assumes "ok q" and "processing q = {}" and "waiting q = {}" and "returns_own (xs @ ys)"
    and "accepting q" and "QueueShutDown \<notin> snd ` set (xs @ ys)" and "queue_run step q (map snd xs) = Some q1"
  shows "accepting q1"
  using assms(4,6,7)
proof (induction xs arbitrary: ys q1 rule: rev_induct)
  case Nil
  with assms(5) show ?case by simp
next
  case (snoc x xs)
  obtain q0 where q0: "queue_run step q (map snd xs) = Some q0" "step q0 (snd x) = Some q1"
    using snoc.prems(3) by (auto simp: queue_run_append split: option.splits)
  have own: "returns_own (xs @ x # ys)" and quiet: "QueueShutDown \<notin> snd ` set (xs @ x # ys)"
    using snoc.prems(1,2) by simp_all
  have "snd x \<noteq> QueueShutDown" using quiet by auto
  with accepts_on [OF prefix_ok [OF assms(1-3) own q0(1)] snoc.IH [OF own quiet q0(1)] q0(2)]
  show ?case by blast
qed

lemma still_waiting:
  assumes "ok q" and "processing q = {}" and "waiting q = {}" and "returns_own (xs @ ys)"
    and "queue_run step q (map snd xs) = Some q1" and "i \<in> waiting q1"
    and "queue_run step q (map snd (xs @ ys)) = Some q'" and "QueueGet (Some i) \<notin> snd ` set ys"
  shows "i \<in> waiting q'"
  using assms(4-8)
proof (induction ys arbitrary: xs q1)
  case Nil
  then show ?case by simp
next
  case (Cons y ys)
  obtain q2 where q2: "step q1 (snd y) = Some q2" "queue_run step q (map snd (xs @ [y])) = Some q2"
    using queue_run_prefix [OF Cons.prems(4)] Cons.prems(2) by (metis option.inject)
  have "snd y \<noteq> QueueGet (Some i)" using Cons.prems(5) by auto
  with keep [OF prefix_ok [OF assms(1-3) Cons.prems(1,2)] q2(1) Cons.prems(3)] have "i \<in> waiting q2" by blast
  with Cons.IH [of "xs @ [y]" q2] Cons.prems q2(2) show ?case by simp
qed

text \<open>When nothing waits in the end, every key that was added has been handed out afterwards.\<close>

lemma drained:
  assumes "ok q" and "processing q = {}" and "waiting q = {}" and "accepting q"
    and "queue_run step q (map snd tr) = Some q'" and "returns_own tr"
    and "QueueShutDown \<notin> snd ` set tr" and "waiting q' = {}" and "tr = us @ (j, QueueAdd key) # vs"
  shows "\<exists>k. (k, QueueGet (Some (KeyItem key))) \<in> set vs"
proof (rule ccontr)
  assume "\<not> ?thesis"
  then have no: "QueueGet (Some (KeyItem key)) \<notin> snd ` set vs" by auto
  have own: "returns_own (us @ (j, QueueAdd key) # vs)" using assms(6,9) by simp
  have quiet: "QueueShutDown \<notin> snd ` set (us @ (j, QueueAdd key) # vs)" using assms(7,9) by simp
  obtain q1 q2 where q1: "queue_run step q (map snd us) = Some q1" "step q1 (QueueAdd key) = Some q2"
    "queue_run step q (map snd (us @ [(j, QueueAdd key)])) = Some q2"
    using queue_run_prefix [OF assms(5) [unfolded assms(9)]] by (metis snd_conv)
  have "KeyItem key \<in> waiting q2"
    using store [OF prefix_ok [OF assms(1-3) own q1(1)] still_accepting [OF assms(1-3) own assms(4) quiet q1(1)] q1(2)] .
  with still_waiting [OF assms(1-3) _ q1(3), of vs "KeyItem key" q'] assms(5,6,9) no
  have "KeyItem key \<in> waiting q'" by simp
  with assms(8) show False by blast
qed

end

interpretation dq: draining_queue wq_step wq_ok Dirty Processing "\<lambda>q. \<not> ShuttingDown q"
proof
  fix q e q' i
  assume "wq_step q e = Some q'" and "i \<in> Dirty q" and "e \<noteq> QueueGet (Some i)"
  then show "i \<in> Dirty q'"
    by (cases "(q, e)" rule: wq_step.cases) (auto split: if_splits list.splits)
next
  fix q key q'
  assume "\<not> ShuttingDown q" and "wq_step q (QueueAdd key) = Some q'"
  then show "KeyItem key \<in> Dirty q'" by (auto split: if_splits)
next
  fix q e q'
  assume "\<not> ShuttingDown q" and "wq_step q e = Some q'" and "e \<noteq> QueueShutDown"
  then show "\<not> ShuttingDown q'"
    by (cases "(q, e)" rule: wq_step.cases) (auto split: if_splits list.splits)
qed

section \<open>Keys of Pods\<close>

text \<open>Every Pod with a name has a key, and its key gives back namespace and name.\<close>

locale pod_keys = cache_keys kc for kc :: cache_lib +
  assumes made: "named pod \<Longrightarrow> MetaNamespaceKeyFunc kc (MetaObject pod) =
      Inr (key_of (Namespace (PodMeta pod)) (Name (PodMeta pod)))"
    and undone: "api_name ns \<Longrightarrow> api_name name \<Longrightarrow> SplitMetaNamespaceKey kc (key_of ns name) = Inr (ns, name)"

lemma split_char_none: "c \<notin> set s \<Longrightarrow> split_char c s = [s]"
  by (induction s) auto

lemma split_char_first: "c \<notin> set s \<Longrightarrow> split_char c (s @ c # t) = s # split_char c t"
  by (induction s) auto

interpretation sp: pod_keys slash_keys
proof
  fix pod
  show "MetaNamespaceKeyFunc slash_keys (MetaObject pod) =
      Inr (key_of (Namespace (PodMeta pod)) (Name (PodMeta pod)))"
    by (simp add: slash_keys_def)
next
  fix ns name
  assume "api_name ns" and "api_name name"
  then have "split_char (CHR ''/'') (key_of ns name) = [ns, name]"
    by (simp add: api_name_def key_of_def split_char_first split_char_none)
  then show "SplitMetaNamespaceKey slash_keys (key_of ns name) = Inr (ns, name)"
    by (simp add: slash_keys_def)
qed

section \<open>What the informer enqueues\<close>

definition keys_of :: "cache_lib \<Rightarrow> informer_obj \<Rightarrow> string list" where
  "keys_of kc obj = (case MetaNamespaceKeyFunc kc obj of Inl err \<Rightarrow> [] | Inr key \<Rightarrow> [key])"

fun added_by :: "cache_lib \<Rightarrow> pod_change \<Rightarrow> string list" where
  "added_by kc (PodChanged p p') =
     (if ResourceVersion (PodMeta p) \<noteq> ResourceVersion (PodMeta p') \<and> isPodRunning p \<and> \<not> isPodRunning p'
      then keys_of kc (MetaObject p') else [])"
| "added_by kc (PodRemoved (MetaObject p)) = keys_of kc (MetaObject p)"
| "added_by kc (PodRemoved (DeletedFinalStateUnknown key (MetaObject p))) =
     keys_of kc (DeletedFinalStateUnknown key (MetaObject p))"
| "added_by kc (PodRemoved obj) = []"

lemma run_enqueue: "run_state (enqueuePod kc obj) h = ((), h @ map QueueAdd (keys_of kc obj))"
  by (simp add: enqueuePod_def keys_of_def split: sum.split)

lemma run_delPod: "run_state (delPod kc obj) h = ((), h @ map QueueAdd (added_by kc (PodRemoved obj)))"
  by (cases "(kc, obj)" rule: delPod.cases) (simp_all add: run_enqueue)

lemma run_updatePod: "run_state (updatePod kc p p') h = ((), h @ map QueueAdd (added_by kc (PodChanged p p')))"
  by (simp add: updatePod_def run_enqueue)

lemma run_informer_exact:
  "run_state (informer_run (NewCleaner kc) cs) h = ((), h @ map QueueAdd (concat (map (added_by kc) cs)))"
proof (induction cs arbitrary: h)
  case (Cons c cs)
  then show ?case
    by (cases c) (simp_all add: NewCleaner_def run_delPod run_updatePod del: added_by.simps)
qed simp

text \<open>
  A Pod goes away when it stops running, or when it is removed. The informer is notified of a removal with
  the Pod itself, or, when its watch has missed the removal, with a tombstone that holds the last
  known state of the Pod. \<open>pod_left\<close> leaves the tombstones out.
\<close>

fun pod_left :: "pod_change \<Rightarrow> pod \<Rightarrow> bool" where
  "pod_left (PodChanged p p') pod \<longleftrightarrow> p' = pod \<and>
     ResourceVersion (PodMeta p) \<noteq> ResourceVersion (PodMeta pod) \<and> isPodRunning p \<and> \<not> isPodRunning pod"
| "pod_left (PodRemoved obj) pod \<longleftrightarrow> obj = MetaObject pod"

definition tombstone :: "pod_change \<Rightarrow> pod \<Rightarrow> bool" where
  "tombstone c pod \<longleftrightarrow> (\<exists>key. c = PodRemoved (DeletedFinalStateUnknown key (MetaObject pod)))"

definition pod_departs :: "pod_change \<Rightarrow> pod \<Rightarrow> bool" where
  "pod_departs c pod \<longleftrightarrow> pod_left c pod \<or> tombstone c pod"

lemma left_added: "pod_left c pod \<Longrightarrow> added_by kc c = keys_of kc (MetaObject pod)"
  by (cases c) auto

lemma tombstone_keys: "cache_keys kc \<Longrightarrow> keys_of kc (DeletedFinalStateUnknown key obj) = []"
  unfolding keys_of_def by (auto split: sum.split dest: cache_keys.key)

lemma left_named: "pod_left c pod \<Longrightarrow> change_named c \<Longrightarrow> named pod"
  by (cases c) auto

definition pod_informer :: "cache_lib \<Rightarrow> pod_change list \<Rightarrow> clean_event list \<Rightarrow> bool" where
  "pod_informer kc cs t \<longleftrightarrow> run_state (informer_run (NewCleaner kc) cs) [] = ((), t)"

lemma pod_informer_exact: "pod_informer kc cs t \<longleftrightarrow> t = map QueueAdd (concat (map (added_by kc) cs))"
  by (auto simp: pod_informer_def run_informer_exact)

lemma interleaved_Cons:
  "interleaved (P # progs) tr \<longleftrightarrow> P (of_thread 0 tr) \<and>
     (\<forall>i<length progs. (progs ! i) (of_thread (Suc i) tr)) \<and> fst ` set tr \<subseteq> {..length progs}"
  by (simp add: interleaved_def All_less_Suc2 lessThan_Suc_atMost)

lemma pod_informer_threads:
  assumes "interleaved (pod_informer kc cs # replicate n (queue_worker lib kc)) tr" and "list_all change_named cs"
  shows "interleaved (queue_threads lib kc n) tr"
proof -
  have "pod_informer kc cs t \<Longrightarrow> informer_thread kc t" for t
    using assms(2) unfolding pod_informer_def informer_thread_def by blast
  then show ?thesis
    using assms(1) by (simp add: interleaved_Cons queue_threads_def)
qed

section \<open>What a worker does with a key\<close>

lemma worker_takes:
  assumes "queue_worker lib kc (us @ QueueGet (Some obj) # vs)"
  obtains mid rest where "vs = mid @ rest" and "handled_shape kc obj mid"
proof -
  obtain bs xs ys obj' zs where us: "us = concat bs @ xs" "item_shape kc obj' (xs @ QueueGet (Some obj) # ys)" "vs = ys @ zs"
    by (rule worker_blocks [OF assms]) simp
  obtain mid pre post where eq: "xs @ QueueGet (Some obj) # ys = QueueGet (Some obj') # mid @ pre @ QueueDone obj' # post"
    and t: "handled_shape kc obj' mid" "list_all is_report pre" "list_all is_report post"
    using us(2) unfolding item_shape_def by blast
  have no: "QueueGet (Some obj) \<notin> set (mid @ pre @ QueueDone obj' # post)"
    using handled_no_queue [OF t(1), of "QueueGet (Some obj)"] t(2,3) by (auto simp: list_all_iff)
  have "xs = []"
  proof (cases xs)
    case (Cons x xs')
    with eq have "mid @ pre @ QueueDone obj' # post = xs' @ QueueGet (Some obj) # ys" by simp
    with no show ?thesis by simp
  qed
  with eq t(1) us(3) that show ?thesis by auto
qed

lemma handled_attempts:
  assumes "handled_shape kc (KeyItem key) t" and "SplitMetaNamespaceKey kc key = Inr (ns, name)"
  shows "\<exists>ans. FindByPodName name ns ans \<in> set t \<and>
     (\<forall>deps. ans = Inr deps \<longrightarrow> (\<forall>d\<in>set deps. \<exists>err. GetEp (Namespace (EpMeta d)) (Name (EpMeta d)) err \<in> set t))"
proof -
  have attempted: "(a, b) \<in> set (attempted u) \<Longrightarrow> \<exists>err. GetEp a b err \<in> set u" for a b u
    by (induction u rule: attempted.induct) auto
  consider (failed) err where "t = [FindByPodName name ns (Inl err)]"
    | (found) deps ts where "t = FindByPodName name ns (Inr deps) # concat ts" "list_all2 deletion_shape deps ts"
    using assms by (auto simp: handled_shape_def)
  then show ?thesis
  proof cases
    case found
    have "\<exists>err. GetEp (Namespace (EpMeta d)) (Name (EpMeta d)) err \<in> set t" if d: "d \<in> set deps" for d
    proof -
      obtain u where u: "u \<in> set ts" "deletion_shape d u"
        using d found(2) by (metis in_set_conv_nth list_all2_conv_all_nth)
      from shape_attempted [OF u(2)] attempted [of "Namespace (EpMeta d)" "Name (EpMeta d)" u]
      have "\<exists>err. GetEp (Namespace (EpMeta d)) (Name (EpMeta d)) err \<in> set u" by simp
      with u(1) found(1) show ?thesis by auto
    qed
    with found(1) show ?thesis by (intro exI [of _ "Inr deps"]) auto
  qed auto
qed

lemma worker_no_shutdown: "queue_worker lib kc t \<Longrightarrow> QueueShutDown \<notin> set t"
proof
  assume "queue_worker lib kc t" and "QueueShutDown \<in> set t"
  then obtain us vs where w: "queue_worker lib kc (us @ QueueShutDown # vs)" by (auto simp: in_set_conv_decomp)
  obtain bs xs ys obj zs where "item_shape kc obj (xs @ QueueShutDown # ys)"
    by (rule worker_blocks [OF w]) simp
  then obtain mid pre post where "xs @ QueueShutDown # ys = QueueGet (Some obj) # mid @ pre @ QueueDone obj # post"
    and t: "handled_shape kc obj mid" "list_all is_report pre" "list_all is_report post"
    unfolding item_shape_def by blast
  then have "QueueShutDown \<in> set (QueueGet (Some obj) # mid @ pre @ QueueDone obj # post)" by (metis in_set_conv_decomp)
  with t handled_no_queue [OF t(1), of QueueShutDown] show False by (auto simp: list_all_iff)
qed

lemma threads_no_shutdown:
  assumes "cache_keys kc" and "interleaved (queue_threads lib kc n) tr"
  shows "QueueShutDown \<notin> snd ` set tr"
proof
  assume "QueueShutDown \<in> snd ` set tr"
  then obtain j where j: "(j, QueueShutDown) \<in> set tr" by auto
  then have e: "QueueShutDown \<in> set (of_thread j tr)" by (simp add: set_of_thread)
  from thread_program [OF assms(2) j] show False
    using worker_no_shutdown e cache_keys.informer_adds [OF assms(1) _ e] by blast
qed

section \<open>The property\<close>

text \<open>
  C20: What becomes of a Pod that goes away, however the informer and the workers are interleaved. When the
  queue has been drained, every Pod that stopped running, or whose removal the informer was notified of
  with the Pod itself, had its key enqueued, and after that a worker took the key, looked up the
  endpoints of the Pod, and attempted to delete each one found. A Pod whose removal reached the informer as
  a tombstone is forgotten instead: the code accepts the tombstone, but the library makes no key of it,
  and nothing is enqueued for it; its endpoints are left to the periodic sweep.
\<close>

theorem departed_pods_handled:
  assumes "draining_queue step ok waiting processing accepting" and "pod_keys kc"
    and "interleaved (pod_informer kc cs # replicate n (queue_worker lib kc)) tr" and "list_all change_named cs"
    and "queue_run step q (map snd tr) = Some q'" and "ok q" and "processing q = {}" and "waiting q = {}"
    and "accepting q" and "waiting q' = {}" and "c \<in> set cs" and "pod_departs c pod"
  defines "ns \<equiv> Namespace (PodMeta pod)" and "name \<equiv> Name (PodMeta pod)"
  shows "if tombstone c pod then added_by kc c = [] \<and> run_state (informer_run (NewCleaner kc) [c]) h = ((), h)
     else \<exists>us k vs ans. tr = us @ (k, QueueGet (Some (KeyItem (key_of ns name)))) # vs \<and>
       (0, QueueAdd (key_of ns name)) \<in> set us \<and> (k, FindByPodName name ns ans) \<in> set vs \<and>
       (\<forall>deps. ans = Inr deps \<longrightarrow>
          (\<forall>d\<in>set deps. \<exists>err. (k, GetEp (Namespace (EpMeta d)) (Name (EpMeta d)) err) \<in> set vs))"
proof (cases "tombstone c pod")
  case True
  from True obtain key where c: "c = PodRemoved (DeletedFinalStateUnknown key (MetaObject pod))"
    by (auto simp: tombstone_def)
  have "added_by kc c = []"
    by (simp add: c tombstone_keys [OF pod_keys.axioms(1) [OF assms(2)]])
  with True show ?thesis by (simp add: run_informer_exact del: added_by.simps informer_run.simps)
next
  case False
  then have left: "pod_left c pod" using assms(12) by (simp add: pod_departs_def)
  let ?key = "key_of ns name"
  have keys: "cache_keys kc" using assms(2) by (rule pod_keys.axioms)
  have threads: "interleaved (queue_threads lib kc n) tr" by (rule pod_informer_threads [OF assms(3,4)])
  have named: "named pod" using left_named [OF left] assms(4,11) by (auto simp: list_all_iff)
  have "added_by kc c = [?key]"
    using left_added [OF left] pod_keys.made [OF assms(2) named] by (simp add: keys_of_def ns_def name_def)
  moreover have "pod_informer kc cs (of_thread 0 tr)" using assms(3) by (force simp: interleaved_def)
  ultimately have "QueueAdd ?key \<in> set (of_thread 0 tr)"
    using assms(11) by (fastforce simp: pod_informer_exact)
  then have "(0, QueueAdd ?key) \<in> set tr" by (simp only: set_of_thread)
  then obtain xs ys where tr: "tr = xs @ (0, QueueAdd ?key) # ys" by (auto simp: in_set_conv_decomp)
  have "returns_own tr" using cache_keys.threads_return_own [OF keys, where ys = "[]"] threads by simp
  from draining_queue.drained [OF assms(1,6-9,5) this threads_no_shutdown [OF keys threads] assms(10) tr]
  obtain k us vs where ys: "ys = us @ (k, QueueGet (Some (KeyItem ?key))) # vs" by (auto simp: in_set_conv_decomp)
  have at: "tr = (xs @ (0, QueueAdd ?key) # us) @ (k, QueueGet (Some (KeyItem ?key))) # vs" by (simp add: tr ys)
  have "queue_worker lib kc
      (of_thread k (xs @ (0, QueueAdd ?key) # us) @ QueueGet (Some (KeyItem ?key)) # of_thread k vs)"
    by (rule cache_keys.thread_worker [OF keys threads at]) simp
  then obtain mid rest where mid: "of_thread k vs = mid @ rest" "handled_shape kc (KeyItem ?key) mid"
    by (rule worker_takes)
  have "SplitMetaNamespaceKey kc ?key = Inr (ns, name)"
    using pod_keys.undone [OF assms(2)] named by (simp add: named_def ns_def name_def)
  from handled_attempts [OF mid(2) this] obtain ans where ans: "FindByPodName name ns ans \<in> set mid"
    "\<forall>deps. ans = Inr deps \<longrightarrow> (\<forall>d\<in>set deps. \<exists>err. GetEp (Namespace (EpMeta d)) (Name (EpMeta d)) err \<in> set mid)" by blast
  have vs: "e \<in> set mid \<Longrightarrow> (k, e) \<in> set vs" for e using mid(1) by (simp flip: set_of_thread)
  have "(0, QueueAdd ?key) \<in> set (xs @ (0, QueueAdd ?key) # us)" by simp
  with at ans vs have "\<exists>us k vs ans. tr = us @ (k, QueueGet (Some (KeyItem ?key))) # vs \<and>
      (0, QueueAdd ?key) \<in> set us \<and> (k, FindByPodName name ns ans) \<in> set vs \<and>
      (\<forall>deps. ans = Inr deps \<longrightarrow>
         (\<forall>d\<in>set deps. \<exists>err. (k, GetEp (Namespace (EpMeta d)) (Name (EpMeta d)) err) \<in> set vs))"
    by blast
  with False show ?thesis by simp
qed

lemma departed_pods_handled_witness:
  "\<exists>us k vs ans. shared_trace = us @ (k, QueueGet (Some (KeyItem ''ns/pod''))) # vs \<and>
     (0, QueueAdd ''ns/pod'') \<in> set us \<and> (k, FindByPodName ''pod'' ''ns'' ans) \<in> set vs"
proof -
  let ?cs = "[PodRemoved (MetaObject gone_pod), PodRemoved (MetaObject gone_pod)]"
  have "pod_informer slash_keys ?cs (of_thread 0 shared_trace)"
    by (simp add: pod_informer_exact keys_of_def slash_keys_def key_of_def gone_pod_def shared_trace_def of_thread_def)
  with shared_trace_threads have threads:
    "interleaved (pod_informer slash_keys ?cs # replicate 2 (queue_worker cleaner_lib slash_keys)) shared_trace"
    by (simp add: interleaved_Cons queue_threads_def)
  have named: "list_all change_named ?cs" by (simp add: named_def api_name_def gone_pod_def)
  let ?q = "wq_empty\<lparr>Queue := [], Dirty := {}, Processing := {}\<rparr>"
  have run: "queue_run wq_step wq_empty (map snd shared_trace) = Some ?q"
    by (simp add: shared_trace_def wq_empty_def)
  have start: "wq_ok wq_empty" "Processing wq_empty = {}" "Dirty wq_empty = {}" "\<not> ShuttingDown wq_empty"
    "Dirty ?q = {}"
    by (simp_all add: wq_ok_def wq_empty_def)
  have left: "PodRemoved (MetaObject gone_pod) \<in> set ?cs" "pod_departs (PodRemoved (MetaObject gone_pod)) gone_pod"
    "\<not> tombstone (PodRemoved (MetaObject gone_pod)) gone_pod"
    by (simp_all add: pod_departs_def tombstone_def)
  have key: "Namespace (PodMeta gone_pod) = ''ns''" "Name (PodMeta gone_pod) = ''pod''" "key_of ''ns'' ''pod'' = ''ns/pod''"
    by (simp_all add: gone_pod_def key_of_def)
  show ?thesis
    using departed_pods_handled [OF dq.draining_queue_axioms sp.pod_keys_axioms threads named run start left(1,2)] left(3)
    unfolding key by auto
qed

end
