(* ===== verification/Cleanspec.thy ===== *)
theory Cleanspec
  imports Cleanrace
begin

text \<open>
  What the periodic sweep promises, stated on the endpoints that exist: it removes those whose Pod is
  gone and no other. The sweep of \<open>Cleaner\<close>, which asks for a Pod once per UID, refines this.
\<close>

section \<open>The specification\<close>

text \<open>An endpoint is an orphan when the lister does not know its Pod; a sweep removes orphans.\<close>

definition orphan :: "(string \<Rightarrow> string \<Rightarrow> pod_lookup) \<Rightarrow> danm_ep \<Rightarrow> bool" where
  "orphan look d \<longleftrightarrow> gone (look (Namespace (EpMeta d)) (PodName (EpSpec d))) (PodUID (EpSpec d))"

definition cleaned :: "(string \<Rightarrow> string \<Rightarrow> pod_lookup) \<Rightarrow> danm_ep list \<Rightarrow> (string \<times> string) set \<Rightarrow> (string \<times> string) set" where
  "cleaned look deps E = E - ep_key ` {d \<in> set deps. orphan look d}"

text \<open>A UID belongs to one Pod.\<close>

definition pods_identified :: "danm_ep list \<Rightarrow> bool" where
  "pods_identified deps \<longleftrightarrow> (\<forall>d\<in>set deps. \<forall>d'\<in>set deps. PodUID (EpSpec d) = PodUID (EpSpec d') \<longrightarrow>
     Namespace (EpMeta d) = Namespace (EpMeta d') \<and> PodName (EpSpec d) = PodName (EpSpec d'))"

text \<open>Nothing goes wrong: reads fail only for endpoints that do not exist, every other call succeeds.\<close>

fun granted :: "(string \<times> string) set \<Rightarrow> clean_event list \<Rightarrow> bool" where
  "granted E [] \<longleftrightarrow> True"
| "granted E (GetEp ns n err # t) \<longleftrightarrow> (err = None \<longleftrightarrow> (ns, n) \<in> E) \<and> granted E t"
| "granted E (GetNetwork d answer # t) \<longleftrightarrow> (\<exists>dnet. answer = Inr dnet) \<and> granted E t"
| "granted E (IpamFree dnet ip err # t) \<longleftrightarrow> err = None \<and> granted E t"
| "granted E (CalicoRelease a err # t) \<longleftrightarrow> err = None \<and> granted E t"
| "granted E (DeleteEp ns n err # t) \<longleftrightarrow> err = None \<and> granted (E - {(ns, n)}) t"
| "granted E (e # t) \<longleftrightarrow> granted E t"

text \<open>In the networks that were found, both addresses of an endpoint have a service that claims them.\<close>

definition claimed_in :: "ipam_lib \<Rightarrow> clean_event list \<Rightarrow> danm_ep \<Rightarrow> bool" where
  "claimed_in lib t d \<longleftrightarrow> (\<forall>dnet. GetNetwork d (Inr dnet) \<in> set t \<longrightarrow>
     SelectReleaseIpServiceImplementation lib dnet d (Address (Iface (EpSpec d))) \<noteq> None \<and>
     SelectReleaseIpServiceImplementation lib dnet d (AddressIPv6 (Iface (EpSpec d))) \<noteq> None)"

text \<open>In one of the networks that were found they have.\<close>

definition releasable_in :: "ipam_lib \<Rightarrow> clean_event list \<Rightarrow> danm_ep \<Rightarrow> bool" where
  "releasable_in lib t d \<longleftrightarrow> (\<exists>dnet. GetNetwork d (Inr dnet) \<in> set t \<and>
     SelectReleaseIpServiceImplementation lib dnet d (Address (Iface (EpSpec d))) \<noteq> None \<and>
     SelectReleaseIpServiceImplementation lib dnet d (AddressIPv6 (Iface (EpSpec d))) \<noteq> None)"

section \<open>What a trace deletes\<close>

definition deleted :: "clean_event list \<Rightarrow> (string \<times> string) set" where
  "deleted t = {(ns, n). DeleteEp ns n None \<in> set t}"

lemma deleted_simps [simp]:
  "deleted [] = {}" "deleted (xs @ ys) = deleted xs \<union> deleted ys"
  "deleted (DeleteEp ns n None # t) = insert (ns, n) (deleted t)"
  by (auto simp: deleted_def)

lemma deleted_Cons: "(\<And>ns n. e \<noteq> DeleteEp ns n None) \<Longrightarrow> deleted (e # t) = deleted t"
  by (auto simp: deleted_def)

lemma api_run_deleted: "api_run E t = Some E' \<Longrightarrow> E' = E - deleted t"
  by (induction E t rule: api_run.induct) (simp_all add: deleted_Cons Diff_insert2 [symmetric] split: if_splits)

lemma granted_append: "granted E (xs @ ys) \<longleftrightarrow> granted E xs \<and> granted (E - deleted xs) ys"
  by (induction E xs rule: granted.induct) (auto simp: deleted_Cons Diff_insert2 [symmetric])

lemma granted_release [simp]: "granted E (release_call dnet s ip err # t) \<longleftrightarrow> err = None \<and> granted E t"
  by (cases s) simp_all

lemma not_release_call [simp]: "GetNetwork d a \<noteq> release_call dnet s ip err"
  by (cases s) simp_all

text \<open>When nothing goes wrong an attempt on an endpoint that exists removes it.\<close>

lemma granted_attempt_deletes:
  assumes "run_state (deleteInterface env lib d) h = ((), h @ t)" and "granted E t"
    and "ep_key d \<in> E" and "claimed_in lib t d"
  shows "ep_key d \<in> deleted t"
proof -
  let ?get = "GetEp (Namespace (EpMeta d)) (Name (EpMeta d))"
  have get: "get_ep_err env (h @ [CleanSleep 1000]) (Namespace (EpMeta d)) (Name (EpMeta d)) = None"
  proof (rule ccontr)
    assume "\<not> ?thesis"
    then obtain e where "get_ep_err env (h @ [CleanSleep 1000]) (Namespace (EpMeta d)) (Name (EpMeta d)) = Some e" by auto
    then have "t = [CleanSleep 1000, ?get (Some e)]" using assms(1) by (simp add: deleteInterface_def)
    with assms(2,3) show False by simp
  qed
  have "\<exists>dnet. get_network env (h @ [CleanSleep 1000, ?get None]) d = Inr dnet"
  proof (rule ccontr)
    assume "\<not> ?thesis"
    then obtain e where "get_network env (h @ [CleanSleep 1000, ?get None]) d = Inl e"
      by (cases "get_network env (h @ [CleanSleep 1000, ?get None]) d") auto
    then have "t = [CleanSleep 1000, ?get None, GetNetwork d (Inl e)]"
      using assms(1) get by (simp add: deleteInterface_def)
    with assms(2) show False by simp
  qed
  then obtain dnet where "get_network env (h @ [CleanSleep 1000, ?get None]) d = Inr dnet" ..
  then have "run_state (deleteInterface env lib d) h =
      ((), snd (run_state (DeleteDanmEp env lib d dnet) (h @ found_first d dnet)))"
    using get by (simp add: deleteInterface_def found_first_def split: prod.split)
  with assms(1) have run: "snd (run_state (DeleteDanmEp env lib d dnet) (h @ found_first d dnet)) = h @ t" by simp
  have "\<exists>u. h @ t = (h @ found_first d dnet) @ u"
    by (rule run_DeleteDanmEp [of lib dnet d env "h @ found_first d dnet"]) (use run [symmetric] in auto)
  then have "GetNetwork d (Inr dnet) \<in> set t" by (auto simp: found_first_def)
  with assms(4) have claims: "SelectReleaseIpServiceImplementation lib dnet d (Address (Iface (EpSpec d))) \<noteq> None"
    "SelectReleaseIpServiceImplementation lib dnet d (AddressIPv6 (Iface (EpSpec d))) \<noteq> None"
    by (simp_all add: claimed_in_def)
  show ?thesis
    by (rule run_DeleteDanmEp [of lib dnet d env "h @ found_first d dnet"])
      (use claims run assms(2) in \<open>auto simp: found_first_def deleted_def\<close>)
qed

text \<open>Whatever the calls answer, an attempt removes only an endpoint whose addresses can be released.\<close>

lemma attempt_deletes_releasable:
  assumes "run_state (deleteInterface env lib d) h = ((), h @ t)" and "DeleteEp ns n None \<in> set t"
  shows "releasable_in lib t d"
proof (cases "get_ep_err env (h @ [CleanSleep 1000]) (Namespace (EpMeta d)) (Name (EpMeta d))")
  case (Some e)
  with assms show ?thesis by (auto simp: deleteInterface_def)
next
  case None
  let ?get = "GetEp (Namespace (EpMeta d)) (Name (EpMeta d)) None"
  show ?thesis
  proof (cases "get_network env (h @ [CleanSleep 1000, ?get]) d")
    case (Inl e)
    with None assms show ?thesis by (auto simp: deleteInterface_def)
  next
    case (Inr dnet)
    then have run: "snd (run_state (DeleteDanmEp env lib d dnet) (h @ found_first d dnet)) = h @ t"
      using None assms(1) by (simp add: deleteInterface_def found_first_def split: prod.splits)
    show ?thesis
      by (rule run_DeleteDanmEp [of lib dnet d env "h @ found_first d dnet"])
        (use run assms(2) in \<open>auto simp: found_first_def releasable_in_def\<close>)
  qed
qed

section \<open>The sweep against its specification\<close>

lemma verdict_member:
  assumes "pods_identified deps" and "d \<in> set deps"
  shows "verdict look deps (PodUID (EpSpec d)) = orphan look d"
proof -
  have "d \<in> set xs \<Longrightarrow> set xs \<subseteq> set deps \<Longrightarrow> verdict look xs (PodUID (EpSpec d)) = orphan look d" for xs
  proof (induction xs)
    case (Cons x xs)
    show ?case
    proof (cases "PodUID (EpSpec x) = PodUID (EpSpec d)")
      case True
      with Cons.prems assms have "Namespace (EpMeta x) = Namespace (EpMeta d)" "PodName (EpSpec x) = PodName (EpSpec d)"
        unfolding pods_identified_def by (metis list.set_intros(1) subsetD)+
      with True show ?thesis by (simp add: orphan_def)
    next
      case False
      with Cons show ?thesis by auto
    qed
  qed simp
  with assms(2) show ?thesis by blast
qed

lemma list_all2_split:
  assumes "list_all2 P xs ys" and "x \<in> set xs"
  shows "\<exists>ys1 y ys2. ys = ys1 @ y # ys2 \<and> P x y"
proof -
  obtain xs1 xs2 where "xs = xs1 @ x # xs2" using assms(2) by (auto simp: in_set_conv_decomp)
  with assms(1) show ?thesis by (auto simp: list_all2_append1 list_all2_Cons1)
qed

text \<open>A sweep makes its attempts on exactly the orphans.\<close>

lemma sweep_parts_orphans:
  assumes "\<And>h. get_pod env h = look" and "pods_identified deps"
    and "run_state (cleanDanglingEps env lib deps) h = ((), h @ t)"
  obtains parts where "t = concat parts" and "list_all2 (swept_part env lib (orphan look)) deps parts"
proof -
  obtain parts where parts: "run_state (sweep env lib deps Map.empty) h = ((), h @ concat parts)"
    "list_all2 (swept_part env lib (\<lambda>d. cached_verdict Map.empty look deps (PodUID (EpSpec d)))) deps parts"
    using sweep_parts [OF assms(1)] by blast
  have "swept_part env lib (\<lambda>d. cached_verdict Map.empty look deps (PodUID (EpSpec d))) d p =
      swept_part env lib (orphan look) d p" if "d \<in> set deps" for d p
    using verdict_member [OF assms(2) that] by (simp add: swept_part_def cached_verdict_def)
  with parts(2) have "list_all2 (swept_part env lib (orphan look)) deps parts"
    by (auto simp: list_all2_conv_all_nth)
  moreover have "t = concat parts" using parts(1) assms(3) by (simp add: cleanDanglingEps_def)
  ultimately show ?thesis using that by blast
qed

lemma swept_part_deleted:
  assumes "swept_part env lib V d p"
  shows "deleted p \<subseteq> (if V d \<and> releasable_in lib p d then {ep_key d} else {})"
proof -
  obtain r u h where p: "p = r @ u" "list_all is_pod_read r"
    "if V d then run_state (deleteInterface env lib d) h = ((), h @ u) else u = []"
    using assms by (auto simp: swept_part_def)
  have "deleted r = {}" using p(2) by (force simp: deleted_def list_all_iff)
  moreover have "deleted u \<subseteq> {ep_key d}" if "V d"
  proof (rule run_deleteInterface [of env lib d h])
    fix t
    assume "run_state (deleteInterface env lib d) h = ((), h @ t)" and t: "deletion_trace d t"
    with p(3) that have "u = t" by simp
    with t show ?thesis unfolding deletion_trace_def deleted_def by blast
  qed
  moreover have "releasable_in lib p d" if "V d" "deleted u \<noteq> {}"
  proof -
    from that(2) obtain ns n where "DeleteEp ns n None \<in> set u" by (auto simp: deleted_def)
    moreover have "run_state (deleteInterface env lib d) h = ((), h @ u)" using p(3) that(1) by simp
    ultimately have "releasable_in lib u d" by (intro attempt_deletes_releasable)
    then show ?thesis by (auto simp: p(1) releasable_in_def)
  qed
  ultimately show ?thesis using p(1,3) by (cases "V d") auto
qed

lemma releasable_in_mono: "releasable_in lib p d \<Longrightarrow> set p \<subseteq> set t \<Longrightarrow> releasable_in lib t d"
  by (auto simp: releasable_in_def)

lemma sweep_deletes_orphans:
  assumes "list_all2 (swept_part env lib V) deps parts"
  shows "deleted (concat parts) \<subseteq> ep_key ` {d \<in> set deps. V d \<and> releasable_in lib (concat parts) d}"
proof
  fix k
  assume "k \<in> deleted (concat parts)"
  then obtain p where p: "p \<in> set parts" "k \<in> deleted p" by (auto simp: deleted_def)
  then obtain i where i: "i < length parts" "parts ! i = p" by (auto simp: in_set_conv_nth)
  with assms have part: "swept_part env lib V (deps ! i) p" "deps ! i \<in> set deps"
    by (auto simp: list_all2_conv_all_nth)
  have "V (deps ! i) \<and> releasable_in lib p (deps ! i) \<and> k = ep_key (deps ! i)"
    using swept_part_deleted [OF part(1)] p(2) by (auto split: if_splits)
  moreover have "set p \<subseteq> set (concat parts)" using p(1) by auto
  ultimately show "k \<in> ep_key ` {d \<in> set deps. V d \<and> releasable_in lib (concat parts) d}"
    using part(2) releasable_in_mono by blast
qed

lemma granted_sweep_deletes:
  assumes "list_all2 (swept_part env lib V) deps parts" and "granted E (concat parts)"
    and "d \<in> set deps" and "V d" and "ep_key d \<in> E" and "claimed_in lib (concat parts) d"
  shows "ep_key d \<in> deleted (concat parts)"
proof -
  obtain ps1 p ps2 where ps: "parts = ps1 @ p # ps2" "swept_part env lib V d p"
    using list_all2_split [OF assms(1,3)] by blast
  then obtain r u h where p: "p = r @ u" "run_state (deleteInterface env lib d) h = ((), h @ u)"
    using assms(4) by (auto simp: swept_part_def)
  let ?E = "E - deleted (concat ps1 @ r)"
  have t: "concat parts = (concat ps1 @ r) @ u @ concat ps2" by (simp add: ps(1) p(1))
  have g: "granted ?E u" using assms(2) unfolding t granted_append by blast
  have c: "claimed_in lib u d" using assms(6) by (auto simp: t claimed_in_def)
  show ?thesis
  proof (cases "ep_key d \<in> ?E")
    case True
    from granted_attempt_deletes [OF p(2) g this c] show ?thesis by (simp add: t)
  next
    case False
    with assms(5) show ?thesis by (auto simp: t)
  qed
qed

section \<open>The property\<close>

text \<open>
  C14: The sweep refines the cleanup. With a lister whose answers are stable and endpoints that
  share a UID only when they are of one Pod: whatever the API server answers, a sweep takes from the
  endpoints that exist only listed ones whose Pod is gone and whose two addresses have a service that
  releases them in a network that was found; and it takes every listed one whose Pod is gone, although
  it asks for every Pod only once, provided that no call fails and the addresses of these endpoints
  have such a service. An endpoint without one stays, however often its Pod is found gone.
\<close>

theorem sweep_refines_cleanup:
  assumes "\<And>h. get_pod env h = look" and "pods_identified deps"
    and "run_state (cleanDanglingEps env lib deps) h = ((), h @ t)" and "api_run E t = Some E'"
  shows "cleaned look deps E \<subseteq> E' \<and> E' \<subseteq> E \<and>
     (\<forall>k\<in>E - E'. \<exists>d\<in>set deps. k = ep_key d \<and> orphan look d \<and> releasable_in lib t d) \<and>
     (granted E t \<longrightarrow> (\<forall>d\<in>set deps. orphan look d \<longrightarrow> claimed_in lib t d) \<longrightarrow>
       E' = cleaned look deps E)"
proof -
  obtain parts where t: "t = concat parts" and parts: "list_all2 (swept_part env lib (orphan look)) deps parts"
    by (rule sweep_parts_orphans [OF assms(1-3)])
  have E': "E' = E - deleted t" by (rule api_run_deleted [OF assms(4)])
  have only: "deleted t \<subseteq> ep_key ` {d \<in> set deps. orphan look d \<and> releasable_in lib t d}"
    unfolding t by (rule sweep_deletes_orphans [OF parts])
  have all: "ep_key d \<in> deleted t" if "granted E t" "\<forall>d\<in>set deps. orphan look d \<longrightarrow> claimed_in lib t d"
      "d \<in> set deps" "orphan look d" "ep_key d \<in> E" for d
    using granted_sweep_deletes [OF parts] that unfolding t by blast
  have "E' = cleaned look deps E"
    if "granted E t" "\<forall>d\<in>set deps. orphan look d \<longrightarrow> claimed_in lib t d"
    using all [OF that] only unfolding E' cleaned_def by blast
  moreover have "cleaned look deps E \<subseteq> E'" using only unfolding E' cleaned_def by blast
  moreover have "\<forall>k\<in>E - E'. \<exists>d\<in>set deps. k = ep_key d \<and> orphan look d \<and> releasable_in lib t d"
    using only unfolding E' by blast
  ultimately show ?thesis unfolding E' by blast
qed

section \<open>The property at a concrete input\<close>

text \<open>Two interfaces of a Pod that is gone, and an endpoint the sweep knows nothing of.\<close>

definition second_ep :: danm_ep where
  "second_ep = (cleaner_ep ''10.0.0.2/24'' ''fd00::2/64'')
     \<lparr>EpMeta := \<lparr>Name = ''ep2'', Namespace = ''ns'', UID = ''e2'', Labels = [], ResourceVersion = []\<rparr>\<rparr>"

definition two_interfaces :: "danm_ep list" where
  "two_interfaces = [cleaner_ep ''10.0.0.1/24'' ''fd00::1/64'', second_ep]"

definition attempt_calls :: "string \<Rightarrow> string \<Rightarrow> string \<Rightarrow> danm_ep \<Rightarrow> clean_event list" where
  "attempt_calls n a4 a6 d = [CleanSleep 1000, GetEp ''ns'' n None, GetNetwork d (Inr cleaner_net),
     IpamFree cleaner_net a4 None, IpamFree cleaner_net a6 None, DeleteEp ''ns'' n None]"

definition two_trace :: "clean_event list" where
  "two_trace = GetPod ''ns'' ''pod'' PodNotFound #
     attempt_calls ''ep'' ''10.0.0.1/24'' ''fd00::1/64'' (cleaner_ep ''10.0.0.1/24'' ''fd00::1/64'') @
     attempt_calls ''ep2'' ''10.0.0.2/24'' ''fd00::2/64'' second_ep"

lemma two_swept:
  "run_state (cleanDanglingEps willing_env cleaner_lib two_interfaces) [] = ((), [] @ two_trace)"
  by (simp add: cleanDanglingEps_def two_interfaces_def deleteInterface_def DeleteDanmEp_def
      SelectReleaseIpServiceImplementation_def GetSupportedReleaseIPHandlers_def gone_def
      danm_IsIPAllocatedByMe_def danm_ReleaseIP_def cleaner_lib_def willing_env_def second_ep_def
      two_trace_def attempt_calls_def)
    (simp add: cleaner_ep_def)

lemma sweep_refines_cleanup_witness:
  "{(''ns'', ''ep3'')} = cleaned (\<lambda>_ _. PodNotFound) two_interfaces {(''ns'', ''ep''), (''ns'', ''ep2''), (''ns'', ''ep3'')}"
proof -
  let ?E = "{(''ns'', ''ep''), (''ns'', ''ep2''), (''ns'', ''ep3'')}"
  have api: "api_run ?E two_trace = Some {(''ns'', ''ep3'')}"
    by (simp add: two_trace_def attempt_calls_def insert_commute)
  moreover have "granted ?E two_trace" by (simp add: two_trace_def attempt_calls_def)
  moreover have "\<forall>d\<in>set two_interfaces. claimed_in cleaner_lib two_trace d"
    by (simp add: claimed_in_def two_interfaces_def SelectReleaseIpServiceImplementation_def
        GetSupportedReleaseIPHandlers_def danm_IsIPAllocatedByMe_def cleaner_lib_def second_ep_def cleaner_ep_def)
  moreover have "pods_identified two_interfaces"
    by (simp add: pods_identified_def two_interfaces_def second_ep_def cleaner_ep_def)
  moreover have "get_pod willing_env h = (\<lambda>_ _. PodNotFound)" for h by (simp add: willing_env_def)
  ultimately show ?thesis using sweep_refines_cleanup [OF _ _ two_swept api] by blast
qed

end
