(* ===== verification/Cleansystem.thy ===== *)
theory Cleansystem
  imports Drain Cleanspec
begin

text \<open>
  The whole cleaner: the main thread, the periodic sweep, the queue workers and the Pod informer,
  interleaved in any way. Whichever thread deletes an endpoint can account for it.
\<close>

section \<open>What the sweep accounts for\<close>

definition acts :: "clean_event \<Rightarrow> bool" where
  "acts e \<longleftrightarrow> is_release e \<or> (\<exists>ns n err. e = DeleteEp ns n err)"

lemma acts_simps [simp]:
  "acts (DeleteEp ns n err)" "\<not> acts (GetPod ns n a)" "\<not> acts (NewTicker k)" "\<not> acts AwaitTick" "\<not> acts (FindByPodName ns n r)"
  by (simp_all add: acts_def)

text \<open>
  Every release and deletion of a sweep belongs to an attempt on an endpoint whose UID the cache has
  as missing, or the sweep found missing before.
\<close>

definition accounted :: "(uid \<rightharpoonup> bool) \<Rightarrow> danm_ep list \<Rightarrow> clean_event list \<Rightarrow> bool" where
  "accounted c deps t \<longleftrightarrow> (\<forall>us e vs. t = us @ e # vs \<longrightarrow> acts e \<longrightarrow>
     (\<exists>d us' p q. us = us' @ p \<and> deletion_shape d (p @ e # q) \<and> d \<in> set deps \<and>
        (c (PodUID (EpSpec d)) = Some False \<or> swept_for deps us' (PodUID (EpSpec d)))))"

lemma accounted_step:
  assumes "list_all (\<lambda>x. \<not> acts x) r"
    and "u = [] \<or> deletion_shape dep u \<and> (c (PodUID (EpSpec dep)) = Some False \<or> swept_for (dep # deps) r (PodUID (EpSpec dep)))"
    and "accounted c' deps t" and "\<And>v. c' v = Some False \<Longrightarrow> c v = Some False \<or> swept_for (dep # deps) r v"
  shows "accounted c (dep # deps) (r @ u @ t)"
  unfolding accounted_def
proof (intro allI impI)
  fix us e vs
  assume eq: "r @ u @ t = us @ e # vs" and e: "acts e"
  have "\<exists>zs. us = r @ zs \<and> zs @ e # vs = u @ t"
    by (rule append_within [OF eq [symmetric]]) (use assms(1) e in auto)
  then obtain zs where zs: "us = r @ zs" "zs @ e # vs = u @ t" by blast
  from zs(2) show "\<exists>d us' p q. us = us' @ p \<and> deletion_shape d (p @ e # q) \<and> d \<in> set (dep # deps) \<and>
      (c (PodUID (EpSpec d)) = Some False \<or> swept_for (dep # deps) us' (PodUID (EpSpec d)))"
  proof (rule append_within)
    fix q
    assume "u = zs @ e # q"
    with assms(2) zs(1) show ?thesis
      by (intro exI [of _ dep] exI [of _ r] exI [of _ zs] exI [of _ q]) auto
  next
    fix ys
    assume ys: "zs = u @ ys" "ys @ e # vs = t"
    with assms(3) e obtain d us' p q where d: "ys = us' @ p" "deletion_shape d (p @ e # q)" "d \<in> set deps"
      "c' (PodUID (EpSpec d)) = Some False \<or> swept_for deps us' (PodUID (EpSpec d))"
      unfolding accounted_def by blast
    have "c (PodUID (EpSpec d)) = Some False \<or> swept_for (dep # deps) (r @ u @ us') (PodUID (EpSpec d))"
      using d(4) assms(4) swept_for_mono [of "dep # deps" r _ "dep # deps" "r @ u @ us'"]
        swept_for_mono [of deps us' _ "dep # deps" "r @ u @ us'"] by fastforce
    with d(1-3) zs(1) ys(1) show ?thesis
      by (intro exI [of _ d] exI [of _ "r @ u @ us'"] exI [of _ p] exI [of _ q]) auto
  qed
qed

lemma accounted_Nil [simp]: "accounted c deps []"
  by (simp add: accounted_def)

lemma sweep_accounted:
  "\<exists>t. run_state (sweep env lib deps c) h = ((), h @ t) \<and> accounted c deps t \<and> list_all (\<lambda>e. \<not> is_queue_event e) t"
proof (induction deps arbitrary: c h)
  case (Cons dep deps)
  let ?u = "PodUID (EpSpec dep)"
  let ?a = "get_pod env h (Namespace (EpMeta dep)) (PodName (EpSpec dep))"
  let ?read = "GetPod (Namespace (EpMeta dep)) (PodName (EpSpec dep)) ?a"
  let ?r = "if c ?u = None then [?read] else []"
  let ?c = "if c ?u = None then c(?u \<mapsto> \<not> gone ?a ?u) else c"
  let ?del = "c ?u = None \<and> gone ?a ?u \<or> c ?u = Some False"
  obtain t0 where t0: "run_state (deleteInterface env lib dep) (h @ ?r) = ((), (h @ ?r) @ t0)" "deletion_shape dep t0"
    using deleteInterface_shape by blast
  let ?t0 = "if ?del then t0 else []"
  obtain t where t: "run_state (sweep env lib deps ?c) ((h @ ?r) @ ?t0) = ((), ((h @ ?r) @ ?t0) @ t)"
    "accounted ?c deps t" "list_all (\<lambda>e. \<not> is_queue_event e) t"
    using Cons.IH by blast
  have "run_state (sweep env lib (dep # deps) c) h =
      (if ?del then run_state (sweep env lib deps ?c) (snd (run_state (deleteInterface env lib dep) (h @ ?r)))
       else run_state (sweep env lib deps ?c) (h @ ?r))"
    by (auto split: option.split prod.split)
  also have "\<dots> = run_state (sweep env lib deps ?c) ((h @ ?r) @ ?t0)"
    by (cases ?del) (simp_all only: t0(1) snd_conv if_True if_False append_Nil2)
  also note t(1)
  finally have "run_state (sweep env lib (dep # deps) c) h = ((), h @ ?r @ ?t0 @ t)"
    by (simp only: append_assoc)
  moreover have "accounted c (dep # deps) (?r @ ?t0 @ t)"
  proof (rule accounted_step [OF _ _ t(2)])
    have read: "c ?u = None \<Longrightarrow> gone ?a ?u \<Longrightarrow> swept_for (dep # deps) ?r ?u"
      by (auto simp: swept_for_def)
    show "list_all (\<lambda>x. \<not> acts x) ?r" by simp
    show "?t0 = [] \<or> deletion_shape dep ?t0 \<and> (c ?u = Some False \<or> swept_for (dep # deps) ?r ?u)"
      using t0(2) read by auto
    show "?c v = Some False \<Longrightarrow> c v = Some False \<or> swept_for (dep # deps) ?r v" for v
      using read by (cases "v = ?u"; cases "c ?u = None") auto
  qed
  moreover have "list_all (\<lambda>e. \<not> is_queue_event e) (?r @ ?t0 @ t)"
    using t(3) shape_no_queue [OF t0(2)] by (auto simp: list_all_iff)
  ultimately show ?case by blast
qed simp

text \<open>Every release and deletion of the periodic thread follows a listing and a read of the Pod.\<close>

definition periodic_accounted :: "clean_event list \<Rightarrow> bool" where
  "periodic_accounted t \<longleftrightarrow> (\<forall>us e vs. t = us @ e # vs \<longrightarrow> acts e \<longrightarrow>
     (\<exists>d us' p q deps. us = us' @ p \<and> deletion_shape d (p @ e # q) \<and> d \<in> set deps \<and>
        FindByPodName [] [] (Inr deps) \<in> set us' \<and> swept_for deps us' (PodUID (EpSpec d))))"

lemma periodic_accounted_append:
  assumes "periodic_accounted xs" and "periodic_accounted ys"
  shows "periodic_accounted (xs @ ys)"
  unfolding periodic_accounted_def
proof (intro allI impI)
  fix us e vs
  assume eq: "xs @ ys = us @ e # vs" and e: "acts e"
  from eq [symmetric] show "\<exists>d us' p q deps. us = us' @ p \<and> deletion_shape d (p @ e # q) \<and> d \<in> set deps \<and>
      FindByPodName [] [] (Inr deps) \<in> set us' \<and> swept_for deps us' (PodUID (EpSpec d))"
  proof (rule append_within)
    fix zs
    assume zs: "us = xs @ zs" "zs @ e # vs = ys"
    with assms(2) e obtain d us' p q deps where d: "zs = us' @ p" "deletion_shape d (p @ e # q)" "d \<in> set deps"
      "FindByPodName [] [] (Inr deps) \<in> set us'" "swept_for deps us' (PodUID (EpSpec d))"
      unfolding periodic_accounted_def by blast
    have "swept_for deps (xs @ us') (PodUID (EpSpec d))" using swept_for_mono [OF d(5)] by simp
    with d(1-4) zs(1) show ?thesis
      by (intro exI [of _ d] exI [of _ "xs @ us'"] exI [of _ p] exI [of _ q] exI [of _ deps]) simp
  qed (use assms(1) e in \<open>unfold periodic_accounted_def, blast\<close>)
qed

lemma tick_accounted:
  "\<exists>t. run_state (cleanup_tick env lib) h = ((), h @ t) \<and> periodic_accounted t \<and> list_all (\<lambda>e. \<not> is_queue_event e) t"
proof (cases "find_eps env h [] []")
  case (Inl err)
  then show ?thesis
    by (intro exI [of _ "[FindByPodName [] [] (Inl err)]"])
      (simp add: cleanup_tick_def periodic_accounted_def Cons_eq_append_conv)
next
  case (Inr deps)
  let ?find = "FindByPodName [] [] (Inr deps)"
  obtain t where t: "run_state (sweep env lib deps Map.empty) (h @ [?find]) = ((), (h @ [?find]) @ t)"
    "accounted Map.empty deps t" "list_all (\<lambda>e. \<not> is_queue_event e) t"
    using sweep_accounted by blast
  have "periodic_accounted (?find # t)"
    unfolding periodic_accounted_def
  proof (intro allI impI)
    fix us e vs
    assume eq: "?find # t = us @ e # vs" and e: "acts e"
    then obtain us1 where us: "us = ?find # us1" "t = us1 @ e # vs" by (cases us) auto
    with t(2) e obtain d us' p q where d: "us1 = us' @ p" "deletion_shape d (p @ e # q)" "d \<in> set deps"
      "swept_for deps us' (PodUID (EpSpec d))"
      unfolding accounted_def by (metis option.discI)
    have "swept_for deps (?find # us') (PodUID (EpSpec d))" by (rule swept_for_mono [OF d(4)]) auto
    with d(1-3) us(1) show "\<exists>d us' p q deps. us = us' @ p \<and> deletion_shape d (p @ e # q) \<and> d \<in> set deps \<and>
        FindByPodName [] [] (Inr deps) \<in> set us' \<and> swept_for deps us' (PodUID (EpSpec d))"
      by (intro exI [of _ d] exI [of _ "?find # us'"] exI [of _ p] exI [of _ q] exI [of _ deps]) simp
  qed
  with t Inr show ?thesis
    by (intro exI [of _ "?find # t"]) (simp add: cleanup_tick_def cleanDanglingEps_def)
qed

lemma tick_loop_accounted:
  "\<exists>t. run_state (tick_loop env lib n) h = ((), h @ t) \<and> periodic_accounted t \<and> list_all (\<lambda>e. \<not> is_queue_event e) t"
proof (induction n arbitrary: h)
  case 0
  show ?case by (intro exI [of _ "[]"]) (simp add: periodic_accounted_def)
next
  case (Suc n)
  let ?h = "h @ [AwaitTick]"
  have wait: "periodic_accounted [AwaitTick]"
    by (simp add: periodic_accounted_def Cons_eq_append_conv)
  obtain t0 where t0: "run_state (cleanup_tick env lib) ?h = ((), ?h @ t0)" "periodic_accounted t0"
    "list_all (\<lambda>e. \<not> is_queue_event e) t0" using tick_accounted by blast
  obtain t where t: "run_state (tick_loop env lib n) (?h @ t0) = ((), (?h @ t0) @ t)" "periodic_accounted t"
    "list_all (\<lambda>e. \<not> is_queue_event e) t" using Suc.IH by blast
  have "periodic_accounted ([AwaitTick] @ t0 @ t)"
    using wait t0(2) t(2) periodic_accounted_append by blast
  with t0 t show ?case by (intro exI [of _ "[AwaitTick] @ t0 @ t"]) simp
qed

lemma ticks_accounted:
  "\<exists>t. run_state (cleanupOnTick env lib n) h = ((), h @ t) \<and> periodic_accounted t \<and> list_all (\<lambda>e. \<not> is_queue_event e) t"
proof -
  obtain t where t: "run_state (tick_loop env lib n) (h @ [NewTicker 10000]) = ((), (h @ [NewTicker 10000]) @ t)"
    "periodic_accounted t" "list_all (\<lambda>e. \<not> is_queue_event e) t" using tick_loop_accounted by blast
  have "periodic_accounted [NewTicker 10000]"
    by (simp add: periodic_accounted_def Cons_eq_append_conv)
  from periodic_accounted_append [OF this t(2)] t show ?thesis
    by (intro exI [of _ "NewTicker 10000 # t"]) (simp add: cleanupOnTick_def)
qed

section \<open>The other threads\<close>

text \<open>The main thread waits, starts the others and shuts the queue down.\<close>

fun is_control :: "clean_event \<Rightarrow> bool" where
  "is_control StartInformers = True"
| "is_control (PodSynced b) = True"
| "is_control (CleanSleep n) = True"
| "is_control SpawnPeriodicCleanup = True"
| "is_control (WaitForCacheSync b) = True"
| "is_control SpawnWorker = True"
| "is_control WaitForStop = True"
| "is_control QueueShutDown = True"
| "is_control (CleanExit n) = True"
| "is_control e = False"

lemma is_control_simps: "is_control e \<Longrightarrow> \<not> acts e \<and> \<not> is_queue_call e"
  by (cases e) (simp_all add: acts_def)

lemma pollSynced_control: "\<exists>t. run_state (pollSynced env timer) h = ((), h @ t) \<and> list_all is_control t"
proof (induction env timer arbitrary: h rule: pollSynced.induct)
  case (1 env timer)
  show ?case
  proof (cases "timer \<le> 10000 \<and> \<not> pod_synced env h")
    case True
    obtain t where "run_state (pollSynced env (timer + 100)) (h @ [PodSynced False, CleanSleep 100]) =
        ((), (h @ [PodSynced False, CleanSleep 100]) @ t)" "list_all is_control t"
      using "1.IH" True by blast
    with True show ?thesis
      by (intro exI [of _ "[PodSynced False, CleanSleep 100] @ t"]) (auto simp: pollSynced.simps [of env timer])
  qed (auto simp: pollSynced.simps [of env timer])
qed

lemma spawnWorkers_control: "run_state (spawnWorkers n) h = ((), h @ replicate n SpawnWorker)"
  by (induction n arbitrary: h) simp_all

lemma cleanStuff_control: "\<exists>t. run_state (cleanStuff env c) h = ((), h @ t) \<and> list_all is_control t"
proof -
  obtain t where t: "run_state (pollSynced env 0) (h @ [StartInformers]) = ((), (h @ [StartInformers]) @ t)"
    "list_all is_control t" using pollSynced_control by blast
  show ?thesis
  proof (cases "cache_synced env (h @ StartInformers # t @ [SpawnPeriodicCleanup])")
    case True
    with t show ?thesis
      by (intro exI [of _ "StartInformers # t @ SpawnPeriodicCleanup # WaitForCacheSync True #
          replicate 10 SpawnWorker @ [WaitForStop, QueueShutDown]"])
        (simp add: cleanStuff_def Initialize_def RunCleaner_def spawnWorkers_control list_all_iff del: spawnWorkers.simps)
  next
    case False
    with t show ?thesis
      by (intro exI [of _ "StartInformers # t @ [SpawnPeriodicCleanup, WaitForCacheSync False, QueueShutDown, CleanExit 1]"])
        (simp add: cleanStuff_def Initialize_def RunCleaner_def)
  qed
qed

definition main_thread :: "cache_lib \<Rightarrow> clean_event list \<Rightarrow> bool" where
  "main_thread kc t \<longleftrightarrow> (\<exists>env. run_state (cleanStuff env (NewCleaner kc)) [] = ((), t))"

definition periodic_thread :: "ipam_lib \<Rightarrow> clean_event list \<Rightarrow> bool" where
  "periodic_thread lib t \<longleftrightarrow> (\<exists>env n. run_state (cleanupOnTick env lib n) [] = ((), t))"

definition cleaner_threads ::
  "ipam_lib \<Rightarrow> cache_lib \<Rightarrow> pod_change list \<Rightarrow> nat \<Rightarrow> (clean_event list \<Rightarrow> bool) list" where
  "cleaner_threads lib kc cs n =
     pod_informer kc cs # main_thread kc # periodic_thread lib # replicate n (queue_worker lib kc)"

lemma cleaner_thread_cases:
  assumes "interleaved (cleaner_threads lib kc cs n) tr" and "(j, e) \<in> set tr"
  obtains (informer) "j = 0" "pod_informer kc cs (of_thread j tr)" | (control) "is_control e"
  | (periodic) "periodic_thread lib (of_thread j tr)" | (worker) "queue_worker lib kc (of_thread j tr)"
proof -
  have "j < length (cleaner_threads lib kc cs n)" using assms by (force simp: interleaved_def)
  with assms(1) have j: "(cleaner_threads lib kc cs n ! j) (of_thread j tr)" by (simp add: interleaved_def)
  have e: "e \<in> set (of_thread j tr)" using assms(2) by (simp add: set_of_thread)
  have main: "list_all is_control t" if "main_thread kc t" for t
  proof -
    from that obtain env where "run_state (cleanStuff env (NewCleaner kc)) [] = ((), t)"
      by (auto simp: main_thread_def)
    with cleanStuff_control [of env "NewCleaner kc" "[]"] show ?thesis by auto
  qed
  have "j < 3 + n" using \<open>j < length _\<close> by (simp add: cleaner_threads_def)
  then consider "j = 0" | "j = 1" | "j = 2" | i where "j = 3 + i" "i < n"
    by (metis One_nat_def less_2_cases less_Suc_eq less_imp_add_positive linorder_not_less nat_add_left_cancel_less
        nat_le_iff_add numeral_2_eq_2 numeral_3_eq_3)
  then show ?thesis
  proof cases
    case 1
    with j informer show ?thesis by (simp add: cleaner_threads_def)
  next
    case 2
    with j have "main_thread kc (of_thread j tr)" by (simp add: cleaner_threads_def)
    with main e control show ?thesis by (auto simp: list_all_iff)
  next
    case 3
    with j periodic show ?thesis by (simp add: cleaner_threads_def)
  next
    case 4
    with j worker show ?thesis by (simp add: cleaner_threads_def numeral_3_eq_3)
  qed
qed

lemma periodic_accounts:
  assumes "periodic_thread lib t"
  shows "periodic_accounted t \<and> list_all (\<lambda>e. \<not> is_queue_event e) t"
proof -
  obtain env n where "run_state (cleanupOnTick env lib n) [] = ((), t)"
    using assms by (auto simp: periodic_thread_def)
  with ticks_accounted [of env lib n "[]"] show ?thesis by auto
qed

section \<open>Accounting for a deletion\<close>

text \<open>An attempt that deletes has released both addresses of its endpoint.\<close>

lemma shape_deletes:
  assumes "deletion_shape ep (us @ DeleteEp ns n err # vs)"
  shows "(ns, n) = ep_key ep \<and> (\<exists>dnet v. us = found_first ep dnet @ v \<and> released_both ep dnet v)"
proof -
  let ?e = "DeleteEp ns n err"
  obtain dnet v w where t: "us @ ?e # vs = found_first ep dnet @ v @ w" "list_all (releases_of ep) v"
    "w = [] \<or> released_both ep dnet v \<and> (\<exists>err. w = [DeleteEp (Namespace (EpMeta ep)) (Name (EpMeta ep)) err])"
    using assms unfolding deletion_shape_def by auto
  have "list_all is_look (found_first ep dnet)" by (simp add: found_first_def)
  from append_past [OF t(1) this] obtain x where x: "us = found_first ep dnet @ x" "x @ ?e # vs = v @ w" by auto
  from append_past [OF x(2) t(2)] obtain z where z: "x = v @ z" "z @ ?e # vs = w" by auto
  with t(3) have "z = []" "(ns, n) = ep_key ep" "released_both ep dnet v" by (cases z; auto)+
  with x(1) z(1) show ?thesis by auto
qed

definition freed_first :: "nat \<Rightarrow> (nat \<times> clean_event) list \<Rightarrow> danm_ep \<Rightarrow> bool" where
  "freed_first j us ep \<longleftrightarrow> (\<exists>dnet s4 s6.
     (j, GetEp (Namespace (EpMeta ep)) (Name (EpMeta ep)) None) \<in> set us \<and>
     (j, release_call dnet s4 (Address (Iface (EpSpec ep))) None) \<in> set us \<and>
     (j, release_call dnet s6 (AddressIPv6 (Iface (EpSpec ep))) None) \<in> set us)"

definition found_dangling :: "nat \<Rightarrow> (nat \<times> clean_event) list \<Rightarrow> danm_ep \<Rightarrow> bool" where
  "found_dangling j us ep \<longleftrightarrow> (\<exists>deps d a. (j, FindByPodName [] [] (Inr deps)) \<in> set us \<and> ep \<in> set deps \<and>
     d \<in> set deps \<and> PodUID (EpSpec d) = PodUID (EpSpec ep) \<and>
     (j, GetPod (Namespace (EpMeta d)) (PodName (EpSpec d)) a) \<in> set us \<and> gone a (PodUID (EpSpec ep)))"

definition pod_departed :: "pod_change list \<Rightarrow> nat \<Rightarrow> (nat \<times> clean_event) list \<Rightarrow> danm_ep \<Rightarrow> bool" where
  "pod_departed cs j us ep \<longleftrightarrow> (\<exists>c pod deps. c \<in> set cs \<and> pod_left c pod \<and>
     (0, QueueAdd (key_of (Namespace (PodMeta pod)) (Name (PodMeta pod)))) \<in> set us \<and>
     (j, FindByPodName (Name (PodMeta pod)) (Namespace (PodMeta pod)) (Inr deps)) \<in> set us \<and> ep \<in> set deps)"

lemma shape_freed:
  assumes "deletion_shape ep (p @ DeleteEp ns n err # q)" and "of_thread j us = us' @ p"
  shows "(ns, n) = ep_key ep \<and> freed_first j us ep"
proof -
  obtain dnet v where v: "(ns, n) = ep_key ep" "p = found_first ep dnet @ v" "released_both ep dnet v"
    using shape_deletes [OF assms(1)] by blast
  have in_us: "e \<in> set p \<Longrightarrow> (j, e) \<in> set us" for e using assms(2) by (simp flip: set_of_thread)
  obtain s4 s6 where "v = [release_call dnet s4 (Address (Iface (EpSpec ep))) None,
      release_call dnet s6 (AddressIPv6 (Iface (EpSpec ep))) None]"
    using v(3) by (auto simp: released_both_def)
  with v(2) have "release_call dnet s4 (Address (Iface (EpSpec ep))) None \<in> set p"
    "release_call dnet s6 (AddressIPv6 (Iface (EpSpec ep))) None \<in> set p"
    "GetEp (Namespace (EpMeta ep)) (Name (EpMeta ep)) None \<in> set p"
    by (simp_all add: found_first_def)
  with v(1) in_us show ?thesis unfolding freed_first_def by blast
qed

text \<open>The keys in the queue are those of Pods that went away.\<close>

context cache_keys
begin

lemma keys_of_mem: "k \<in> set (keys_of kc obj) \<Longrightarrow>
    \<exists>pod. obj = MetaObject pod \<and> k = key_of (Namespace (PodMeta pod)) (Name (PodMeta pod))"
  using key by (auto simp: keys_of_def split: sum.splits)

lemma added_left:
  assumes "k \<in> set (added_by kc c)"
  shows "\<exists>pod. pod_left c pod \<and> k = key_of (Namespace (PodMeta pod)) (Name (PodMeta pod))"
  using assms by (cases "(kc, c)" rule: added_by.cases) (auto dest: keys_of_mem split: if_splits)

lemma key_left:
  assumes "list_all change_named cs" and "pod_informer kc cs t" and "QueueAdd k \<in> set t"
  shows "\<exists>c pod. c \<in> set cs \<and> pod_left c pod \<and> named pod \<and> k = key_of (Namespace (PodMeta pod)) (Name (PodMeta pod))"
proof -
  obtain c where c: "c \<in> set cs" "k \<in> set (added_by kc c)"
    using assms(2,3) by (auto simp: pod_informer_exact)
  with added_left assms(1) left_named show ?thesis by (fastforce simp: list_all_iff)
qed

end

section \<open>All threads of the cleaner\<close>

lemma informer_only: "pod_informer kc cs (xs @ e # ys) \<Longrightarrow> \<exists>k. e = QueueAdd k"
proof -
  assume "pod_informer kc cs (xs @ e # ys)"
  then have "xs @ e # ys = map QueueAdd (concat (map (added_by kc) cs))" by (simp add: pod_informer_exact)
  then show ?thesis by (auto simp: append_eq_map_conv Cons_eq_map_conv)
qed

lemma cleaner_own:
  assumes "cache_keys kc" and "interleaved (cleaner_threads lib kc cs n) (us @ vs)"
  shows "returns_own us"
  unfolding returns_own_def
proof (intro allI impI)
  fix xs j i ys
  assume us: "us = xs @ (j, QueueDone i) # ys"
  let ?e = "QueueDone i"
  have t: "of_thread j (us @ vs) = of_thread j xs @ ?e # of_thread j (ys @ vs)" by (simp add: us)
  have "(j, ?e) \<in> set (us @ vs)" by (simp add: us)
  from assms(2) this show "holds i (of_thread j xs)"
  proof (cases rule: cleaner_thread_cases)
    case informer
    then show ?thesis unfolding t by (auto dest: informer_only)
  next
    case periodic
    from periodic_accounts [OF this] show ?thesis unfolding t by simp
  next
    case worker
    then show ?thesis unfolding t by (rule worker_done)
  qed simp
qed

lemma cleaner_added:
  assumes "interleaved (cleaner_threads lib kc cs n) tr" and "(k, QueueAdd key) \<in> set tr"
  shows "k = 0 \<and> pod_informer kc cs (of_thread k tr) \<and> QueueAdd key \<in> set (of_thread k tr)"
proof -
  have e: "QueueAdd key \<in> set (of_thread k tr)" using assms(2) by (simp add: set_of_thread)
  from assms show ?thesis
  proof (cases rule: cleaner_thread_cases)
    case periodic
    from periodic_accounts [OF this] e show ?thesis by (auto simp: list_all_iff)
  next
    case worker
    with e worker_adds_nothing show ?thesis by (metis in_set_conv_decomp)
  qed (use e in simp_all)
qed

text \<open>A key that was handed out is that of a Pod that went away.\<close>

lemma cleaner_handed_out:
  assumes "work_queue step ok waiting processing" and "pod_keys kc"
    and "interleaved (cleaner_threads lib kc cs n) tr" and "list_all change_named cs"
    and "queue_run step q (map snd tr) \<noteq> None" and "ok q" and "processing q = {}" and "waiting q = {}"
    and "tr = us @ vs" and "(j, QueueGet (Some (KeyItem key))) \<in> set us"
    and "SplitMetaNamespaceKey kc key = Inr (ns, name)"
  shows "\<exists>c pod. c \<in> set cs \<and> pod_left c pod \<and> (0, QueueAdd (key_of ns name)) \<in> set us \<and>
     Namespace (PodMeta pod) = ns \<and> Name (PodMeta pod) = name"
proof -
  have keys: "cache_keys kc" using assms(2) by (rule pod_keys.axioms)
  have "queue_run step q (map snd us) \<noteq> None"
    using assms(5,9) by (auto simp: queue_run_append split: option.splits)
  moreover have "returns_own us" using cleaner_own [OF keys] assms(3,9) by blast
  ultimately have "KeyItem key \<in> added us"
    using work_queue.exclusive [OF assms(1) _ assms(6-8)] assms(10) by blast
  then obtain k where k: "(k, QueueAdd key) \<in> set us" by (auto simp: added_def)
  then have "(k, QueueAdd key) \<in> set tr" by (simp add: assms(9))
  note informer = cleaner_added [OF assms(3) this]
  then obtain c pod where c: "c \<in> set cs" "pod_left c pod" "named pod"
    "key = key_of (Namespace (PodMeta pod)) (Name (PodMeta pod))"
    using cache_keys.key_left [OF keys assms(4)] by blast
  have "SplitMetaNamespaceKey kc key = Inr (Namespace (PodMeta pod), Name (PodMeta pod))"
    using pod_keys.undone [OF assms(2)] c(3) unfolding c(4) named_def by blast
  with assms(11) have "ns = Namespace (PodMeta pod)" "name = Name (PodMeta pod)" by simp_all
  with c k informer show ?thesis by blast
qed

section \<open>Properties\<close>

text \<open>
  A sweep deletes only what is dangling: whatever the API server and the lister answer, an
  endpoint is deleted only if it is one of those listed and, during this sweep, the Pod lister was
  asked about the Pod with its UID and reported it missing or re-created. A lister error deletes
  nothing.
\<close>

theorem sweep_deletes_only_dangling:
  assumes "run_state (cleanDanglingEps env lib deps) h = ((), h @ t)" and "DeleteEp ns n e \<in> set t"
  shows "\<exists>d d' a. d \<in> set deps \<and> ep_key d = (ns, n) \<and>
     d' \<in> set deps \<and> PodUID (EpSpec d') = PodUID (EpSpec d) \<and>
     GetPod (Namespace (EpMeta d')) (PodName (EpSpec d')) a \<in> set t \<and> gone a (PodUID (EpSpec d))"
proof -
  have "accounted Map.empty deps t"
    using sweep_accounted [of env lib deps Map.empty h] assms(1) by (auto simp: cleanDanglingEps_def)
  moreover obtain us vs where t: "t = us @ DeleteEp ns n e # vs" using assms(2) by (auto simp: in_set_conv_decomp)
  ultimately obtain d us' p q where d: "us = us' @ p" "deletion_shape d (p @ DeleteEp ns n e # q)" "d \<in> set deps"
    "swept_for deps us' (PodUID (EpSpec d))"
    unfolding accounted_def by (metis acts_simps(1) option.discI)
  have "swept_for deps t (PodUID (EpSpec d))" by (rule swept_for_mono [OF d(4)]) (auto simp: t d(1))
  with d(3) shape_deletes [OF d(2)] show ?thesis unfolding swept_for_def by metis
qed

lemma sweep_deletes_only_dangling_witness:
  "\<exists>d. d \<in> set sweep_deps \<and> ep_key d = (''ns'', ''ep'')"
  using sweep_deletes_only_dangling [OF example_sweep, of "''ns''" "''ep''" None] by auto

text \<open>
  C13: The cleaner accounts for every deletion. However its threads are interleaved and whatever the API
  server answers: the thread that deletes an endpoint has read it and released both its
  addresses before, and either it is the sweep, which listed the endpoint and was told by the Pod lister that
  the Pod of its UID does not exist any more, or it is a worker that found the endpoint under the
  namespace and name of a Pod that went away, whose key the informer had enqueued.
\<close>

theorem cleaner_deletes_accounted:
  assumes "work_queue step ok waiting processing" and "pod_keys kc"
    and "interleaved (cleaner_threads lib kc cs n) tr" and "list_all change_named cs"
    and "queue_run step q (map snd tr) \<noteq> None" and "ok q" and "processing q = {}" and "waiting q = {}"
    and "tr = us @ (j, DeleteEp ns m err) # vs"
  shows "\<exists>ep. (ns, m) = ep_key ep \<and> freed_first j us ep \<and> (found_dangling j us ep \<or> pod_departed cs j us ep)"
proof -
  let ?e = "DeleteEp ns m err"
  have t: "of_thread j tr = of_thread j us @ ?e # of_thread j vs" by (simp add: assms(9))
  have in_us: "e \<in> set (of_thread j us) \<Longrightarrow> (j, e) \<in> set us" for e by (simp add: set_of_thread)
  have "(j, ?e) \<in> set tr" by (simp add: assms(9))
  from assms(3) this show ?thesis
  proof (cases rule: cleaner_thread_cases)
    case informer
    then show ?thesis unfolding t by (auto dest: informer_only)
  next
    case periodic
    from periodic_accounts [OF this] obtain d us' p q deps where
      d: "of_thread j us = us' @ p" "deletion_shape d (p @ ?e # q)" "d \<in> set deps"
        "FindByPodName [] [] (Inr deps) \<in> set us'" "swept_for deps us' (PodUID (EpSpec d))"
      unfolding t periodic_accounted_def by (metis acts_simps(1))
    have "found_dangling j us d"
      using d in_us unfolding found_dangling_def swept_for_def d(1) by (metis UnCI set_append)
    with shape_freed [OF d(2,1)] show ?thesis by blast
  next
    case worker
    then obtain before key ns' name deps ts ep p r where
      us: "of_thread j us = before @ QueueGet (Some (KeyItem key)) # FindByPodName name ns' (Inr deps) # ts @ p"
      and w: "SplitMetaNamespaceKey kc key = Inr (ns', name)" "ep \<in> set deps" "deletion_shape ep (p @ ?e # r)"
      unfolding t by (rule worker_attempt) blast+
    have "of_thread j us = (before @ QueueGet (Some (KeyItem key)) # FindByPodName name ns' (Inr deps) # ts) @ p"
      by (simp add: us)
    note freed = shape_freed [OF w(3) this]
    have "(j, QueueGet (Some (KeyItem key))) \<in> set us" by (rule in_us) (simp add: us)
    from cleaner_handed_out [OF assms(1-8,9) this w(1)] have "pod_departed cs j us ep"
      unfolding pod_departed_def using in_us [of "FindByPodName name ns' (Inr deps)"] us w(2) by fastforce
    with freed show ?thesis by blast
  qed simp
qed

text \<open>
  At a concrete run: the first worker deletes one endpoint of the Pod that was removed while the sweep
  has listed both and deletes the other.
\<close>

definition start_calls :: "clean_event list" where
  "start_calls = StartInformers # PodSynced True # SpawnPeriodicCleanup # WaitForCacheSync True # replicate 10 SpawnWorker"

definition stop_calls :: "clean_event list" where
  "stop_calls = [WaitForStop, QueueShutDown]"

definition worker_calls :: "clean_event list" where
  "worker_calls = QueueGet (Some (KeyItem ''ns/pod'')) # FindByPodName ''pod'' ''ns'' (Inr [race_ep]) #
     attempt_calls ''ep'' ''10.0.0.1/24'' ''fd00::1/64'' race_ep @
     [QueueForget (KeyItem ''ns/pod''), QueueDone (KeyItem ''ns/pod'')]"

definition sweep_calls :: "clean_event list" where
  "sweep_calls = NewTicker 10000 # AwaitTick # FindByPodName [] [] (Inr [second_ep]) # GetPod ''ns'' ''pod'' PodNotFound #
     attempt_calls ''ep2'' ''10.0.0.2/24'' ''fd00::2/64'' second_ep"

definition cleaner_trace :: "(nat \<times> clean_event) list" where
  "cleaner_trace = map (Pair 1) start_calls @ (0, QueueAdd ''ns/pod'') # map (Pair 3) worker_calls @
     map (Pair 2) sweep_calls @ map (Pair 1) stop_calls"

lemma of_thread_map [simp]: "of_thread i (map (Pair j) t) = (if i = j then t else [])"
proof (induction t)
  case Nil
  show ?case by (simp add: of_thread_def)
qed auto

lemma start_stop: "main_thread slash_keys (start_calls @ stop_calls)"
proof -
  have "run_state (cleanStuff (willing_env\<lparr>pod_synced := \<lambda>_. True\<rparr>) (NewCleaner slash_keys)) [] =
      ((), start_calls @ stop_calls)"
    by (simp add: cleanStuff_def Initialize_def pollSynced.simps RunCleaner_def spawnWorkers_control willing_env_def
        start_calls_def stop_calls_def del: spawnWorkers.simps)
  then show ?thesis unfolding main_thread_def by blast
qed

lemma one_sweep: "periodic_thread cleaner_lib sweep_calls"
proof -
  have "run_state (cleanupOnTick (willing_env\<lparr>find_eps := \<lambda>_ _ _. Inr [second_ep]\<rparr>) cleaner_lib 1) [] = ((), sweep_calls)"
    by (simp add: cleanupOnTick_def cleanup_tick_def cleanDanglingEps_def deleteInterface_def DeleteDanmEp_def
        SelectReleaseIpServiceImplementation_def GetSupportedReleaseIPHandlers_def gone_def
        danm_IsIPAllocatedByMe_def danm_ReleaseIP_def cleaner_lib_def willing_env_def sweep_calls_def attempt_calls_def)
      (simp add: second_ep_def cleaner_ep_def)
  then show ?thesis unfolding periodic_thread_def by blast
qed

lemma cleaner_run:
  "interleaved (cleaner_threads cleaner_lib slash_keys [PodRemoved (MetaObject gone_pod)] 1) cleaner_trace"
proof -
  have "queue_worker cleaner_lib slash_keys worker_calls"
    using thread_program [OF shared_trace_threads, of 1 "CleanSleep 1000"]
    by (simp add: shared_trace_def of_thread_def worker_calls_def attempt_calls_def)
  moreover have "pod_informer slash_keys [PodRemoved (MetaObject gone_pod)] [QueueAdd ''ns/pod'']"
    by (simp add: pod_informer_exact keys_of_def slash_keys_def key_of_def gone_pod_def)
  moreover have "fst ` set cleaner_trace \<subseteq> {..3}" by (auto simp: cleaner_trace_def)
  ultimately show ?thesis
    using start_stop one_sweep
    by (simp add: cleaner_threads_def interleaved_Cons All_less_Suc2 cleaner_trace_def numeral_3_eq_3 numeral_2_eq_2)
qed

lemma cleaner_deletes_accounted_witness:
  "\<exists>ep. (''ns'', ''ep'') = ep_key ep \<and>
     freed_first 3 (map (Pair 1) start_calls @ (0, QueueAdd ''ns/pod'') # map (Pair 3) (take 7 worker_calls)) ep"
  (is "\<exists>ep. _ \<and> freed_first 3 ?us ep")
proof -
  have named: "list_all change_named [PodRemoved (MetaObject gone_pod)]"
    by (simp add: named_def api_name_def gone_pod_def)
  have run: "queue_run wq_step wq_empty (map snd cleaner_trace) \<noteq> None"
    by (simp add: cleaner_trace_def start_calls_def worker_calls_def attempt_calls_def sweep_calls_def stop_calls_def
        eval_nat_numeral wq_empty_def)
  have start: "wq_ok wq_empty" "Processing wq_empty = {}" "Dirty wq_empty = {}"
    by (simp_all add: wq_ok_def wq_empty_def)
  have "cleaner_trace = ?us @ (3, DeleteEp ''ns'' ''ep'' None) # map (Pair 3) (drop 8 worker_calls) @
      map (Pair 2) sweep_calls @ map (Pair 1) stop_calls"
    by (simp add: cleaner_trace_def worker_calls_def attempt_calls_def)
  from cleaner_deletes_accounted [OF wq.work_queue_axioms sp.pod_keys_axioms cleaner_run named run start this]
  show ?thesis by blast
qed

end
