(* ===== verification/Showalloc.thy ===== *)
theory Showalloc
  imports Poltypes Ipaddr
begin

text \<open>
  \<open>cmd/showalloc\<close>: listing the IP allocation of a DANM network. Addresses are byte lists, the
  arithmetic on their last four bytes is done on 32-bit words and wraps as the code's does. The
  API server, the client constructors and the bit array of \<open>github.com/nokia/danm\<close> are
  parameters. Printing is the list of the entries in print order.
\<close>

section \<open>Arithmetic on addresses\<close>

text \<open>The last four bytes as a big-endian number.\<close>

definition last_word :: "go_ip \<Rightarrow> 32 word" where
  "last_word ip = push_bit 24 (ucast (ip ! 12)) + push_bit 16 (ucast (ip ! 13)) +
     push_bit 8 (ucast (ip ! 14)) + ucast (ip ! 15)"

definition with_last_word :: "go_ip \<Rightarrow> 32 word \<Rightarrow> go_ip" where
  "with_last_word ip v = ip[15 := ucast (v AND 0xFF), 14 := ucast (drop_bit 8 v AND 0xFF),
     13 := ucast (drop_bit 16 v AND 0xFF), 12 := ucast (drop_bit 24 v AND 0xFF)]"

text \<open>Indexing the last bytes of the nil slice panics.\<close>

definition addIP :: "go_ip \<Rightarrow> 32 word \<Rightarrow> go_ip go" where
  "addIP ip num =
     (let oldIP = To16 ip
      in if length oldIP \<le> 15 then Inl IndexOutOfRange
         else (let v = last_word oldIP; v = v + num in Inr (with_last_word oldIP v)))"

definition diffIP :: "go_ip \<Rightarrow> go_ip \<Rightarrow> (32 word) go" where
  "diffIP ip1 ip2 =
     (let i1 = To16 ip1; i2 = To16 ip2
      in if length i1 \<le> 15 \<or> length i2 \<le> 15 then Inl IndexOutOfRange
         else (let u1 = last_word i1; u2 = last_word i2 in Inr (u2 - u1)))"

section \<open>Endpoints by address\<close>

definition ep_address :: "bool \<Rightarrow> danm_ep \<Rightarrow> go_ip" where
  "ep_address v6 ep =
     (case ParseCIDR (if v6 then AddressIPv6 (Iface (EpSpec ep)) else Address (Iface (EpSpec ep))) of
        None \<Rightarrow> [] | Some (ip, ipnet) \<Rightarrow> ip)"

fun findEpByIP :: "danm_ep list \<Rightarrow> go_ip \<Rightarrow> bool \<Rightarrow> danm_ep option" where
  "findEpByIP [] ip v6 = None"
| "findEpByIP (ep # epList) ip v6 =
     (let epIP = ep_address v6 ep
      in if ip_equal epIP ip then Some ep else findEpByIP epList ip v6)"

section \<open>The listing loop\<close>

text \<open>What the loop reads; \<open>BaLen\<close> and \<open>BaGet\<close> are the bit array.\<close>

record show_args =
  BaLen :: "32 word"
  BaGet :: "32 word \<Rightarrow> bool"
  Ip0 :: go_ip
  IStart :: "32 word"
  IEnd :: "32 word"
  EpList :: "danm_ep list"
  V6 :: bool
  ShowAll :: bool
  ShowCidr :: "ip_net option"

text \<open>The switch of the loop; \<open>None\<close> is \<open>continue\<close>.\<close>

definition entry_status :: "show_args \<Rightarrow> 32 word \<Rightarrow> go_ip \<Rightarrow> string option" where
  "entry_status a i ip =
     (if i = 0 then Some ''reserved (network base address)''
      else if i = BaLen a - 1 then Some ''reserved (broadcast address)''
      else if i < IStart a \<or> i > IEnd a then
        (if \<not> ShowAll a then None else Some ''out of pool range'')
      else if BaGet a i then
        (case findEpByIP (EpList a) ip (V6 a) of
           Some ep \<Rightarrow> Some (''allocated (Pod: '' @ PodName (EpSpec ep) @ '')'')
         | None \<Rightarrow> Some ''allocated (unknown Pod)'')
      else if \<not> ShowAll a then None else Some ''free'')"

definition outside_cidr :: "show_args \<Rightarrow> go_ip \<Rightarrow> bool" where
  "outside_cidr a ip = (case ShowCidr a of None \<Rightarrow> False | Some n \<Rightarrow> \<not> net_contains n ip)"

lemma unat_next: "i < n \<Longrightarrow> unat (i + 1) = Suc (unat (i :: 'a :: len word))"
proof -
  assume "i < n"
  then have "Suc (unat i) \<le> unat n" by (simp add: word_less_nat_alt)
  then have "Suc (unat i) < 2 ^ LENGTH('a)" using unsigned_less [of n] by (metis order_le_less_trans)
  then show ?thesis by (simp add: unat_word_ariths)
qed

function show_loop :: "show_args \<Rightarrow> 32 word \<Rightarrow> (go_ip \<times> string) list \<Rightarrow> (go_ip \<times> string) list go" where
  "show_loop a i lines =
     (if i < BaLen a then
        go_bind (addIP (Ip0 a) i) (\<lambda>ip.
          if outside_cidr a ip then show_loop a (i + 1) lines
          else (case entry_status a i ip of
                  None \<Rightarrow> show_loop a (i + 1) lines
                | Some status \<Rightarrow> show_loop a (i + 1) (lines @ [(ip, status)])))
      else Inr lines)"
  by pat_completeness auto
termination
  by (relation "measure (\<lambda>(a, i, lines). unat (BaLen a) - unat i)")
    (auto simp: unat_next word_less_nat_alt)

declare show_loop.simps [simp del]

section \<open>The program\<close>

record sa_flags =
  Dnet :: string
  Cnet :: string
  Tnet :: string
  NsFlag :: string
  V6Flag :: bool
  ShowCidrStr :: string
  ShowAllFlag :: bool

text \<open>
  The libraries: client construction, the four API reads, and \<open>NewBitArrayFromBase64\<close> as its
  length and its \<open>Get\<close>.
\<close>

record sa_api =
  BuildConfig :: "string option"
  NewClient :: "string option"
  GetDanmNet :: "string \<Rightarrow> string \<Rightarrow> string + danm_net_options"
  GetClusterNetwork :: "string \<Rightarrow> string + danm_net_options"
  GetTenantNetwork :: "string \<Rightarrow> string \<Rightarrow> string + danm_net_options"
  ListEps :: "string \<Rightarrow> string + danm_ep list"
  NewBitArray :: "string \<Rightarrow> 32 word \<times> (32 word \<Rightarrow> bool)"

text \<open>A run ends with a fatal message, a panic, or a printed header and the entries.\<close>

record sa_output =
  OutKind :: string
  OutV6 :: bool
  OutCidr :: string
  OutStart :: string
  OutEnd :: string
  Entries :: "(go_ip \<times> string) list"

datatype sa_result = Fatal string | Panicked go_panic | Printed sa_output

definition quoted :: "string \<Rightarrow> string" where
  "quoted s = [CHR 0x60] @ s @ [CHR 0x60]"

definition get_network :: "sa_api \<Rightarrow> sa_flags \<Rightarrow> string + string \<times> danm_net_options" where
  "get_network api fl =
     (if length (Dnet fl) > 0 then
        (case GetDanmNet api (NsFlag fl) (Dnet fl) of
           Inl err \<Rightarrow> Inl (''ERROR: missing DanmNet '' @ quoted (Dnet fl) @ '' in namespace '' @
             quoted (NsFlag fl) @ '': '' @ err)
         | Inr spec \<Rightarrow> Inr (''DanmNet'', spec))
      else if length (Cnet fl) > 0 then
        (case GetClusterNetwork api (Cnet fl) of
           Inl err \<Rightarrow> Inl (''ERROR: missing ClusterNetwork '' @ quoted (Cnet fl) @ '': '' @ err)
         | Inr spec \<Rightarrow> Inr (''ClusterNetwork'', spec))
      else if length (Tnet fl) > 0 then
        (case GetTenantNetwork api (NsFlag fl) (Tnet fl) of
           Inl err \<Rightarrow> Inl (''ERROR: missing TenantNetwork '' @ quoted (Tnet fl) @ '' in namespace '' @
             quoted (NsFlag fl) @ '': '' @ err)
         | Inr spec \<Rightarrow> Inr (''TenantNetwork'', spec))
      else Inl (''ERROR: missing DanmNet/ClusterNetwork/TenantNetwork name. Specify one of these to '' @
             ''show allocation map.''))"

text \<open>From the bit array to the last line.\<close>

definition list_allocation ::
  "sa_api \<Rightarrow> sa_flags \<Rightarrow> ip_net option \<Rightarrow> danm_ep list \<Rightarrow> string \<Rightarrow> string \<Rightarrow> string \<Rightarrow> string \<Rightarrow>
   (go_ip \<times> string) list go" where
  "list_allocation api fl showCidr eps alloc cidr poolStart poolEnd =
     (let (len, get) = NewBitArray api alloc in
      case ParseCIDR cidr of
        None \<Rightarrow> Inl NilDereference
      | Some (ip, ipnet) \<Rightarrow>
          (let ip0 = ip_mask ip (NetMask ipnet) in
           go_bind (diffIP ip0 (ParseIP poolStart)) (\<lambda>iStart.
           go_bind (diffIP ip0 (ParseIP poolEnd)) (\<lambda>iEnd.
             show_loop \<lparr>BaLen = len, BaGet = get, Ip0 = ip0, IStart = iStart, IEnd = iEnd,
               EpList = eps, V6 = V6Flag fl, ShowAll = ShowAllFlag fl, ShowCidr = showCidr\<rparr> 0 []))))"

definition showalloc_main :: "sa_api \<Rightarrow> sa_flags \<Rightarrow> sa_result" where
  "showalloc_main api fl =
     (let isShowCidrRequested = length (ShowCidrStr fl) > 0;
          parsed = ParseCIDR (ShowCidrStr fl)
      in if isShowCidrRequested \<and> parsed = None
         then Fatal (''ERROR: the specified sub-CIDR is not valid because: invalid CIDR address: '' @
           ShowCidrStr fl)
         else (case BuildConfig api of
           Some err \<Rightarrow> Fatal (''ERROR: cannot build cluster config for K8s REST client because: '' @ err)
         | None \<Rightarrow> (case NewClient api of
           Some err \<Rightarrow> Fatal (''ERROR: cannot build DANM REST client because: '' @ err)
         | None \<Rightarrow> (case get_network api fl of
           Inl msg \<Rightarrow> Fatal msg
         | Inr (kind, spec) \<Rightarrow>
             (let (alloc, cidr, poolStart, poolEnd) =
                (if V6Flag fl then (Alloc6 spec, Pool6Cidr spec, Pool6Start spec, Pool6End spec)
                 else (Alloc spec, Cidr spec, PoolStart spec, PoolEnd spec))
              in if length alloc = 0 \<or> length cidr = 0 \<or> length poolStart = 0 \<or> length poolEnd = 0
                 then Fatal (if V6Flag fl then ''ERROR: missing IPv6 network details''
                             else ''ERROR: missing IPv4 network details'')
                 else (case ListEps api (NsFlag fl) of
                   Inl err \<Rightarrow> Fatal (''ERROR: unable to list DanmEps in namespace '' @
                     quoted (NsFlag fl) @ '': '' @ err)
                 | Inr eps \<Rightarrow>
                     (case list_allocation api fl (if isShowCidrRequested then map_option snd parsed else None)
                         eps alloc cidr poolStart poolEnd of
                        Inl panic \<Rightarrow> Panicked panic
                      | Inr entries \<Rightarrow> Printed \<lparr>OutKind = kind, OutV6 = V6Flag fl, OutCidr = cidr,
                          OutStart = poolStart, OutEnd = poolEnd, Entries = entries\<rparr>)))))))"

section \<open>Bytes and words\<close>

text \<open>Writing a number into the last four bytes and reading it back.\<close>

lemma byte_mask: "(0xFF :: 'a::len word) = mask 8" by (simp add: mask_eq_exp_minus_1)
lemma join_or:
  fixes v :: "32 word"
  shows "push_bit 24 (ucast (ucast (drop_bit 24 v AND 0xFF) :: 8 word)) OR
     push_bit 16 (ucast (ucast (drop_bit 16 v AND 0xFF) :: 8 word)) OR
     push_bit 8 (ucast (ucast (drop_bit 8 v AND 0xFF) :: 8 word)) OR
     ucast (ucast (v AND 0xFF) :: 8 word) = v"
proof (rule bit_word_eqI)
  fix n :: nat
  assume "n < LENGTH(32)"
  then consider "n < 8" | "8 \<le> n" "n < 16" | "16 \<le> n" "n < 24" | "24 \<le> n" "n < 32" by fastforce
  then show "bit (push_bit 24 (ucast (ucast (drop_bit 24 v AND 0xFF) :: 8 word)) OR
     push_bit 16 (ucast (ucast (drop_bit 16 v AND 0xFF) :: 8 word)) OR
     push_bit 8 (ucast (ucast (drop_bit 8 v AND 0xFF) :: 8 word)) OR
     ucast (ucast (v AND 0xFF) :: 8 word) :: 32 word) n = bit v n"
    by cases (auto simp: byte_mask bit_simps)
qed
lemma add_or:
  fixes a b c d :: "8 word"
  shows "(push_bit 24 (ucast a) + push_bit 16 (ucast b) + push_bit 8 (ucast c) + ucast d :: 32 word) =
     push_bit 24 (ucast a) OR push_bit 16 (ucast b) OR push_bit 8 (ucast c) OR ucast d"
proof -
  have "(push_bit 24 (ucast a) + push_bit 16 (ucast b) :: 32 word) = push_bit 24 (ucast a) OR push_bit 16 (ucast b)"
    by (rule disjunctive_add) (auto simp: bit_simps dest: bit_imp_le_length)
  moreover have "((push_bit 24 (ucast a) OR push_bit 16 (ucast b)) + push_bit 8 (ucast c) :: 32 word) = (push_bit 24 (ucast a) OR push_bit 16 (ucast b)) OR push_bit 8 (ucast c)"
    by (rule disjunctive_add) (auto simp: bit_simps dest: bit_imp_le_length)
  moreover have "((push_bit 24 (ucast a) OR push_bit 16 (ucast b) OR push_bit 8 (ucast c)) + ucast d :: 32 word) = (push_bit 24 (ucast a) OR push_bit 16 (ucast b) OR push_bit 8 (ucast c)) OR ucast d"
    by (rule disjunctive_add) (auto simp: bit_simps dest: bit_imp_le_length)
  ultimately show ?thesis by (simp add: or.assoc)
qed
lemma split_bytes:
  fixes a b c d :: "8 word"
  defines "v \<equiv> push_bit 24 (ucast a) OR push_bit 16 (ucast b) OR push_bit 8 (ucast c) OR ucast d :: 32 word"
  shows "ucast (drop_bit 24 v AND 0xFF) = a" "ucast (drop_bit 16 v AND 0xFF) = b"
   "ucast (drop_bit 8 v AND 0xFF) = c" "ucast (v AND 0xFF) = d"
  unfolding v_def
  by (rule bit_word_eqI; auto simp: byte_mask bit_simps dest: bit_imp_le_length)+

lemma length_with_last_word [simp]: "length (with_last_word ip v) = length ip"
  by (simp add: with_last_word_def)

lemma take_with_last_word [simp]: "take 12 (with_last_word ip v) = take 12 ip"
  by (simp add: with_last_word_def)

lemma last_word_with_last_word [simp]:
  "length ip = 16 \<Longrightarrow> last_word (with_last_word ip v) = v"
  by (simp add: last_word_def with_last_word_def add_or join_or)

lemma with_last_word_twice [simp]:
  "with_last_word (with_last_word ip v) w = with_last_word ip w"
  by (simp add: with_last_word_def list_update_swap)

lemma list_16_eq:
  assumes "length xs = 16" "length ys = 16" "take 12 xs = take 12 ys"
    "xs ! 12 = ys ! 12" "xs ! 13 = ys ! 13" "xs ! 14 = ys ! 14" "xs ! 15 = ys ! 15"
  shows "xs = ys"
proof (rule nth_equalityI)
  fix i assume "i < length xs"
  with assms(1) consider "i < 12" | "i = 12" | "i = 13" | "i = 14" | "i = 15" by fastforce
  then show "xs ! i = ys ! i"
    using assms by cases (simp_all, metis nth_take)
qed (simp add: assms)

lemma with_last_word_last_word:
  assumes "length ip = 16" and "length ip' = 16" and "take 12 ip = take 12 ip'"
  shows "with_last_word ip (last_word ip') = ip'"
proof (rule list_16_eq)
  have bytes: "ucast (drop_bit 24 (last_word ip') AND 0xFF) = ip' ! 12"
    "ucast (drop_bit 16 (last_word ip') AND 0xFF) = ip' ! 13"
    "ucast (drop_bit 8 (last_word ip') AND 0xFF) = ip' ! 14"
    "ucast (last_word ip' AND 0xFF) = ip' ! 15"
    unfolding last_word_def add_or by (rule split_bytes)+
  show "with_last_word ip (last_word ip') ! 12 = ip' ! 12" "with_last_word ip (last_word ip') ! 13 = ip' ! 13"
    "with_last_word ip (last_word ip') ! 14 = ip' ! 14" "with_last_word ip (last_word ip') ! 15 = ip' ! 15"
    using assms(1) by (simp_all add: with_last_word_def bytes)
qed (simp_all add: assms)

lemma addIP_valid: "valid_ip ip \<Longrightarrow> addIP ip n = Inr (with_last_word (To16 ip) (last_word (To16 ip) + n))"
  by (simp add: addIP_def length_To16 Let_def)

lemma diffIP_valid:
  "valid_ip ip \<Longrightarrow> valid_ip ip' \<Longrightarrow> diffIP ip ip' = Inr (last_word (To16 ip') - last_word (To16 ip))"
  by (simp add: diffIP_def length_To16 Let_def)

lemma not_valid_ip: "\<not> valid_ip ip \<Longrightarrow> To16 ip = []"
  by (simp add: valid_ip_def To16_def)

section \<open>The listing in closed form\<close>

text \<open>The address at an index, and the lines printed for it.\<close>

definition address_at :: "show_args \<Rightarrow> 32 word \<Rightarrow> go_ip" where
  "address_at a i = with_last_word (To16 (Ip0 a)) (last_word (To16 (Ip0 a)) + i)"

definition lines_at :: "show_args \<Rightarrow> nat \<Rightarrow> (go_ip \<times> string) list" where
  "lines_at a k =
     (if outside_cidr a (address_at a (of_nat k)) then []
      else case entry_status a (of_nat k) (address_at a (of_nat k)) of
             None \<Rightarrow> [] | Some status \<Rightarrow> [(address_at a (of_nat k), status)])"

lemma show_loop_eq:
  assumes "valid_ip (Ip0 a)"
  shows "show_loop a i lines = Inr (lines @ concat (map (lines_at a) [unat i..<unat (BaLen a)]))"
  using assms
proof (induction a i lines rule: show_loop.induct)
  case (1 a i lines)
  show ?case
  proof (cases "i < BaLen a")
    case False
    then show ?thesis by (simp add: show_loop.simps [of a i] word_less_nat_alt)
  next
    case True
    then have upt: "[unat i..<unat (BaLen a)] = unat i # [unat (i + 1)..<unat (BaLen a)]"
      by (simp add: unat_next word_less_nat_alt upt_conv_Cons)
    have ip: "addIP (Ip0 a) i = Inr (address_at a i)"
      using "1.prems" by (simp add: addIP_valid address_at_def)
    show ?thesis
    proof (cases "outside_cidr a (address_at a i)")
      case out: True
      from "1.IH"(1) [OF True ip out "1.prems"] show ?thesis
        using True out ip by (simp add: show_loop.simps [of a i] upt lines_at_def)
    next
      case out: False
      show ?thesis
      proof (cases "entry_status a i (address_at a i)")
        case None
        from "1.IH"(2) [OF True ip out None "1.prems"] show ?thesis
          using True out ip None by (simp add: show_loop.simps [of a i] upt lines_at_def)
      next
        case (Some st)
        from "1.IH"(3) [OF True ip out Some "1.prems"] show ?thesis
          using True out ip Some by (simp add: show_loop.simps [of a i] upt lines_at_def)
      qed
    qed
  qed
qed

lemma address_at_inj:
  assumes "valid_ip (Ip0 a)" and "address_at a i = address_at a j"
  shows "i = j"
proof -
  have "last_word (address_at a i) = last_word (address_at a j)" using assms(2) by simp
  with assms(1) show ?thesis by (simp add: address_at_def length_To16)
qed

text \<open>An endpoint found for an address has that address.\<close>

lemma findEpByIP_Some:
  "findEpByIP eps ip v6 = Some ep \<Longrightarrow> ep \<in> set eps \<and> ip_equal (ep_address v6 ep) ip"
  by (induction eps) (auto simp: Let_def split: if_splits)

lemma findEpByIP_None:
  "findEpByIP eps ip v6 = None \<longleftrightarrow> list_all (\<lambda>ep. \<not> ip_equal (ep_address v6 ep) ip) eps"
  by (induction eps) (auto simp: Let_def)

section \<open>Properties\<close>

text \<open>
  C26: \<open>diffIP\<close> undoes \<open>addIP\<close>: the difference of an address and its successor by any offset is that
  offset, also where the last four bytes wrap around.
\<close>

theorem diffIP_addIP:
  assumes "valid_ip ip"
  shows "go_bind (addIP ip n) (diffIP ip) = Inr n"
proof -
  have "valid_ip (with_last_word (To16 ip) (last_word (To16 ip) + n))"
    using length_To16 [OF assms] by (simp add: valid_ip_def)
  with assms show ?thesis
    by (simp add: addIP_valid diffIP_valid length_To16)
qed

text \<open>
  Within one 96-bit prefix \<open>addIP\<close> reaches every address at its difference, in 16-byte form.
\<close>

theorem addIP_diffIP:
  assumes "valid_ip ip" and "valid_ip ip'" and "take 12 (To16 ip) = take 12 (To16 ip')"
  shows "go_bind (diffIP ip ip') (addIP ip) = Inr (To16 ip')"
  using assms by (simp add: addIP_valid diffIP_valid length_To16 with_last_word_last_word)

text \<open>
  Offsets add up modulo 2^32; on an invalid address both sides are the same index panic.
\<close>

theorem addIP_add: "go_bind (addIP ip m) (\<lambda>ip'. addIP ip' n) = addIP ip (m + n)"
proof (cases "valid_ip ip")
  case True
  then have "valid_ip (with_last_word (To16 ip) (last_word (To16 ip) + m))"
    using length_To16 by (simp add: valid_ip_def)
  with True show ?thesis by (simp add: addIP_valid length_To16 add.assoc)
next
  case False
  then show ?thesis by (simp add: addIP_def not_valid_ip)
qed

text \<open>
  What the documentation of the program promises, index by index: which indices are listed (the
  reserved ones and the allocated ones of the pool, the others on request, cut down to the requested
  range), and what is said of each.
\<close>

definition pooled :: "show_args \<Rightarrow> 32 word \<Rightarrow> bool" where
  "pooled a i \<longleftrightarrow> IStart a \<le> i \<and> i \<le> IEnd a"

definition reserved :: "show_args \<Rightarrow> 32 word \<Rightarrow> bool" where
  "reserved a i \<longleftrightarrow> i = 0 \<or> i + 1 = BaLen a"

definition listed :: "show_args \<Rightarrow> 32 word \<Rightarrow> bool" where
  "listed a i \<longleftrightarrow> (\<forall>n. ShowCidr a = Some n \<longrightarrow> net_contains n (address_at a i)) \<and>
     (reserved a i \<or> pooled a i \<and> BaGet a i \<or> ShowAll a)"

definition holders :: "show_args \<Rightarrow> 32 word \<Rightarrow> danm_ep set" where
  "holders a i = {ep \<in> set (EpList a). ip_equal (ep_address (V6 a) ep) (address_at a i)}"

definition told :: "show_args \<Rightarrow> 32 word \<Rightarrow> string \<Rightarrow> bool" where
  "told a i status \<longleftrightarrow>
     (i = 0 \<longrightarrow> status = ''reserved (network base address)'') \<and>
     (reserved a i \<and> i \<noteq> 0 \<longrightarrow> status = ''reserved (broadcast address)'') \<and>
     (\<not> reserved a i \<and> \<not> pooled a i \<longrightarrow> status = ''out of pool range'') \<and>
     (\<not> reserved a i \<and> pooled a i \<and> \<not> BaGet a i \<longrightarrow> status = ''free'') \<and>
     (\<not> reserved a i \<and> pooled a i \<and> BaGet a i \<longrightarrow>
        (if holders a i = {} then status = ''allocated (unknown Pod)''
         else \<exists>ep \<in> holders a i. status = ''allocated (Pod: '' @ PodName (EpSpec ep) @ '')''))"

lemma lines_at_listed:
  "lines_at a k = (if listed a (of_nat k) then [hd (lines_at a k)] else [])"
  "listed a (of_nat k) \<Longrightarrow> fst (hd (lines_at a k)) = address_at a (of_nat k) \<and> told a (of_nat k) (snd (hd (lines_at a k)))"
proof -
  let ?i = "of_nat k :: 32 word"
  have last: "?i + 1 = BaLen a \<longleftrightarrow> ?i = BaLen a - 1" by (simp add: eq_diff_eq)
  have order: "?i < IStart a \<or> IEnd a < ?i \<longleftrightarrow> \<not> pooled a ?i" by (auto simp: pooled_def)
  have none: "findEpByIP (EpList a) (address_at a ?i) (V6 a) = None \<longleftrightarrow> holders a ?i = {}"
    by (auto simp: findEpByIP_None list_all_iff holders_def)
  have some: "findEpByIP (EpList a) (address_at a ?i) (V6 a) = Some ep \<Longrightarrow> ep \<in> holders a ?i" for ep
    using findEpByIP_Some by (simp add: holders_def)
  have cidr: "outside_cidr a (address_at a ?i) \<longleftrightarrow> \<not> (\<forall>n. ShowCidr a = Some n \<longrightarrow> net_contains n (address_at a ?i))"
    by (cases "ShowCidr a") (simp_all add: outside_cidr_def)
  show "lines_at a k = (if listed a ?i then [hd (lines_at a k)] else [])"
    unfolding lines_at_def entry_status_def cidr order
    by (auto simp: listed_def reserved_def last split: option.split)
  show "fst (hd (lines_at a k)) = address_at a ?i \<and> told a ?i (snd (hd (lines_at a k)))" if "listed a ?i"
    using that none some unfolding lines_at_def entry_status_def cidr order
    by (auto simp: listed_def told_def reserved_def last split: option.split)
qed

text \<open>
  C24: The listing is complete, in order and right. For a network whose range and pool bounds parse it
  ends without a panic, whatever the bit array and the endpoints; it has exactly one entry for every
  index of the bit array that is to be listed, in increasing order, under the address at that index,
  and each entry tells what the documentation says of its index: reserved, out of the pool, free, or
  allocated and by whom.
\<close>

theorem listing_complete:
  assumes "ParseCIDR cidr = Some (ip, ipnet)" and "ParseIP poolStart \<noteq> []" and "ParseIP poolEnd \<noteq> []"
  shows "\<exists>a lines. list_allocation api fl showCidr eps alloc cidr poolStart poolEnd = Inr lines \<and>
     Ip0 a = ip_mask ip (NetMask ipnet) \<and> BaLen a = fst (NewBitArray api alloc) \<and> BaGet a = snd (NewBitArray api alloc) \<and>
     diffIP (Ip0 a) (ParseIP poolStart) = Inr (IStart a) \<and> diffIP (Ip0 a) (ParseIP poolEnd) = Inr (IEnd a) \<and>
     EpList a = eps \<and> V6 a = V6Flag fl \<and> ShowAll a = ShowAllFlag fl \<and> ShowCidr a = showCidr \<and>
     list_all2 (\<lambda>k (ip, status). ip = address_at a (of_nat k) \<and> told a (of_nat k) status)
       [k \<leftarrow> [0..<unat (BaLen a)]. listed a (of_nat k)] lines"
proof -
  let ?ip0 = "ip_mask ip (NetMask ipnet)"
  have valid: "valid_ip ?ip0" by (rule ParseCIDR_base_valid [OF assms(1)])
  obtain lo hi where bounds: "diffIP ?ip0 (ParseIP poolStart) = Inr lo" "diffIP ?ip0 (ParseIP poolEnd) = Inr hi"
    using diffIP_valid [OF valid ParseIP_valid [OF assms(2)]] diffIP_valid [OF valid ParseIP_valid [OF assms(3)]] by blast
  obtain len get where ba: "NewBitArray api alloc = (len, get)" by fastforce
  define a where "a = \<lparr>BaLen = len, BaGet = get, Ip0 = ?ip0, IStart = lo, IEnd = hi,
    EpList = eps, V6 = V6Flag fl, ShowAll = ShowAllFlag fl, ShowCidr = showCidr\<rparr>"
  have "list_allocation api fl showCidr eps alloc cidr poolStart poolEnd = show_loop a 0 []"
    by (simp add: list_allocation_def assms(1) bounds ba a_def)
  also have "\<dots> = Inr (concat (map (lines_at a) [0..<unat (BaLen a)]))"
    using valid by (simp add: show_loop_eq a_def)
  finally have run: "list_allocation api fl showCidr eps alloc cidr poolStart poolEnd =
      Inr (concat (map (lines_at a) [0..<unat (BaLen a)]))" .
  have "list_all2 (\<lambda>k (ip, status). ip = address_at a (of_nat k) \<and> told a (of_nat k) status)
      [k \<leftarrow> ks. listed a (of_nat k)] (concat (map (lines_at a) ks))" for ks
  proof (induction ks)
    case (Cons k ks)
    show ?case
    proof (cases "listed a (of_nat k)")
      case True
      then obtain l where "lines_at a k = [l]" "fst l = address_at a (of_nat k)" "told a (of_nat k) (snd l)"
        using lines_at_listed by metis
      with Cons.IH True show ?thesis by (simp add: case_prod_beta)
    next
      case False
      then have "lines_at a k = []" using lines_at_listed(1) [of a k] by argo
      with Cons.IH False show ?thesis by simp
    qed
  qed simp
  with run show ?thesis
    by (intro exI [of _ a] exI [of _ "concat (map (lines_at a) [0..<unat (BaLen a)])"]) (simp add: a_def bounds ba)
qed

text \<open>
  No address is listed twice.
\<close>

theorem listing_distinct:
  assumes "valid_ip (Ip0 a)" and "show_loop a 0 [] = Inr lines"
  shows "distinct (map fst lines)"
proof -
  have lines: "lines = concat (map (lines_at a) [0..<unat (BaLen a)])"
    using assms by (simp add: show_loop_eq)
  have "distinct (map fst (concat (map (lines_at a) [0..<n]))) \<and>
      fst ` set (concat (map (lines_at a) [0..<n])) \<subseteq> (\<lambda>k. address_at a (of_nat k)) ` {..<n}"
    if "n \<le> unat (BaLen a)" for n
    using that
  proof (induction n)
    case (Suc n)
    have "unat (BaLen a) < 2 ^ 32" using unsigned_less [of "BaLen a"] by simp
    with Suc.prems have small: "k < 2 ^ LENGTH(32)" if "k \<le> n" for k using that by simp
    have "address_at a (of_nat n) \<noteq> address_at a (of_nat k)" if "k < n" for k
    proof
      assume "address_at a (of_nat n) = address_at a (of_nat k)"
      then have "(of_nat n :: 32 word) = of_nat k" by (rule address_at_inj [OF assms(1)])
      then have "unat (of_nat n :: 32 word) = unat (of_nat k :: 32 word)" by simp
      then have "n = k"
        using that small [of n] small [of k] by (simp add: unat_of_nat)
      with that show False by simp
    qed
    then have "address_at a (of_nat n) \<notin> (\<lambda>k. address_at a (of_nat k)) ` {..<n}" by blast
    moreover have "fst ` set (lines_at a n) \<subseteq> {address_at a (of_nat n)}"
      "distinct (map fst (lines_at a n))"
      by (auto simp: lines_at_def split: option.split)
    ultimately show ?case
      using distinct_extend [of fst "concat (map (lines_at a) [0..<n])"
          "(\<lambda>k. address_at a (of_nat k)) ` {..<n}" "lines_at a n" "address_at a (of_nat n)"]
        Suc.IH Suc.prems
      by (simp add: lessThan_Suc)
  qed simp
  then show ?thesis using lines by blast
qed

text \<open>
  C25: An allocation names its Pod truly: a listed address whose status names a Pod is held by an
  endpoint of that Pod on the list, at an index whose bit is set inside the pool.
\<close>

theorem allocation_names_holder:
  assumes "entry_status a i ip = Some (''allocated (Pod: '' @ name @ '')'')"
  shows "i \<noteq> 0 \<and> i \<noteq> BaLen a - 1 \<and> IStart a \<le> i \<and> i \<le> IEnd a \<and> BaGet a i \<and>
     (\<exists>ep. ep \<in> set (EpList a) \<and> ip_equal (ep_address (V6 a) ep) ip \<and> PodName (EpSpec ep) = name)"
  using assms by (auto simp: entry_status_def not_less dest!: findEpByIP_Some
      split: if_splits option.splits)

section \<open>The properties at concrete inputs\<close>

definition example_show :: show_args where
  "example_show = \<lparr>BaLen = 4, BaGet = \<lambda>i. i = 1, Ip0 = [10, 0, 0, 0], IStart = 1, IEnd = 2,
     EpList = [\<lparr>EpMeta = \<lparr>Name = ''e'', Namespace = ''ns'', UID = ''u'', Labels = [], ResourceVersion = []\<rparr>,
       EpSpec = \<lparr>NetworkName = ''n'', NetworkType = ''ipvlan'', ApiType = [], PodName = ''web'',
         PodUID = ''u'', Netns = [],
         Iface = \<lparr>IfaceName = ''eth0'', Address = ''10.0.0.1/30'', AddressIPv6 = []\<rparr>\<rparr>\<rparr>],
     V6 = False, ShowAll = True, ShowCidr = None\<rparr>"

lemma diffIP_addIP_witness:
  "go_bind (addIP [255, 255, 255, 254] 5) (diffIP [255, 255, 255, 254]) = Inr 5"
  by (rule diffIP_addIP) (simp add: valid_ip_def)

lemma addIP_diffIP_witness:
  "go_bind (diffIP [10, 0, 0, 250] [10, 0, 1, 3]) (addIP [10, 0, 0, 250]) = Inr (To16 [10, 0, 1, 3])"
  by (rule addIP_diffIP) (simp_all add: valid_ip_def To16_def)

lemma listing_distinct_witness:
  "distinct (map fst (concat (map (lines_at example_show) [0..<unat (BaLen example_show)])))"
  by (rule listing_distinct [of example_show])
    (simp_all add: valid_ip_def example_show_def show_loop_eq)

lemma example_cidr:
  "ParseCIDR ''10.0.0.1/30'' =
     Some (v4_prefix @ [10, 0, 0, 1], \<lparr>NetIP = [10, 0, 0, 0], NetMask = [255, 255, 255, 252]\<rparr>)"
proof -
  have octets: "dtoi ''10.0.0.1'' = Some (10, ''.0.0.1'')" "dtoi ''0.0.1'' = Some (0, ''.0.1'')"
    "dtoi ''0.1'' = Some (0, ''.1'')" "dtoi ''1'' = Some (1, [])" "dtoi ''30'' = Some (30, [])"
    by (simp_all add: dtoi_eval)
  have "parseIPv4 ''10.0.0.1'' = v4_prefix @ [10, 0, 0, 1]"
    by (simp add: parseIPv4_def octets)
  then show ?thesis
    by (simp add: ParseCIDR_def octets v4_prefix_def ip_mask_def and_bytes_def Let_def)
qed

text \<open>A network of four addresses whose second one the Pod of \<open>example_show\<close> holds.\<close>

definition example_sa_api :: sa_api where
  "example_sa_api = \<lparr>BuildConfig = None, NewClient = None, GetDanmNet = \<lambda>_ _. Inl [], GetClusterNetwork = \<lambda>_. Inl [],
     GetTenantNetwork = \<lambda>_ _. Inl [], ListEps = \<lambda>_. Inr (EpList example_show), NewBitArray = \<lambda>_. (4, \<lambda>i. i = 1)\<rparr>"

definition example_sa_flags :: sa_flags where
  "example_sa_flags = \<lparr>Dnet = ''n'', Cnet = [], Tnet = [], NsFlag = ''ns'', V6Flag = False, ShowCidrStr = [],
     ShowAllFlag = False\<rparr>"

lemma listing_complete_witness:
  "\<exists>a lines. list_allocation example_sa_api example_sa_flags None (EpList example_show) ''b'' ''10.0.0.1/30''
       ''10.0.0.1'' ''10.0.0.2'' = Inr lines \<and>
     list_all2 (\<lambda>k (ip, status). ip = address_at a (of_nat k) \<and> told a (of_nat k) status)
       [k \<leftarrow> [0..<unat (BaLen a)]. listed a (of_nat k)] lines"
proof -
  have "dtoi ''10.0.0.1'' = Some (10, ''.0.0.1'')" "dtoi ''0.0.1'' = Some (0, ''.0.1'')"
    "dtoi ''0.1'' = Some (0, ''.1'')" "dtoi ''1'' = Some (1, [])"
    "dtoi ''10.0.0.2'' = Some (10, ''.0.0.2'')" "dtoi ''0.0.2'' = Some (0, ''.0.2'')"
    "dtoi ''0.2'' = Some (0, ''.2'')" "dtoi ''2'' = Some (2, [])"
    by (simp_all add: dtoi_eval)
  then have "ParseIP ''10.0.0.1'' \<noteq> []" "ParseIP ''10.0.0.2'' \<noteq> []"
    by (simp_all add: ParseIP_def parseIPv4_def)
  from listing_complete [OF example_cidr this, of example_sa_api example_sa_flags None "EpList example_show" "''b''"]
  show ?thesis by blast
qed

lemma allocation_names_holder_witness:
  "\<exists>ep. ep \<in> set (EpList example_show) \<and> PodName (EpSpec ep) = ''web''"
proof -
  have "entry_status example_show 1 [10, 0, 0, 1] = Some (''allocated (Pod: '' @ ''web'' @ '')'')"
    by (simp add: entry_status_def example_show_def ep_address_def example_cidr ip_equal_def)
  from allocation_names_holder [OF this] show ?thesis by blast
qed

end
