(* ===== verification/Store.thy ===== *)
theory Store
  imports Prelude "HOL-Library.Monad_Syntax"
begin

text \<open>
  An explicit store for the code whose contract is about aliasing, the generated deep copies:
  a heap of arrays, slices as windows into them, Go's \<open>make\<close> and \<open>copy\<close>, the loop that copies
  a slice element by element, and the contract of a deep copy as a locale with the rules that
  build it up along slices and structs. A read or write that finds no array of the right type
  is \<open>None\<close>; Go's type system rules that out, and here it is part of what a copy proves.
\<close>

section \<open>Heap, arrays and slices\<close>

text \<open>
  Cells are handed out in order and never freed (the garbage collector frees only what nobody
  reaches), so \<open>next_addr\<close> separates the old cells from the cells allocated later.
\<close>

type_synonym addr = nat

record 'c heap =
  cells :: "addr \<rightharpoonup> 'c"
  next_addr :: addr

definition empty_heap :: "'c heap" where
  "empty_heap = \<lparr>cells = Map.empty, next_addr = 0\<rparr>"

definition wf_heap :: "'c heap \<Rightarrow> bool" where
  "wf_heap h \<longleftrightarrow> (\<forall>a. next_addr h \<le> a \<longrightarrow> cells h a = None)"

definition alloc :: "'c \<Rightarrow> 'c heap \<Rightarrow> 'c heap \<times> addr" where
  "alloc c h = (\<lparr>cells = (cells h)(next_addr h \<mapsto> c), next_addr = Suc (next_addr h)\<rparr>, next_addr h)"

text \<open>The later heap has all cells of the earlier one, unchanged.\<close>

definition ext :: "'c heap \<Rightarrow> 'c heap \<Rightarrow> bool" where
  "ext h h' \<longleftrightarrow> next_addr h \<le> next_addr h' \<and> (\<forall>a<next_addr h. cells h' a = cells h a)"

lemma ext_refl [simp, intro]: "ext h h"
  by (simp add: ext_def)

lemma ext_trans [trans]: "ext h h1 \<Longrightarrow> ext h1 h2 \<Longrightarrow> ext h h2"
  by (simp add: ext_def)

lemma ext_next: "ext h h' \<Longrightarrow> next_addr h \<le> next_addr h'"
  by (simp add: ext_def)

lemma ext_agree: "ext h h' \<Longrightarrow> S \<subseteq> {..<next_addr h} \<Longrightarrow> \<forall>a\<in>S. cells h' a = cells h a"
  by (auto simp: ext_def)

lemma alloc_ext: "alloc c h = (h', a) \<Longrightarrow> ext h h'"
  by (auto simp: alloc_def ext_def)

lemma alloc_wf: "wf_heap h \<Longrightarrow> alloc c h = (h', a) \<Longrightarrow> wf_heap h'"
  by (auto simp: alloc_def wf_heap_def)

text \<open>
  The arrays of one element type among the cells: how they are injected, how they are
  recognised, and the zero value that \<open>make\<close> and \<open>new\<close> fill them with. A struct made by
  \<open>new\<close> is an array of one element.
\<close>

record ('a, 'c) array_kind =
  cell_of :: "'a list \<Rightarrow> 'c"
  array_of :: "'c \<Rightarrow> 'a list option"
  zero_of :: 'a

definition proper_kind :: "('a, 'c) array_kind \<Rightarrow> bool" where
  "proper_kind k \<longleftrightarrow> (\<forall>xs. array_of k (cell_of k xs) = Some xs)"

text \<open>A slice: the array it looks into, where its window starts and how long it is.\<close>

datatype slice = NilSlice | Slice addr nat nat

fun slice_len :: "slice \<Rightarrow> nat" where
  "slice_len NilSlice = 0"
| "slice_len (Slice a off n) = n"

definition array_at :: "('a, 'c) array_kind \<Rightarrow> 'c heap \<Rightarrow> addr \<Rightarrow> 'a list option" where
  "array_at k h a = Option.bind (cells h a) (array_of k)"

definition read_elem :: "('a, 'c) array_kind \<Rightarrow> 'c heap \<Rightarrow> addr \<Rightarrow> nat \<Rightarrow> 'a option" where
  "read_elem k h a i = do {
     xs \<leftarrow> array_at k h a;
     (if i < length xs then Some (xs ! i) else None) }"

definition write_elem :: "('a, 'c) array_kind \<Rightarrow> 'c heap \<Rightarrow> addr \<Rightarrow> nat \<Rightarrow> 'a \<Rightarrow> 'c heap option" where
  "write_elem k h a i x = do {
     xs \<leftarrow> array_at k h a;
     (if i < length xs then Some (h\<lparr>cells := (cells h)(a \<mapsto> cell_of k (xs[i := x]))\<rparr>) else None) }"

fun slice_get :: "('a, 'c) array_kind \<Rightarrow> 'c heap \<Rightarrow> slice \<Rightarrow> nat \<Rightarrow> 'a option" where
  "slice_get k h NilSlice i = None"
| "slice_get k h (Slice a off n) i = (if i < n then read_elem k h a (off + i) else None)"

fun slice_set :: "('a, 'c) array_kind \<Rightarrow> 'c heap \<Rightarrow> slice \<Rightarrow> nat \<Rightarrow> 'a \<Rightarrow> 'c heap option" where
  "slice_set k h NilSlice i x = None"
| "slice_set k h (Slice a off n) i x = (if i < n then write_elem k h a (off + i) x else None)"

definition make_slice :: "('a, 'c) array_kind \<Rightarrow> nat \<Rightarrow> 'c heap \<Rightarrow> 'c heap \<times> slice" where
  "make_slice k n h =
     (let (h', a) = alloc (cell_of k (replicate n (zero_of k))) h in (h', Slice a 0 n))"

section \<open>Copying a slice\<close>

text \<open>
  The loop \<open>for i := range *in { (*in)[i].DeepCopyInto(&(*out)[i]) }\<close>: the copy of each element
  is read from the source, made, and stored; \<open>copy\<close> for elements without references.
\<close>

fun copy_loop ::
  "('a, 'c) array_kind \<Rightarrow> ('c heap \<Rightarrow> 'a \<Rightarrow> ('c heap \<times> 'a) option) \<Rightarrow> slice \<Rightarrow> slice \<Rightarrow>
     'c heap \<Rightarrow> nat \<Rightarrow> nat \<Rightarrow> 'c heap option" where
  "copy_loop k copy src dst h i 0 = Some h"
| "copy_loop k copy src dst h i (Suc n) = do {
     x \<leftarrow> slice_get k h src i;
     (h, y) \<leftarrow> copy h x;
     h \<leftarrow> slice_set k h dst i y;
     copy_loop k copy src dst h (Suc i) n }"

definition copy_slice ::
  "('a, 'c) array_kind \<Rightarrow> ('c heap \<Rightarrow> 'a \<Rightarrow> ('c heap \<times> 'a) option) \<Rightarrow>
     'c heap \<Rightarrow> slice \<Rightarrow> ('c heap \<times> slice) option" where
  "copy_slice k copy h s =
     (if s \<noteq> NilSlice then
        (let (h, t) = make_slice k (slice_len s) h in do {
           h \<leftarrow> copy_loop k copy s t h 0 (slice_len s);
           Some (h, t) })
      else Some (h, s))"

text \<open>
  An element without references is copied by assignment. Go's built-in \<open>copy\<close> on the fresh
  array is the loop with this copy.
\<close>

definition flat_copy :: "'c heap \<Rightarrow> 'a \<Rightarrow> ('c heap \<times> 'a) option" where
  "flat_copy h x = Some (h, x)"

section \<open>What a slice denotes\<close>

fun omap :: "('a \<Rightarrow> 'b option) \<Rightarrow> 'a list \<Rightarrow> 'b list option" where
  "omap f [] = Some []"
| "omap f (x # xs) = do { y \<leftarrow> f x; ys \<leftarrow> omap f xs; Some (y # ys) }"

lemma omap_Some_iff:
  "omap f xs = Some ys \<longleftrightarrow> length ys = length xs \<and> (\<forall>i<length xs. f (xs ! i) = Some (ys ! i))"
proof (induction xs arbitrary: ys)
  case (Cons x xs)
  show ?case
  proof (cases ys)
    case (Cons y zs)
    with Cons.IH [of zs] show ?thesis
      by (auto simp: bind_eq_Some_conv All_less_Suc2)
  qed (auto simp: bind_eq_Some_conv)
qed auto

lemma omap_member: "omap f xs = Some ys \<Longrightarrow> x \<in> set xs \<Longrightarrow> \<exists>y. f x = Some y"
  by (auto simp: omap_Some_iff in_set_conv_nth)

lemma omap_Some [simp]: "omap Some xs = Some xs"
  by (simp add: omap_Some_iff)

lemma omap_cong: "(\<And>x. x \<in> set xs \<Longrightarrow> f x = g x) \<Longrightarrow> omap f xs = omap g xs"
  by (induction xs) (auto simp: bind_eq_Some_conv)

fun slice_elems :: "('a, 'c) array_kind \<Rightarrow> 'c heap \<Rightarrow> slice \<Rightarrow> 'a list option" where
  "slice_elems k h NilSlice = Some []"
| "slice_elems k h (Slice a off n) = do {
     xs \<leftarrow> array_at k h a;
     (if off + n \<le> length xs then Some (take n (drop off xs)) else None) }"

definition slice_val ::
  "('a, 'c) array_kind \<Rightarrow> ('c heap \<Rightarrow> 'a \<Rightarrow> 'd option) \<Rightarrow> 'c heap \<Rightarrow> slice \<Rightarrow> 'd list option" where
  "slice_val k val h s = Option.bind (slice_elems k h s) (omap (val h))"

fun slice_addr :: "slice \<Rightarrow> addr set" where
  "slice_addr NilSlice = {}"
| "slice_addr (Slice a off n) = {a}"

definition slice_reach ::
  "('a, 'c) array_kind \<Rightarrow> ('c heap \<Rightarrow> 'a \<Rightarrow> addr set) \<Rightarrow> 'c heap \<Rightarrow> slice \<Rightarrow> addr set" where
  "slice_reach k reach h s =
     slice_addr s \<union> (case slice_elems k h s of Some xs \<Rightarrow> (\<Union>x\<in>set xs. reach h x) | None \<Rightarrow> {})"

lemma slice_elems_len: "slice_elems k h s = Some xs \<Longrightarrow> length xs = slice_len s"
  by (cases s) (auto simp: bind_eq_Some_conv split: if_splits)

lemma slice_get_elems:
  "slice_elems k h s = Some xs \<Longrightarrow> i < slice_len s \<Longrightarrow> slice_get k h s i = Some (xs ! i)"
  by (cases s) (auto simp: bind_eq_Some_conv read_elem_def split: if_splits)

lemma slice_elems_agree:
  "\<forall>a\<in>slice_addr s. cells h' a = cells h a \<Longrightarrow> slice_elems k h' s = slice_elems k h s"
  by (cases s) (simp_all add: array_at_def)

lemma slice_addr_allocated:
  "wf_heap h \<Longrightarrow> slice_elems k h s = Some xs \<Longrightarrow> slice_addr s \<subseteq> {..<next_addr h}"
  by (cases s)
    (auto simp: wf_heap_def array_at_def bind_eq_Some_conv not_le [symmetric])

section \<open>The contract of a deep copy\<close>

text \<open>
  \<open>val\<close> is the value without references that a piece of data denotes in a heap (\<open>None\<close> when
  it is ill-typed there) and \<open>reach\<close> the cells this value depends on. A deep copy succeeds on
  every well-typed piece of data, only adds cells, and yields data with the same value that
  depends on none but the added cells.
\<close>

definition deep_copied ::
  "('c heap \<Rightarrow> 'a \<Rightarrow> 'd option) \<Rightarrow> ('c heap \<Rightarrow> 'a \<Rightarrow> addr set) \<Rightarrow> 'c heap \<Rightarrow> 'd \<Rightarrow>
     ('c heap \<times> 'a) option \<Rightarrow> bool" where
  "deep_copied val reach h d r \<longleftrightarrow>
     (\<exists>h' y. r = Some (h', y) \<and> wf_heap h' \<and> ext h h' \<and> val h' y = Some d \<and>
             reach h' y \<subseteq> {next_addr h..<next_addr h'})"

lemma deep_copiedI:
  assumes "r = Some (h', y)" and "wf_heap h'" and "ext h h'" and "val h' y = Some d"
    and "reach h' y \<subseteq> {next_addr h..<next_addr h'}"
  shows "deep_copied val reach h d r"
  using assms unfolding deep_copied_def by blast

lemma deep_copiedE:
  assumes "deep_copied val reach h d r"
  obtains h' y where "r = Some (h', y)" "wf_heap h'" "ext h h'" "val h' y = Some d"
    "reach h' y \<subseteq> {next_addr h..<next_addr h'}"
  using assms unfolding deep_copied_def by blast

locale deep_copyable =
  fixes copy :: "'c heap \<Rightarrow> 'a \<Rightarrow> ('c heap \<times> 'a) option"
    and val :: "'c heap \<Rightarrow> 'a \<Rightarrow> 'd option"
    and reach :: "'c heap \<Rightarrow> 'a \<Rightarrow> addr set"
  assumes copies: "wf_heap h \<Longrightarrow> val h x = Some d \<Longrightarrow> deep_copied val reach h d (copy h x)"
    and framed: "val h x = Some d \<Longrightarrow> \<forall>a\<in>reach h x. cells h' a = cells h a \<Longrightarrow>
      val h' x = Some d \<and> reach h' x = reach h x"
    and allocated: "wf_heap h \<Longrightarrow> val h x = Some d \<Longrightarrow> reach h x \<subseteq> {..<next_addr h}"
begin

lemma stable:
  assumes "wf_heap h" and "val h x = Some d" and "ext h h'"
  shows "val h' x = Some d \<and> reach h' x = reach h x"
  using framed [OF assms(2)] ext_agree [OF assms(3) allocated [OF assms(1,2)]] by blast

lemma reach_less: "wf_heap h \<Longrightarrow> val h x = Some d \<Longrightarrow> a \<in> reach h x \<Longrightarrow> a < next_addr h"
  using allocated by blast

text \<open>Writing to the cells of the copy leaves the original alone, and the other way round.\<close>

lemma original_kept:
  assumes "wf_heap h" and "val h x = Some d" and "\<forall>a<next_addr h. cells h2 a = cells h a"
  shows "val h2 x = Some d"
  using framed [OF assms(2), of h2] allocated [OF assms(1,2)] assms(3) by blast

lemma copy_kept:
  assumes "wf_heap h" and "val h x = Some d" and "copy h x = Some (h', y)"
    and "\<forall>a. next_addr h \<le> a \<longrightarrow> cells h2 a = cells h' a"
  shows "val h2 y = Some d"
proof -
  from copies [OF assms(1,2)] assms(3)
  have "val h' y = Some d" and "reach h' y \<subseteq> {next_addr h..<next_addr h'}"
    by (auto elim: deep_copiedE)
  with assms(4) have "\<forall>a\<in>reach h' y. cells h2 a = cells h' a" by fastforce
  with framed [OF \<open>val h' y = Some d\<close>] show ?thesis by blast
qed

end

text \<open>Data without references.\<close>

lemma deep_copyable_flat:
  "deep_copyable flat_copy (\<lambda>h. Some) (\<lambda>h x. {})"
  by unfold_locales (auto simp: flat_copy_def deep_copied_def)

section \<open>Slices\<close>

lemma slice_set_dst:
  assumes "cells h a = Some (cell_of k ys)" and "proper_kind k" and "i < length ys"
  shows "slice_set k h (Slice a 0 (length ys)) i y =
    Some (h\<lparr>cells := (cells h)(a \<mapsto> cell_of k (ys[i := y]))\<rparr>)"
  using assms by (simp add: write_elem_def array_at_def proper_kind_def)

text \<open>What the loop has established after its first \<open>i\<close> rounds, started in \<open>h0\<close>.\<close>

definition loop_inv ::
  "('a, 'c) array_kind \<Rightarrow> ('c heap \<Rightarrow> 'a \<Rightarrow> 'd option) \<Rightarrow> ('c heap \<Rightarrow> 'a \<Rightarrow> addr set) \<Rightarrow>
     'c heap \<Rightarrow> 'd list \<Rightarrow> addr \<Rightarrow> nat \<Rightarrow> 'c heap \<Rightarrow> 'a list \<Rightarrow> bool" where
  "loop_inv k val reach h0 ds a i h ys \<longleftrightarrow>
     wf_heap h \<and> ext h0 h \<and> next_addr h0 \<le> a \<and> a < next_addr h \<and>
     cells h a = Some (cell_of k ys) \<and> length ys = length ds \<and>
     (\<forall>j<i. val h (ys ! j) = Some (ds ! j) \<and> reach h (ys ! j) \<subseteq> {Suc a..<next_addr h})"

context deep_copyable
begin

text \<open>One round: the copy is made beyond the target array, then stored in it.\<close>

lemma loop_step:
  assumes "proper_kind k" and inv: "loop_inv k val reach h0 ds a i h ys"
    and "wf_heap h0" and "val h0 x = Some (ds ! i)" and "i < length ds"
  obtains h1 y h2 where "copy h x = Some (h1, y)"
    and "slice_set k h1 (Slice a 0 (length ds)) i y = Some h2"
    and "loop_inv k val reach h0 ds a (Suc i) h2 (ys[i := y])"
proof -
  from inv have "wf_heap h" "ext h0 h" "next_addr h0 \<le> a" "a < next_addr h"
    "cells h a = Some (cell_of k ys)" "length ys = length ds" by (auto simp: loop_inv_def)
  have "val h x = Some (ds ! i)" using stable [OF assms(3,4) \<open>ext h0 h\<close>] by blast
  from copies [OF \<open>wf_heap h\<close> this] obtain h1 y where
    c: "copy h x = Some (h1, y)" "wf_heap h1" "ext h h1" "val h1 y = Some (ds ! i)"
      "reach h1 y \<subseteq> {next_addr h..<next_addr h1}" by (rule deep_copiedE)
  have a1: "cells h1 a = Some (cell_of k ys)" "a < next_addr h1"
    using c(3) \<open>a < next_addr h\<close> \<open>cells h a = _\<close> by (auto simp: ext_def)
  define h2 where "h2 = h1\<lparr>cells := (cells h1)(a \<mapsto> cell_of k (ys[i := y]))\<rparr>"
  have set: "slice_set k h1 (Slice a 0 (length ds)) i y = Some h2"
    using slice_set_dst [OF a1(1) assms(1), of i y] assms(5) \<open>length ys = length ds\<close>
    by (simp add: h2_def)
  have keep: "val h2 z = Some d \<and> reach h2 z = reach h1 z"
    if "val h1 z = Some d" "reach h1 z \<subseteq> {Suc a..<n}" for z d n
    using framed [OF that(1), of h2] that(2) by (fastforce simp: h2_def)
  have "val h2 ((ys[i := y]) ! j) = Some (ds ! j) \<and>
      reach h2 ((ys[i := y]) ! j) \<subseteq> {Suc a..<next_addr h2}" if "j < Suc i" for j
  proof (cases "j = i")
    case True
    have "reach h1 y \<subseteq> {Suc a..<next_addr h1}" using c(5) \<open>a < next_addr h\<close> by fastforce
    with keep [OF c(4) this] True assms(5) \<open>length ys = length ds\<close> show ?thesis
      by (simp add: h2_def)
  next
    case False
    with that have "j < i" by simp
    with inv have j: "val h (ys ! j) = Some (ds ! j)" "reach h (ys ! j) \<subseteq> {Suc a..<next_addr h}"
      by (auto simp: loop_inv_def)
    from stable [OF \<open>wf_heap h\<close> j(1) c(3)] have "val h1 (ys ! j) = Some (ds ! j)"
      "reach h1 (ys ! j) = reach h (ys ! j)" by blast+
    with keep [of "ys ! j" "ds ! j" "next_addr h"] j(2) False ext_next [OF c(3)] show ?thesis
      by (fastforce simp: h2_def)
  qed
  moreover have "wf_heap h2" using c(2) a1(2) by (auto simp: wf_heap_def h2_def)
  moreover have "ext h0 h2"
    using ext_trans [OF \<open>ext h0 h\<close> c(3)] \<open>next_addr h0 \<le> a\<close> by (auto simp: ext_def h2_def)
  ultimately have "loop_inv k val reach h0 ds a (Suc i) h2 (ys[i := y])"
    using \<open>next_addr h0 \<le> a\<close> a1(2) \<open>length ys = length ds\<close> by (simp add: loop_inv_def h2_def)
  with c(1) set that show ?thesis by blast
qed

lemma loop_correct:
  assumes "proper_kind k" and "loop_inv k val reach h0 ds a i h ys" and "wf_heap h0"
    and "slice_elems k h0 src = Some xs" and "omap (val h0) xs = Some ds"
    and "next_addr h0 \<le> a" and "i + n = length ds"
  shows "\<exists>h' ys'. copy_loop k copy src (Slice a 0 (length ds)) h i n = Some h' \<and>
    loop_inv k val reach h0 ds a (length ds) h' ys'"
  using assms(2,7)
proof (induction n arbitrary: i h ys)
  case 0
  then show ?case by auto
next
  case (Suc n)
  have len: "length xs = length ds" "slice_len src = length ds"
    using assms(4,5) by (simp_all add: omap_Some_iff slice_elems_len)
  with Suc.prems have i: "i < length ds" by simp
  from Suc.prems have "ext h0 h" by (simp add: loop_inv_def)
  have "slice_elems k h src = Some xs"
    using slice_elems_agree [where k = k,
        OF ext_agree [OF \<open>ext h0 h\<close> slice_addr_allocated [OF assms(3,4)]]] assms(4) by simp
  then have get: "slice_get k h src i = Some (xs ! i)"
    by (rule slice_get_elems) (use i len in simp)
  have "val h0 (xs ! i) = Some (ds ! i)" using assms(5) i len by (simp add: omap_Some_iff)
  from loop_step [OF assms(1) Suc.prems(1) assms(3) this i] obtain h1 y h2 where
    "copy h (xs ! i) = Some (h1, y)"
    "slice_set k h1 (Slice a 0 (length ds)) i y = Some h2"
    "loop_inv k val reach h0 ds a (Suc i) h2 (ys[i := y])" .
  with Suc.IH [OF this(3)] Suc.prems(2) get show ?case by simp
qed

lemma copy_slice_copied:
  assumes "proper_kind k" and "wf_heap h" and "slice_val k val h s = Some ds"
  shows "deep_copied (slice_val k val) (slice_reach k reach) h ds (copy_slice k copy h s)"
proof (cases "s = NilSlice")
  case True
  with assms show ?thesis
    by (intro deep_copiedI [of _ h NilSlice]) (auto simp: copy_slice_def slice_val_def slice_reach_def)
next
  case False
  obtain xs where xs: "slice_elems k h s = Some xs" "omap (val h) xs = Some ds"
    using assms(3) by (auto simp: slice_val_def bind_eq_Some_conv)
  then have len: "slice_len s = length ds" by (simp add: omap_Some_iff slice_elems_len)
  define ys where "ys = replicate (length ds) (zero_of k)"
  obtain h1 where al: "alloc (cell_of k ys) h = (h1, next_addr h)" by (simp add: alloc_def)
  then have "loop_inv k val reach h ds (next_addr h) 0 h1 ys"
    using alloc_ext [OF al] alloc_wf [OF assms(2) al]
    by (auto simp: loop_inv_def alloc_def ys_def)
  from loop_correct [OF assms(1) this assms(2) xs] obtain h2 zs where
    loop: "copy_loop k copy s (Slice (next_addr h) 0 (length ds)) h1 0 (length ds) = Some h2"
    and inv: "loop_inv k val reach h ds (next_addr h) (length ds) h2 zs" by auto
  from inv have elems: "slice_elems k h2 (Slice (next_addr h) 0 (length ds)) = Some zs"
    using assms(1) by (simp add: loop_inv_def array_at_def proper_kind_def)
  from inv have "omap (val h2) zs = Some ds" by (simp add: loop_inv_def omap_Some_iff)
  moreover have "(\<Union>z\<in>set zs. reach h2 z) \<subseteq> {Suc (next_addr h)..<next_addr h2}"
  proof (rule UN_least)
    fix z assume "z \<in> set zs"
    then obtain j where "j < length ds" "z = zs ! j"
      using inv by (auto simp: in_set_conv_nth loop_inv_def)
    with inv show "reach h2 z \<subseteq> {Suc (next_addr h)..<next_addr h2}" by (simp add: loop_inv_def)
  qed
  moreover have "copy_slice k copy h s = Some (h2, Slice (next_addr h) 0 (length ds))"
    using False loop al len by (simp add: copy_slice_def make_slice_def ys_def)
  ultimately show ?thesis
    using inv elems
    by (intro deep_copiedI [of _ h2 "Slice (next_addr h) 0 (length ds)"])
      (auto simp: loop_inv_def slice_val_def slice_reach_def)
qed

lemma slice_framed:
  assumes "slice_val k val h s = Some ds"
    and agree: "\<forall>a\<in>slice_reach k reach h s. cells h' a = cells h a"
  shows "slice_val k val h' s = Some ds \<and> slice_reach k reach h' s = slice_reach k reach h s"
proof -
  obtain xs where xs: "slice_elems k h s = Some xs" "omap (val h) xs = Some ds"
    using assms(1) by (auto simp: slice_val_def bind_eq_Some_conv)
  have elems: "slice_elems k h' s = Some xs"
    using slice_elems_agree [of s h' h k] agree xs(1) by (simp add: slice_reach_def)
  have keep: "val h' x = val h x \<and> reach h' x = reach h x" if "x \<in> set xs" for x
  proof -
    obtain d where "val h x = Some d" using omap_member [OF xs(2) \<open>x \<in> set xs\<close>] by blast
    moreover have "\<forall>a\<in>reach h x. cells h' a = cells h a"
      using agree that xs(1) by (auto simp: slice_reach_def)
    ultimately show ?thesis using framed by metis
  qed
  then have "omap (val h') xs = omap (val h) xs" by (intro omap_cong) blast
  with xs elems keep show ?thesis by (auto simp: slice_val_def slice_reach_def)
qed

lemma slice_allocated:
  assumes "wf_heap h" and "slice_val k val h s = Some ds"
  shows "slice_reach k reach h s \<subseteq> {..<next_addr h}"
proof -
  obtain xs where xs: "slice_elems k h s = Some xs" "omap (val h) xs = Some ds"
    using assms(2) by (auto simp: slice_val_def bind_eq_Some_conv)
  have "reach h x \<subseteq> {..<next_addr h}" if "x \<in> set xs" for x
  proof -
    obtain d where "val h x = Some d" using omap_member [OF xs(2) \<open>x \<in> set xs\<close>] by blast
    then show ?thesis by (rule allocated [OF assms(1)])
  qed
  with slice_addr_allocated [OF assms(1) xs(1)] xs(1) show ?thesis
    by (simp add: slice_reach_def UN_subset_iff)
qed

lemma slices_copyable:
  assumes "proper_kind k"
  shows "deep_copyable (copy_slice k copy) (slice_val k val) (slice_reach k reach)"
  by unfold_locales
    (use copy_slice_copied [OF assms] slice_framed slice_allocated in blast)+

lemma slice_copy_nil: "copy_slice k copy h s = Some (h', t) \<Longrightarrow> t = NilSlice \<longleftrightarrow> s = NilSlice"
  by (auto simp: copy_slice_def make_slice_def bind_eq_Some_conv split: prod.splits if_splits)

end

section \<open>Structs\<close>

text \<open>Two fields are copied one after the other, each in the heap the first left behind.\<close>

definition copy_pair ::
  "('c heap \<Rightarrow> 'a \<Rightarrow> ('c heap \<times> 'a) option) \<Rightarrow> ('c heap \<Rightarrow> 'b \<Rightarrow> ('c heap \<times> 'b) option) \<Rightarrow>
     'c heap \<Rightarrow> 'a \<times> 'b \<Rightarrow> ('c heap \<times> ('a \<times> 'b)) option" where
  "copy_pair f g h p = do {
     (h, x) \<leftarrow> f h (fst p);
     (h, y) \<leftarrow> g h (snd p);
     Some (h, (x, y)) }"

definition pair_val ::
  "('c heap \<Rightarrow> 'a \<Rightarrow> 'd option) \<Rightarrow> ('c heap \<Rightarrow> 'b \<Rightarrow> 'e option) \<Rightarrow> 'c heap \<Rightarrow> 'a \<times> 'b \<Rightarrow>
     ('d \<times> 'e) option" where
  "pair_val v w h p = do { a \<leftarrow> v h (fst p); b \<leftarrow> w h (snd p); Some (a, b) }"

definition pair_reach ::
  "('c heap \<Rightarrow> 'a \<Rightarrow> addr set) \<Rightarrow> ('c heap \<Rightarrow> 'b \<Rightarrow> addr set) \<Rightarrow> 'c heap \<Rightarrow> 'a \<times> 'b \<Rightarrow> addr set" where
  "pair_reach r q h p = r h (fst p) \<union> q h (snd p)"

lemma pairs_copyable:
  assumes "deep_copyable f v r" and "deep_copyable g w q"
  shows "deep_copyable (copy_pair f g) (pair_val v w) (pair_reach r q)"
proof
  fix h p d assume wf: "wf_heap h" and "pair_val v w h p = Some d"
  then obtain a b where ab: "v h (fst p) = Some a" "w h (snd p) = Some b" "d = (a, b)"
    by (auto simp: pair_val_def bind_eq_Some_conv)
  from deep_copyable.copies [OF assms(1) wf ab(1)] obtain h1 x where
    x: "f h (fst p) = Some (h1, x)" "wf_heap h1" "ext h h1" "v h1 x = Some a"
      "r h1 x \<subseteq> {next_addr h..<next_addr h1}" by (rule deep_copiedE)
  have "w h1 (snd p) = Some b" using deep_copyable.stable [OF assms(2) wf ab(2) x(3)] by blast
  from deep_copyable.copies [OF assms(2) x(2) this] obtain h2 y where
    y: "g h1 (snd p) = Some (h2, y)" "wf_heap h2" "ext h1 h2" "w h2 y = Some b"
      "q h2 y \<subseteq> {next_addr h1..<next_addr h2}" by (rule deep_copiedE)
  have "v h2 x = Some a" "r h2 x = r h1 x"
    using deep_copyable.stable [OF assms(1) x(2,4) y(3)] by auto
  with x y ab ext_trans [OF x(3) y(3)] ext_next [OF x(3)] ext_next [OF y(3)]
  show "deep_copied (pair_val v w) (pair_reach r q) h d (copy_pair f g h p)"
    by (intro deep_copiedI [of _ h2 "(x, y)"])
      (auto simp: copy_pair_def pair_val_def pair_reach_def)
next
  fix h h' :: "'a heap" and p d assume "pair_val v w h p = Some d"
    and agree: "\<forall>a\<in>pair_reach r q h p. cells h' a = cells h a"
  then obtain a b where ab: "v h (fst p) = Some a" "w h (snd p) = Some b" "d = (a, b)"
    by (auto simp: pair_val_def bind_eq_Some_conv)
  with agree deep_copyable.framed [OF assms(1) ab(1), of h']
    deep_copyable.framed [OF assms(2) ab(2), of h']
  show "pair_val v w h' p = Some d \<and> pair_reach r q h' p = pair_reach r q h p"
    by (simp add: pair_val_def pair_reach_def)
next
  fix h p d assume "wf_heap h" and "pair_val v w h p = Some d"
  then obtain a b where "v h (fst p) = Some a" "w h (snd p) = Some b"
    by (auto simp: pair_val_def bind_eq_Some_conv)
  with deep_copyable.allocated [OF assms(1) \<open>wf_heap h\<close>]
    deep_copyable.allocated [OF assms(2) \<open>wf_heap h\<close>]
  show "pair_reach r q h p \<subseteq> {..<next_addr h}"
    unfolding pair_reach_def by (intro Un_least) blast+
qed

text \<open>
  A struct is a view on the tuple of its fields with references: its copy is the copy of the
  tuple put back into the shallow copy \<open>*out = *in\<close>.
\<close>

lemma struct_copyableI:
  assumes base: "deep_copyable f v r"
    and copy: "\<And>h s. copy h s = map_option (\<lambda>(h', p). (h', put s p)) (f h (parts s))"
    and put: "\<And>s p. parts (put s p) = p"
    and val: "\<And>h s. val h s = map_option (mk s) (v h (parts s))"
    and mk: "\<And>s p e. mk (put s p) e = mk s e"
    and reach: "\<And>h s. reach h s = r h (parts s)"
  shows "deep_copyable copy val reach"
proof
  fix h s d assume wf: "wf_heap h" and "val h s = Some d"
  then obtain e where e: "v h (parts s) = Some e" "d = mk s e" by (auto simp: val)
  from deep_copyable.copies [OF base wf e(1)] obtain h' p where
    "f h (parts s) = Some (h', p)" "wf_heap h'" "ext h h'" "v h' p = Some e"
    "r h' p \<subseteq> {next_addr h..<next_addr h'}" by (rule deep_copiedE)
  with e show "deep_copied val reach h d (copy h s)"
    by (intro deep_copiedI [of _ h' "put s p"]) (simp_all add: copy put val mk reach)
next
  fix h h' :: "'a heap" and s d assume "val h s = Some d" and "\<forall>a\<in>reach h s. cells h' a = cells h a"
  with deep_copyable.framed [OF base, of h "parts s" _ h']
  show "val h' s = Some d \<and> reach h' s = reach h s" by (auto simp: val reach)
next
  fix h s d assume "wf_heap h" and "val h s = Some d"
  with deep_copyable.allocated [OF base] show "reach h s \<subseteq> {..<next_addr h}"
    by (auto simp: val reach)
qed

section \<open>Pointers\<close>

text \<open>
  A pointer to a struct: an array and an index, \<open>None\<close> is nil. \<open>DeepCopy\<close> of a pointer makes a
  new struct and copies into it.
\<close>

type_synonym ptr = "addr \<times> nat"

definition deep_copy ::
  "('a, 'c) array_kind \<Rightarrow> ('c heap \<Rightarrow> 'a \<Rightarrow> ('c heap \<times> 'a) option) \<Rightarrow>
     'c heap \<Rightarrow> ptr option \<Rightarrow> ('c heap \<times> ptr option) option" where
  "deep_copy k copy h inp =
     (case inp of
        None \<Rightarrow> Some (h, None)
      | Some p \<Rightarrow>
          (let (h, out) = alloc (cell_of k [zero_of k]) h in do {
             x \<leftarrow> read_elem k h (fst p) (snd p);
             (h, y) \<leftarrow> copy h x;
             h \<leftarrow> write_elem k h out 0 y;
             Some (h, Some (out, 0)) }))"

definition ptr_val ::
  "('a, 'c) array_kind \<Rightarrow> ('c heap \<Rightarrow> 'a \<Rightarrow> 'd option) \<Rightarrow> 'c heap \<Rightarrow> ptr option \<Rightarrow> 'd option option" where
  "ptr_val k val h p =
     (case p of
        None \<Rightarrow> Some None
      | Some p \<Rightarrow> map_option Some (Option.bind (read_elem k h (fst p) (snd p)) (val h)))"

definition ptr_reach ::
  "('a, 'c) array_kind \<Rightarrow> ('c heap \<Rightarrow> 'a \<Rightarrow> addr set) \<Rightarrow> 'c heap \<Rightarrow> ptr option \<Rightarrow> addr set" where
  "ptr_reach k reach h p =
     (case p of
        None \<Rightarrow> {}
      | Some p \<Rightarrow> insert (fst p)
          (case read_elem k h (fst p) (snd p) of Some x \<Rightarrow> reach h x | None \<Rightarrow> {}))"

lemma ptr_val_Some:
  "ptr_val k val h (Some p) = Some d \<longleftrightarrow>
     (\<exists>x e. read_elem k h (fst p) (snd p) = Some x \<and> val h x = Some e \<and> d = Some e)"
  by (auto simp: ptr_val_def bind_eq_Some_conv)

lemma read_elem_agree: "cells h' a = cells h a \<Longrightarrow> read_elem k h' a i = read_elem k h a i"
  by (simp add: read_elem_def array_at_def)

lemma read_elem_allocated:
  "wf_heap h \<Longrightarrow> read_elem k h a i = Some x \<Longrightarrow> a < next_addr h"
  by (auto simp: wf_heap_def read_elem_def array_at_def bind_eq_Some_conv not_le [symmetric])

lemma read_elem_cell:
  "proper_kind k \<Longrightarrow> cells h a = Some (cell_of k xs) \<Longrightarrow> i < length xs \<Longrightarrow>
     read_elem k h a i = Some (xs ! i)"
  by (simp add: read_elem_def array_at_def proper_kind_def)

context deep_copyable
begin

lemma deep_copy_copied:
  assumes "proper_kind k" and "wf_heap h" and "ptr_val k val h p = Some d"
  shows "deep_copied (ptr_val k val) (ptr_reach k reach) h d (deep_copy k copy h p)"
proof (cases p)
  case None
  with assms show ?thesis
    by (intro deep_copiedI [of _ h None]) (auto simp: deep_copy_def ptr_val_def ptr_reach_def)
next
  case (Some q)
  with assms(3) obtain x e where
    x: "read_elem k h (fst q) (snd q) = Some x" "val h x = Some e" "d = Some e"
    by (auto simp: ptr_val_Some)
  define out where "out = next_addr h"
  obtain h1 where al: "alloc (cell_of k [zero_of k]) h = (h1, out)" by (simp add: alloc_def out_def)
  have h1: "ext h h1" "wf_heap h1" by (rule alloc_ext [OF al], rule alloc_wf [OF assms(2) al])
  have get: "read_elem k h1 (fst q) (snd q) = Some x"
    using read_elem_agree [of h1 "fst q" h k] read_elem_allocated [OF assms(2) x(1)] h1(1) x(1)
    by (simp add: ext_def)
  have "val h1 x = Some e" using stable [OF assms(2) x(2) h1(1)] by blast
  from copies [OF h1(2) this] obtain h2 y where
    y: "copy h1 x = Some (h2, y)" "wf_heap h2" "ext h1 h2" "val h2 y = Some e"
      "reach h2 y \<subseteq> {next_addr h1..<next_addr h2}" by (rule deep_copiedE)
  have n: "next_addr h1 = Suc out" and c1: "cells h1 out = Some (cell_of k [zero_of k])"
    using al by (auto simp: alloc_def out_def)
  have cout: "cells h2 out = Some (cell_of k [zero_of k])" "out < next_addr h2"
    using y(3) n c1 by (auto simp: ext_def)
  define h3 where "h3 = h2\<lparr>cells := (cells h2)(out \<mapsto> cell_of k [y])\<rparr>"
  have "write_elem k h2 out 0 y = Some h3"
    using cout(1) assms(1) by (simp add: write_elem_def array_at_def proper_kind_def h3_def)
  then have run: "deep_copy k copy h p = Some (h3, Some (out, 0))"
    using Some al get y(1) by (simp add: deep_copy_def)
  have "\<forall>a\<in>reach h2 y. cells h3 a = cells h2 a" using y(5) n by (auto simp: h3_def)
  from framed [OF y(4) this] have y3: "val h3 y = Some e" "reach h3 y = reach h2 y" by blast+
  have rd: "read_elem k h3 out 0 = Some y"
    using read_elem_cell [OF assms(1), of h3 out "[y]" 0] by (simp add: h3_def)
  have "ext h h3"
    using ext_trans [OF h1(1) y(3)] by (auto simp: ext_def h3_def out_def)
  moreover have "wf_heap h3" using y(2) cout(2) by (auto simp: wf_heap_def h3_def)
  moreover have "ptr_reach k reach h3 (Some (out, 0)) \<subseteq> {next_addr h..<next_addr h3}"
    using y(5) y3(2) n cout(2) rd by (auto simp: ptr_reach_def h3_def out_def)
  ultimately show ?thesis
    using run rd y3 x(3) by (intro deep_copiedI [of _ h3 "Some (out, 0)"]) (auto simp: ptr_val_Some)
qed

lemma pointers_copyable:
  assumes "proper_kind k"
  shows "deep_copyable (deep_copy k copy) (ptr_val k val) (ptr_reach k reach)"
proof
  show "deep_copied (ptr_val k val) (ptr_reach k reach) h d (deep_copy k copy h p)"
    if "wf_heap h" "ptr_val k val h p = Some d" for h p d
    using deep_copy_copied [OF assms that] .
next
  fix h h' :: "'c heap" and p d assume "ptr_val k val h p = Some d"
    and "\<forall>a\<in>ptr_reach k reach h p. cells h' a = cells h a"
  then show "ptr_val k val h' p = Some d \<and> ptr_reach k reach h' p = ptr_reach k reach h p"
    using framed [of h _ _ h'] read_elem_agree [of h' _ h k]
    by (cases p) (auto simp: ptr_val_Some ptr_val_def ptr_reach_def bind_eq_Some_conv)
next
  fix h :: "'c heap" and p d assume "wf_heap h" and "ptr_val k val h p = Some d"
  then show "ptr_reach k reach h p \<subseteq> {..<next_addr h}"
    by (cases p) (auto simp: ptr_val_Some ptr_reach_def dest: reach_less read_elem_allocated)
qed

end

end
