(* ===== verification/Deepcopy.thy ===== *)
theory Deepcopy
  imports Store Poltypes
begin

text \<open>
  The generated deep copies of the DanmNetworkPolicy API
  (\<open>crd/api/netpol/v1/zz_generated.deepcopy.go\<close>) on the store of Store. The structs of the
  libraries (label selectors, object and list metadata, ports) are opaque values with a copy
  function of their own; what the API's copies rely on is that these functions are deep copies
  themselves, the locale \<open>api_libs\<close>. Inside it every \<open>DeepCopyInto\<close> and \<open>DeepCopy\<close> is shown
  to satisfy the same contract.
\<close>

section \<open>The structs in memory\<close>

text \<open>
  The struct types of \<open>types.go\<close> as they lie in memory: slices are windows into arrays, and a
  field of a library type is a value of type \<open>'v\<close>. \<open>'x\<close> are the cells the libraries allocate.
\<close>

record 'v go_peer =
  gPeerPodSelector :: 'v
  gPeerNamespaceSelector :: 'v
  gPeerNetworkSelector :: slice

record go_ingress_rule =
  gIngressPorts :: slice
  gFrom :: slice

record go_egress_rule =
  gEgressPorts :: slice
  gTo :: slice

record 'v go_spec =
  gPodSelector :: 'v
  gIngress :: slice
  gEgress :: slice
  gPolicyTypes :: slice

record 'v go_policy =
  gTypeMeta :: type_meta
  gObjectMeta :: 'v
  gSpec :: "'v go_spec"

record 'v go_policy_list =
  gListTypeMeta :: type_meta
  gListMeta :: 'v
  gItems :: slice

datatype ('v, 'x) cell =
  SelectorArray "network_selector list"
| PortArray "'v list"
| PeerArray "'v go_peer list"
| IngressArray "go_ingress_rule list"
| EgressArray "go_egress_rule list"
| PolicyTypeArray "string list"
| SpecArray "'v go_spec list"
| PolicyArray "'v go_policy list"
| PolicyListArray "'v go_policy_list list"
| LibraryCell 'x

type_synonym ('v, 'x) store = "('v, 'x) cell heap"
type_synonym ('v, 'x, 'a) copier = "('v, 'x) store \<Rightarrow> 'a \<Rightarrow> (('v, 'x) store \<times> 'a) option"

text \<open>The \<open>DeepCopyInto\<close> methods of the library structs, and their zero values.\<close>

record ('v, 'x) api_lib =
  LabelSelector_DeepCopyInto :: "('v, 'x, 'v) copier"
  ObjectMeta_DeepCopyInto :: "('v, 'x, 'v) copier"
  ListMeta_DeepCopyInto :: "('v, 'x, 'v) copier"
  NetworkPolicyPort_DeepCopyInto :: "('v, 'x, 'v) copier"
  zero_LabelSelector :: 'v
  zero_ObjectMeta :: 'v
  zero_ListMeta :: 'v
  zero_NetworkPolicyPort :: 'v

section \<open>Element types and zero values\<close>

definition selector_kind :: "(network_selector, ('v, 'x) cell) array_kind" where
  "selector_kind = \<lparr>cell_of = SelectorArray,
     array_of = (\<lambda>c. case c of SelectorArray xs \<Rightarrow> Some xs | _ \<Rightarrow> None),
     zero_of = \<lparr>SelName = [], SelType = []\<rparr>\<rparr>"

definition policy_type_kind :: "(string, ('v, 'x) cell) array_kind" where
  "policy_type_kind = \<lparr>cell_of = PolicyTypeArray,
     array_of = (\<lambda>c. case c of PolicyTypeArray xs \<Rightarrow> Some xs | _ \<Rightarrow> None), zero_of = []\<rparr>"

definition port_kind :: "('v, 'x) api_lib \<Rightarrow> ('v, ('v, 'x) cell) array_kind" where
  "port_kind lib = \<lparr>cell_of = PortArray,
     array_of = (\<lambda>c. case c of PortArray xs \<Rightarrow> Some xs | _ \<Rightarrow> None),
     zero_of = zero_NetworkPolicyPort lib\<rparr>"

definition peer_kind :: "('v, 'x) api_lib \<Rightarrow> ('v go_peer, ('v, 'x) cell) array_kind" where
  "peer_kind lib = \<lparr>cell_of = PeerArray,
     array_of = (\<lambda>c. case c of PeerArray xs \<Rightarrow> Some xs | _ \<Rightarrow> None),
     zero_of = \<lparr>gPeerPodSelector = zero_LabelSelector lib,
       gPeerNamespaceSelector = zero_LabelSelector lib, gPeerNetworkSelector = NilSlice\<rparr>\<rparr>"

definition ingress_kind :: "(go_ingress_rule, ('v, 'x) cell) array_kind" where
  "ingress_kind = \<lparr>cell_of = IngressArray,
     array_of = (\<lambda>c. case c of IngressArray xs \<Rightarrow> Some xs | _ \<Rightarrow> None),
     zero_of = \<lparr>gIngressPorts = NilSlice, gFrom = NilSlice\<rparr>\<rparr>"

definition egress_kind :: "(go_egress_rule, ('v, 'x) cell) array_kind" where
  "egress_kind = \<lparr>cell_of = EgressArray,
     array_of = (\<lambda>c. case c of EgressArray xs \<Rightarrow> Some xs | _ \<Rightarrow> None),
     zero_of = \<lparr>gEgressPorts = NilSlice, gTo = NilSlice\<rparr>\<rparr>"

definition zero_spec :: "('v, 'x) api_lib \<Rightarrow> 'v go_spec" where
  "zero_spec lib = \<lparr>gPodSelector = zero_LabelSelector lib, gIngress = NilSlice, gEgress = NilSlice,
     gPolicyTypes = NilSlice\<rparr>"

definition spec_kind :: "('v, 'x) api_lib \<Rightarrow> ('v go_spec, ('v, 'x) cell) array_kind" where
  "spec_kind lib = \<lparr>cell_of = SpecArray,
     array_of = (\<lambda>c. case c of SpecArray xs \<Rightarrow> Some xs | _ \<Rightarrow> None), zero_of = zero_spec lib\<rparr>"

definition policy_kind :: "('v, 'x) api_lib \<Rightarrow> ('v go_policy, ('v, 'x) cell) array_kind" where
  "policy_kind lib = \<lparr>cell_of = PolicyArray,
     array_of = (\<lambda>c. case c of PolicyArray xs \<Rightarrow> Some xs | _ \<Rightarrow> None),
     zero_of = \<lparr>gTypeMeta = \<lparr>Kind = [], APIVersion = []\<rparr>, gObjectMeta = zero_ObjectMeta lib,
       gSpec = zero_spec lib\<rparr>\<rparr>"

definition policy_list_kind :: "('v, 'x) api_lib \<Rightarrow> ('v go_policy_list, ('v, 'x) cell) array_kind" where
  "policy_list_kind lib = \<lparr>cell_of = PolicyListArray,
     array_of = (\<lambda>c. case c of PolicyListArray xs \<Rightarrow> Some xs | _ \<Rightarrow> None),
     zero_of = \<lparr>gListTypeMeta = \<lparr>Kind = [], APIVersion = []\<rparr>, gListMeta = zero_ListMeta lib,
       gItems = NilSlice\<rparr>\<rparr>"

lemma proper_kinds [simp]:
  "proper_kind selector_kind" "proper_kind policy_type_kind" "proper_kind (port_kind lib)"
  "proper_kind (peer_kind lib)" "proper_kind ingress_kind" "proper_kind egress_kind"
  "proper_kind (spec_kind lib)" "proper_kind (policy_kind lib)" "proper_kind (policy_list_kind lib)"
  by (simp_all add: proper_kind_def selector_kind_def policy_type_kind_def port_kind_def
      peer_kind_def ingress_kind_def egress_kind_def spec_kind_def policy_kind_def
      policy_list_kind_def)

section \<open>The copies\<close>

text \<open>
  Each \<open>DeepCopyInto\<close> starts from the shallow copy \<open>*out = *in\<close> and replaces the fields with
  references, in the order of the code. \<open>copy_slice\<close> is the block
  \<open>if in.F != nil { *out = make(...); for ... }\<close>. The target is never the source: every caller
  in the file passes a struct it has just made.
\<close>

definition NetworkSelector_DeepCopyInto :: "('v, 'x, network_selector) copier" where
  "NetworkSelector_DeepCopyInto h inp = Some (h, inp)"

definition NetworkPolicyPeer_DeepCopyInto :: "('v, 'x) api_lib \<Rightarrow> ('v, 'x, 'v go_peer) copier" where
  "NetworkPolicyPeer_DeepCopyInto lib h inp = do {
     let out = inp;
     (h, ps) \<leftarrow> LabelSelector_DeepCopyInto lib h (gPeerPodSelector inp);
     let out = out\<lparr>gPeerPodSelector := ps\<rparr>;
     (h, ns) \<leftarrow> LabelSelector_DeepCopyInto lib h (gPeerNamespaceSelector inp);
     let out = out\<lparr>gPeerNamespaceSelector := ns\<rparr>;
     (h, s) \<leftarrow> copy_slice selector_kind flat_copy h (gPeerNetworkSelector inp);
     let out = out\<lparr>gPeerNetworkSelector := s\<rparr>;
     Some (h, out) }"

definition NetworkPolicyIngressRule_DeepCopyInto ::
  "('v, 'x) api_lib \<Rightarrow> ('v, 'x, go_ingress_rule) copier" where
  "NetworkPolicyIngressRule_DeepCopyInto lib h inp = do {
     let out = inp;
     (h, s) \<leftarrow> copy_slice (port_kind lib) (NetworkPolicyPort_DeepCopyInto lib) h (gIngressPorts inp);
     let out = out\<lparr>gIngressPorts := s\<rparr>;
     (h, s) \<leftarrow> copy_slice (peer_kind lib) (NetworkPolicyPeer_DeepCopyInto lib) h (gFrom inp);
     let out = out\<lparr>gFrom := s\<rparr>;
     Some (h, out) }"

definition NetworkPolicyEgressRule_DeepCopyInto ::
  "('v, 'x) api_lib \<Rightarrow> ('v, 'x, go_egress_rule) copier" where
  "NetworkPolicyEgressRule_DeepCopyInto lib h inp = do {
     let out = inp;
     (h, s) \<leftarrow> copy_slice (port_kind lib) (NetworkPolicyPort_DeepCopyInto lib) h (gEgressPorts inp);
     let out = out\<lparr>gEgressPorts := s\<rparr>;
     (h, s) \<leftarrow> copy_slice (peer_kind lib) (NetworkPolicyPeer_DeepCopyInto lib) h (gTo inp);
     let out = out\<lparr>gTo := s\<rparr>;
     Some (h, out) }"

definition NetPolSpec_DeepCopyInto :: "('v, 'x) api_lib \<Rightarrow> ('v, 'x, 'v go_spec) copier" where
  "NetPolSpec_DeepCopyInto lib h inp = do {
     let out = inp;
     (h, ps) \<leftarrow> LabelSelector_DeepCopyInto lib h (gPodSelector inp);
     let out = out\<lparr>gPodSelector := ps\<rparr>;
     (h, s) \<leftarrow> copy_slice ingress_kind (NetworkPolicyIngressRule_DeepCopyInto lib) h (gIngress inp);
     let out = out\<lparr>gIngress := s\<rparr>;
     (h, s) \<leftarrow> copy_slice egress_kind (NetworkPolicyEgressRule_DeepCopyInto lib) h (gEgress inp);
     let out = out\<lparr>gEgress := s\<rparr>;
     (h, s) \<leftarrow> copy_slice policy_type_kind flat_copy h (gPolicyTypes inp);
     let out = out\<lparr>gPolicyTypes := s\<rparr>;
     Some (h, out) }"

definition DanmNetworkPolicy_DeepCopyInto :: "('v, 'x) api_lib \<Rightarrow> ('v, 'x, 'v go_policy) copier" where
  "DanmNetworkPolicy_DeepCopyInto lib h inp = do {
     let out = inp;
     let out = out\<lparr>gTypeMeta := gTypeMeta inp\<rparr>;
     (h, om) \<leftarrow> ObjectMeta_DeepCopyInto lib h (gObjectMeta inp);
     let out = out\<lparr>gObjectMeta := om\<rparr>;
     (h, spec) \<leftarrow> NetPolSpec_DeepCopyInto lib h (gSpec inp);
     let out = out\<lparr>gSpec := spec\<rparr>;
     Some (h, out) }"

definition DanmNetworkPolicyList_DeepCopyInto ::
  "('v, 'x) api_lib \<Rightarrow> ('v, 'x, 'v go_policy_list) copier" where
  "DanmNetworkPolicyList_DeepCopyInto lib h inp = do {
     let out = inp;
     let out = out\<lparr>gListTypeMeta := gListTypeMeta inp\<rparr>;
     (h, lm) \<leftarrow> ListMeta_DeepCopyInto lib h (gListMeta inp);
     let out = out\<lparr>gListMeta := lm\<rparr>;
     (h, s) \<leftarrow> copy_slice (policy_kind lib) (DanmNetworkPolicy_DeepCopyInto lib) h (gItems inp);
     let out = out\<lparr>gItems := s\<rparr>;
     Some (h, out) }"

text \<open>\<open>DeepCopy\<close> of a pointer: nil stays nil, otherwise a new struct is filled.\<close>

definition NetworkSelector_DeepCopy :: "('v, 'x, ptr option) copier" where
  "NetworkSelector_DeepCopy = deep_copy selector_kind NetworkSelector_DeepCopyInto"

definition NetworkPolicyPeer_DeepCopy :: "('v, 'x) api_lib \<Rightarrow> ('v, 'x, ptr option) copier" where
  "NetworkPolicyPeer_DeepCopy lib = deep_copy (peer_kind lib) (NetworkPolicyPeer_DeepCopyInto lib)"

definition NetworkPolicyIngressRule_DeepCopy :: "('v, 'x) api_lib \<Rightarrow> ('v, 'x, ptr option) copier" where
  "NetworkPolicyIngressRule_DeepCopy lib =
     deep_copy ingress_kind (NetworkPolicyIngressRule_DeepCopyInto lib)"

definition NetworkPolicyEgressRule_DeepCopy :: "('v, 'x) api_lib \<Rightarrow> ('v, 'x, ptr option) copier" where
  "NetworkPolicyEgressRule_DeepCopy lib =
     deep_copy egress_kind (NetworkPolicyEgressRule_DeepCopyInto lib)"

definition NetPolSpec_DeepCopy :: "('v, 'x) api_lib \<Rightarrow> ('v, 'x, ptr option) copier" where
  "NetPolSpec_DeepCopy lib = deep_copy (spec_kind lib) (NetPolSpec_DeepCopyInto lib)"

definition DanmNetworkPolicy_DeepCopy :: "('v, 'x) api_lib \<Rightarrow> ('v, 'x, ptr option) copier" where
  "DanmNetworkPolicy_DeepCopy lib = deep_copy (policy_kind lib) (DanmNetworkPolicy_DeepCopyInto lib)"

definition DanmNetworkPolicyList_DeepCopy :: "('v, 'x) api_lib \<Rightarrow> ('v, 'x, ptr option) copier" where
  "DanmNetworkPolicyList_DeepCopy lib =
     deep_copy (policy_list_kind lib) (DanmNetworkPolicyList_DeepCopyInto lib)"

text \<open>
  The interface \<open>runtime.Object\<close>: nil, or a pointer with its type. In Go an interface that
  holds a nil pointer is not nil, which is why \<open>DeepCopyObject\<close> tests the pointer first.
\<close>

datatype runtime_object =
  NilObject
| PolicyObject "ptr option"
| PolicyListObject "ptr option"

definition DanmNetworkPolicy_DeepCopyObject ::
  "('v, 'x) api_lib \<Rightarrow> ('v, 'x) store \<Rightarrow> ptr option \<Rightarrow> (('v, 'x) store \<times> runtime_object) option" where
  "DanmNetworkPolicy_DeepCopyObject lib h inp = do {
     (h, c) \<leftarrow> DanmNetworkPolicy_DeepCopy lib h inp;
     Some (h, if c \<noteq> None then PolicyObject c else NilObject) }"

definition DanmNetworkPolicyList_DeepCopyObject ::
  "('v, 'x) api_lib \<Rightarrow> ('v, 'x) store \<Rightarrow> ptr option \<Rightarrow> (('v, 'x) store \<times> runtime_object) option" where
  "DanmNetworkPolicyList_DeepCopyObject lib h inp = do {
     (h, c) \<leftarrow> DanmNetworkPolicyList_DeepCopy lib h inp;
     Some (h, if c \<noteq> None then PolicyListObject c else NilObject) }"

section \<open>What the structs denote\<close>

text \<open>
  The value of a struct in a store is the object of Poltypes that the rest of the program
  works on. A nil slice and an empty one denote the same list; that a copy keeps the
  difference is \<open>slice_copy_nil\<close>.
\<close>

record 'm danm_network_policy_list =
  ListTypeMeta :: type_meta
  ListMeta :: 'm
  Items :: "danm_network_policy list"

record ('v, 'x, 'm) api_view =
  ls_val :: "('v, 'x) store \<Rightarrow> 'v \<Rightarrow> label_selector option"
  ls_reach :: "('v, 'x) store \<Rightarrow> 'v \<Rightarrow> addr set"
  om_val :: "('v, 'x) store \<Rightarrow> 'v \<Rightarrow> object_meta option"
  om_reach :: "('v, 'x) store \<Rightarrow> 'v \<Rightarrow> addr set"
  lm_val :: "('v, 'x) store \<Rightarrow> 'v \<Rightarrow> 'm option"
  lm_reach :: "('v, 'x) store \<Rightarrow> 'v \<Rightarrow> addr set"
  port_val :: "('v, 'x) store \<Rightarrow> 'v \<Rightarrow> network_policy_port option"
  port_reach :: "('v, 'x) store \<Rightarrow> 'v \<Rightarrow> addr set"

abbreviation selectors_val where
  "selectors_val \<equiv> slice_val selector_kind (\<lambda>h. Some)"

abbreviation selectors_reach where
  "selectors_reach \<equiv> slice_reach selector_kind (\<lambda>h x. {})"

abbreviation types_val where
  "types_val \<equiv> slice_val policy_type_kind (\<lambda>h. Some)"

abbreviation types_reach where
  "types_reach \<equiv> slice_reach policy_type_kind (\<lambda>h x. {})"

definition peer_val ::
  "('v, 'x, 'm) api_view \<Rightarrow> ('v, 'x) store \<Rightarrow> 'v go_peer \<Rightarrow> network_policy_peer option" where
  "peer_val view h p = do {
     ps \<leftarrow> ls_val view h (gPeerPodSelector p);
     ns \<leftarrow> ls_val view h (gPeerNamespaceSelector p);
     nets \<leftarrow> selectors_val h (gPeerNetworkSelector p);
     Some \<lparr>PeerPodSelector = ps, PeerNamespaceSelector = ns, PeerNetworkSelector = nets\<rparr> }"

definition peer_reach :: "('v, 'x, 'm) api_view \<Rightarrow> ('v, 'x) store \<Rightarrow> 'v go_peer \<Rightarrow> addr set" where
  "peer_reach view h p = ls_reach view h (gPeerPodSelector p) \<union>
     (ls_reach view h (gPeerNamespaceSelector p) \<union> selectors_reach h (gPeerNetworkSelector p))"

abbreviation ports_val where
  "ports_val lib view \<equiv> slice_val (port_kind lib) (port_val view)"

abbreviation ports_reach where
  "ports_reach lib view \<equiv> slice_reach (port_kind lib) (port_reach view)"

abbreviation peers_val where
  "peers_val lib view \<equiv> slice_val (peer_kind lib) (peer_val view)"

abbreviation peers_reach where
  "peers_reach lib view \<equiv> slice_reach (peer_kind lib) (peer_reach view)"

definition ingress_val ::
  "('v, 'x) api_lib \<Rightarrow> ('v, 'x, 'm) api_view \<Rightarrow> ('v, 'x) store \<Rightarrow> go_ingress_rule \<Rightarrow>
     network_policy_ingress_rule option" where
  "ingress_val lib view h r = do {
     ports \<leftarrow> ports_val lib view h (gIngressPorts r);
     peers \<leftarrow> peers_val lib view h (gFrom r);
     Some \<lparr>IngressPorts = ports, From = peers\<rparr> }"

definition ingress_reach ::
  "('v, 'x) api_lib \<Rightarrow> ('v, 'x, 'm) api_view \<Rightarrow> ('v, 'x) store \<Rightarrow> go_ingress_rule \<Rightarrow> addr set" where
  "ingress_reach lib view h r =
     ports_reach lib view h (gIngressPorts r) \<union> peers_reach lib view h (gFrom r)"

definition egress_val ::
  "('v, 'x) api_lib \<Rightarrow> ('v, 'x, 'm) api_view \<Rightarrow> ('v, 'x) store \<Rightarrow> go_egress_rule \<Rightarrow>
     network_policy_egress_rule option" where
  "egress_val lib view h r = do {
     ports \<leftarrow> ports_val lib view h (gEgressPorts r);
     peers \<leftarrow> peers_val lib view h (gTo r);
     Some \<lparr>EgressPorts = ports, To = peers\<rparr> }"

definition egress_reach ::
  "('v, 'x) api_lib \<Rightarrow> ('v, 'x, 'm) api_view \<Rightarrow> ('v, 'x) store \<Rightarrow> go_egress_rule \<Rightarrow> addr set" where
  "egress_reach lib view h r =
     ports_reach lib view h (gEgressPorts r) \<union> peers_reach lib view h (gTo r)"

definition spec_val ::
  "('v, 'x) api_lib \<Rightarrow> ('v, 'x, 'm) api_view \<Rightarrow> ('v, 'x) store \<Rightarrow> 'v go_spec \<Rightarrow> netpol_spec option" where
  "spec_val lib view h s = do {
     ps \<leftarrow> ls_val view h (gPodSelector s);
     ingress \<leftarrow> slice_val ingress_kind (ingress_val lib view) h (gIngress s);
     egress \<leftarrow> slice_val egress_kind (egress_val lib view) h (gEgress s);
     types \<leftarrow> types_val h (gPolicyTypes s);
     Some \<lparr>PodSelector = ps, Ingress = ingress, Egress = egress, PolicyTypes = types\<rparr> }"

definition spec_reach ::
  "('v, 'x) api_lib \<Rightarrow> ('v, 'x, 'm) api_view \<Rightarrow> ('v, 'x) store \<Rightarrow> 'v go_spec \<Rightarrow> addr set" where
  "spec_reach lib view h s = ls_reach view h (gPodSelector s) \<union>
     (slice_reach ingress_kind (ingress_reach lib view) h (gIngress s) \<union>
      (slice_reach egress_kind (egress_reach lib view) h (gEgress s) \<union>
       types_reach h (gPolicyTypes s)))"

definition policy_val ::
  "('v, 'x) api_lib \<Rightarrow> ('v, 'x, 'm) api_view \<Rightarrow> ('v, 'x) store \<Rightarrow> 'v go_policy \<Rightarrow>
     danm_network_policy option" where
  "policy_val lib view h p = do {
     om \<leftarrow> om_val view h (gObjectMeta p);
     spec \<leftarrow> spec_val lib view h (gSpec p);
     Some \<lparr>PolTypeMeta = gTypeMeta p, PolMeta = om, PolSpec = spec\<rparr> }"

definition policy_reach ::
  "('v, 'x) api_lib \<Rightarrow> ('v, 'x, 'm) api_view \<Rightarrow> ('v, 'x) store \<Rightarrow> 'v go_policy \<Rightarrow> addr set" where
  "policy_reach lib view h p =
     om_reach view h (gObjectMeta p) \<union> spec_reach lib view h (gSpec p)"

definition policy_list_val ::
  "('v, 'x) api_lib \<Rightarrow> ('v, 'x, 'm) api_view \<Rightarrow> ('v, 'x) store \<Rightarrow> 'v go_policy_list \<Rightarrow>
     'm danm_network_policy_list option" where
  "policy_list_val lib view h l = do {
     lm \<leftarrow> lm_val view h (gListMeta l);
     items \<leftarrow> slice_val (policy_kind lib) (policy_val lib view) h (gItems l);
     Some \<lparr>ListTypeMeta = gListTypeMeta l, ListMeta = lm, Items = items\<rparr> }"

definition policy_list_reach ::
  "('v, 'x) api_lib \<Rightarrow> ('v, 'x, 'm) api_view \<Rightarrow> ('v, 'x) store \<Rightarrow> 'v go_policy_list \<Rightarrow> addr set" where
  "policy_list_reach lib view h l =
     lm_reach view h (gListMeta l) \<union>
     slice_reach (policy_kind lib) (policy_reach lib view) h (gItems l)"

section \<open>The contract of the libraries gives the contract of the API\<close>

lemma map_option_bind: "map_option f (Option.bind m g) = Option.bind m (\<lambda>x. map_option f (g x))"
  by (cases m) simp_all

lemmas copy_steps = copy_pair_def pair_val_def pair_reach_def map_option_bind bind_assoc
  case_prod_unfold

interpretation selectors: deep_copyable "copy_slice selector_kind flat_copy" selectors_val selectors_reach
  by (rule deep_copyable.slices_copyable [OF deep_copyable_flat]) simp

interpretation types: deep_copyable "copy_slice policy_type_kind flat_copy" types_val types_reach
  by (rule deep_copyable.slices_copyable [OF deep_copyable_flat]) simp

locale api_libs =
  fixes lib :: "('v, 'x) api_lib" and view :: "('v, 'x, 'm) api_view"
  assumes label_selectors:
      "deep_copyable (LabelSelector_DeepCopyInto lib) (ls_val view) (ls_reach view)"
    and object_metas: "deep_copyable (ObjectMeta_DeepCopyInto lib) (om_val view) (om_reach view)"
    and list_metas: "deep_copyable (ListMeta_DeepCopyInto lib) (lm_val view) (lm_reach view)"
    and ports: "deep_copyable (NetworkPolicyPort_DeepCopyInto lib) (port_val view) (port_reach view)"
begin

lemma port_slices: "deep_copyable (copy_slice (port_kind lib) (NetworkPolicyPort_DeepCopyInto lib))
    (ports_val lib view) (ports_reach lib view)"
  by (rule deep_copyable.slices_copyable [OF ports]) simp

lemma peers: "deep_copyable (NetworkPolicyPeer_DeepCopyInto lib) (peer_val view) (peer_reach view)"
proof -
  have base: "deep_copyable
      (copy_pair (LabelSelector_DeepCopyInto lib)
        (copy_pair (LabelSelector_DeepCopyInto lib) (copy_slice selector_kind flat_copy)))
      (pair_val (ls_val view) (pair_val (ls_val view) selectors_val))
      (pair_reach (ls_reach view) (pair_reach (ls_reach view) selectors_reach))"
    by (intro pairs_copyable label_selectors selectors.deep_copyable_axioms)
  show ?thesis
    by (rule struct_copyableI
        [OF base, where parts = "\<lambda>p. (gPeerPodSelector p, gPeerNamespaceSelector p, gPeerNetworkSelector p)"
          and put = "\<lambda>p (a, b, c). p\<lparr>gPeerPodSelector := a, gPeerNamespaceSelector := b,
            gPeerNetworkSelector := c\<rparr>"
          and mk = "\<lambda>p (a, b, c). \<lparr>PeerPodSelector = a, PeerNamespaceSelector = b,
            PeerNetworkSelector = c\<rparr>"])
      (simp_all add: NetworkPolicyPeer_DeepCopyInto_def peer_val_def peer_reach_def copy_steps)
qed

lemma peer_slices: "deep_copyable (copy_slice (peer_kind lib) (NetworkPolicyPeer_DeepCopyInto lib))
    (peers_val lib view) (peers_reach lib view)"
  by (rule deep_copyable.slices_copyable [OF peers]) simp

lemma ingress_rules_copyable: "deep_copyable (NetworkPolicyIngressRule_DeepCopyInto lib)
    (ingress_val lib view) (ingress_reach lib view)"
  by (rule struct_copyableI
      [OF pairs_copyable [OF port_slices peer_slices],
        where parts = "\<lambda>r. (gIngressPorts r, gFrom r)"
          and put = "\<lambda>r (a, b). r\<lparr>gIngressPorts := a, gFrom := b\<rparr>"
          and mk = "\<lambda>r (a, b). \<lparr>IngressPorts = a, From = b\<rparr>"])
    (simp_all add: NetworkPolicyIngressRule_DeepCopyInto_def ingress_val_def ingress_reach_def
      copy_steps)

lemma egress_rules_copyable: "deep_copyable (NetworkPolicyEgressRule_DeepCopyInto lib)
    (egress_val lib view) (egress_reach lib view)"
  by (rule struct_copyableI
      [OF pairs_copyable [OF port_slices peer_slices],
        where parts = "\<lambda>r. (gEgressPorts r, gTo r)"
          and put = "\<lambda>r (a, b). r\<lparr>gEgressPorts := a, gTo := b\<rparr>"
          and mk = "\<lambda>r (a, b). \<lparr>EgressPorts = a, To = b\<rparr>"])
    (simp_all add: NetworkPolicyEgressRule_DeepCopyInto_def egress_val_def egress_reach_def
      copy_steps)

lemma specs: "deep_copyable (NetPolSpec_DeepCopyInto lib) (spec_val lib view) (spec_reach lib view)"
proof -
  have "deep_copyable (copy_slice ingress_kind (NetworkPolicyIngressRule_DeepCopyInto lib))
      (slice_val ingress_kind (ingress_val lib view)) (slice_reach ingress_kind (ingress_reach lib view))"
    by (rule deep_copyable.slices_copyable [OF ingress_rules_copyable]) simp
  moreover have "deep_copyable (copy_slice egress_kind (NetworkPolicyEgressRule_DeepCopyInto lib))
      (slice_val egress_kind (egress_val lib view)) (slice_reach egress_kind (egress_reach lib view))"
    by (rule deep_copyable.slices_copyable [OF egress_rules_copyable]) simp
  ultimately show ?thesis
    by - (rule struct_copyableI
        [OF pairs_copyable [OF label_selectors
            pairs_copyable [OF _ pairs_copyable [OF _ types.deep_copyable_axioms]]],
          where parts = "\<lambda>s. (gPodSelector s, gIngress s, gEgress s, gPolicyTypes s)"
            and put = "\<lambda>s (a, b, c, d).
              s\<lparr>gPodSelector := a, gIngress := b, gEgress := c, gPolicyTypes := d\<rparr>"
            and mk = "\<lambda>s (a, b, c, d).
              \<lparr>PodSelector = a, Ingress = b, Egress = c, PolicyTypes = d\<rparr>"],
        assumption, assumption,
        simp_all add: NetPolSpec_DeepCopyInto_def spec_val_def spec_reach_def copy_steps)
qed

lemma policies: "deep_copyable (DanmNetworkPolicy_DeepCopyInto lib)
    (policy_val lib view) (policy_reach lib view)"
  by (rule struct_copyableI
      [OF pairs_copyable [OF object_metas specs],
        where parts = "\<lambda>p. (gObjectMeta p, gSpec p)"
          and put = "\<lambda>p (a, b). p\<lparr>gObjectMeta := a, gSpec := b\<rparr>"
          and mk = "\<lambda>p (a, b). \<lparr>PolTypeMeta = gTypeMeta p, PolMeta = a, PolSpec = b\<rparr>"])
    (simp_all add: DanmNetworkPolicy_DeepCopyInto_def policy_val_def policy_reach_def copy_steps)

lemma policy_lists: "deep_copyable (DanmNetworkPolicyList_DeepCopyInto lib)
    (policy_list_val lib view) (policy_list_reach lib view)"
  by (rule struct_copyableI
      [OF pairs_copyable [OF list_metas deep_copyable.slices_copyable [OF policies]],
        where parts = "\<lambda>l. (gListMeta l, gItems l)"
          and put = "\<lambda>l (a, b). l\<lparr>gListMeta := a, gItems := b\<rparr>"
          and mk = "\<lambda>l (a, b). \<lparr>ListTypeMeta = gListTypeMeta l, ListMeta = a, Items = b\<rparr>"])
    (simp_all add: DanmNetworkPolicyList_DeepCopyInto_def policy_list_val_def
      policy_list_reach_def copy_steps)

text \<open>The pointers the callers hold.\<close>

sublocale policy_ptr: deep_copyable "DanmNetworkPolicy_DeepCopy lib"
  "ptr_val (policy_kind lib) (policy_val lib view)"
  "ptr_reach (policy_kind lib) (policy_reach lib view)"
  unfolding DanmNetworkPolicy_DeepCopy_def
  by (rule deep_copyable.pointers_copyable [OF policies]) simp

sublocale policy_list_ptr: deep_copyable "DanmNetworkPolicyList_DeepCopy lib"
  "ptr_val (policy_list_kind lib) (policy_list_val lib view)"
  "ptr_reach (policy_list_kind lib) (policy_list_reach lib view)"
  unfolding DanmNetworkPolicyList_DeepCopy_def
  by (rule deep_copyable.pointers_copyable [OF policy_lists]) simp

sublocale spec_ptr: deep_copyable "NetPolSpec_DeepCopy lib"
  "ptr_val (spec_kind lib) (spec_val lib view)" "ptr_reach (spec_kind lib) (spec_reach lib view)"
  unfolding NetPolSpec_DeepCopy_def
  by (rule deep_copyable.pointers_copyable [OF specs]) simp

sublocale ingress_ptr: deep_copyable "NetworkPolicyIngressRule_DeepCopy lib"
  "ptr_val ingress_kind (ingress_val lib view)" "ptr_reach ingress_kind (ingress_reach lib view)"
  unfolding NetworkPolicyIngressRule_DeepCopy_def
  by (rule deep_copyable.pointers_copyable [OF ingress_rules_copyable]) simp

sublocale egress_ptr: deep_copyable "NetworkPolicyEgressRule_DeepCopy lib"
  "ptr_val egress_kind (egress_val lib view)" "ptr_reach egress_kind (egress_reach lib view)"
  unfolding NetworkPolicyEgressRule_DeepCopy_def
  by (rule deep_copyable.pointers_copyable [OF egress_rules_copyable]) simp

sublocale peer_ptr: deep_copyable "NetworkPolicyPeer_DeepCopy lib"
  "ptr_val (peer_kind lib) (peer_val view)" "ptr_reach (peer_kind lib) (peer_reach view)"
  unfolding NetworkPolicyPeer_DeepCopy_def
  by (rule deep_copyable.pointers_copyable [OF peers]) simp

lemmas pointers = policy_list_ptr.deep_copyable_axioms policy_ptr.deep_copyable_axioms
  spec_ptr.deep_copyable_axioms ingress_ptr.deep_copyable_axioms egress_ptr.deep_copyable_axioms
  peer_ptr.deep_copyable_axioms

end

lemma NetworkSelector_flat: "NetworkSelector_DeepCopyInto = flat_copy"
  by (intro ext) (simp add: NetworkSelector_DeepCopyInto_def flat_copy_def)

interpretation selector_ptr: deep_copyable NetworkSelector_DeepCopy
  "ptr_val selector_kind (\<lambda>h. Some)" "ptr_reach selector_kind (\<lambda>h x. {})"
  unfolding NetworkSelector_DeepCopy_def NetworkSelector_flat
  by (rule deep_copyable.pointers_copyable [OF deep_copyable_flat]) simp

section \<open>A library instance\<close>

text \<open>
  The shape of \<open>metav1.LabelSelector\<close> and \<open>metav1.ObjectMeta\<close> in the fields the program reads:
  a struct with a string and a map, the map behind a reference. Its copy allocates a new map.
\<close>

type_synonym map_struct = "string \<times> addr option"

definition map_struct_copy :: "(map_struct, labels, map_struct) copier" where
  "map_struct_copy h s =
     (case snd s of
        None \<Rightarrow> Some (h, s)
      | Some a \<Rightarrow> do {
          c \<leftarrow> cells h a;
          let (h', b) = alloc c h;
          Some (h', (fst s, Some b)) })"

definition map_struct_val ::
  "(string \<Rightarrow> labels \<Rightarrow> 'd) \<Rightarrow> (map_struct, labels) store \<Rightarrow> map_struct \<Rightarrow> 'd option" where
  "map_struct_val conv h s =
     (case snd s of
        None \<Rightarrow> Some (conv (fst s) [])
      | Some a \<Rightarrow> (case cells h a of Some (LibraryCell m) \<Rightarrow> Some (conv (fst s) m) | _ \<Rightarrow> None))"

definition map_struct_reach :: "(map_struct, labels) store \<Rightarrow> map_struct \<Rightarrow> addr set" where
  "map_struct_reach h s = set_option (snd s)"

definition map_lib :: "(map_struct, labels) api_lib" where
  "map_lib = \<lparr>LabelSelector_DeepCopyInto = map_struct_copy, ObjectMeta_DeepCopyInto = map_struct_copy,
     ListMeta_DeepCopyInto = map_struct_copy, NetworkPolicyPort_DeepCopyInto = map_struct_copy,
     zero_LabelSelector = ([], None), zero_ObjectMeta = ([], None), zero_ListMeta = ([], None),
     zero_NetworkPolicyPort = ([], None)\<rparr>"

definition map_view :: "(map_struct, labels, string) api_view" where
  "map_view = \<lparr>
     ls_val = map_struct_val (\<lambda>s m. \<lparr>MatchLabels = m, MatchExpressions = []\<rparr>),
     ls_reach = map_struct_reach,
     om_val = map_struct_val (\<lambda>s m. \<lparr>Name = s, Namespace = [], UID = [], Labels = m,
       ResourceVersion = []\<rparr>),
     om_reach = map_struct_reach,
     lm_val = map_struct_val (\<lambda>s m. s), lm_reach = map_struct_reach,
     port_val = map_struct_val (\<lambda>s m. \<lparr>Protocol = Some s, Port = None\<rparr>),
     port_reach = map_struct_reach\<rparr>"

lemma map_structs: "deep_copyable map_struct_copy (map_struct_val conv) map_struct_reach"
proof
  fix h :: "(map_struct, labels) store" and s d
  assume wf: "wf_heap h" and v: "map_struct_val conv h s = Some d"
  show "deep_copied (map_struct_val conv) map_struct_reach h d (map_struct_copy h s)"
  proof (cases "snd s")
    case None
    with wf v show ?thesis
      by (intro deep_copiedI [of _ h s]) (auto simp: map_struct_copy_def map_struct_reach_def)
  next
    case (Some a)
    with v obtain m where m: "cells h a = Some (LibraryCell m)" "d = conv (fst s) m"
      by (auto simp: map_struct_val_def split: option.splits cell.splits)
    with Some wf v show ?thesis
      by (intro deep_copiedI [of _ "fst (alloc (LibraryCell m) h)" "(fst s, Some (next_addr h))"])
        (auto simp: map_struct_copy_def map_struct_val_def map_struct_reach_def alloc_def
          wf_heap_def ext_def)
  qed
next
  fix h h' :: "(map_struct, labels) store" and s d
  assume "map_struct_val conv h s = Some d" and "\<forall>a\<in>map_struct_reach h s. cells h' a = cells h a"
  then show "map_struct_val conv h' s = Some d \<and> map_struct_reach h' s = map_struct_reach h s"
    by (auto simp: map_struct_val_def map_struct_reach_def split: option.splits)
next
  fix h :: "(map_struct, labels) store" and s d
  assume "wf_heap h" and "map_struct_val conv h s = Some d"
  then show "map_struct_reach h s \<subseteq> {..<next_addr h}"
    by (auto simp: map_struct_val_def map_struct_reach_def wf_heap_def not_le [symmetric]
        split: option.splits)
qed

interpretation map_api: api_libs map_lib map_view
  by (rule api_libs.intro) (simp_all add: map_lib_def map_view_def map_structs)

section \<open>What the copies promise\<close>

abbreviation policy_ptr_val where
  "policy_ptr_val lib view \<equiv> ptr_val (policy_kind lib) (policy_val lib view)"

abbreviation policy_ptr_reach where
  "policy_ptr_reach lib view \<equiv> ptr_reach (policy_kind lib) (policy_reach lib view)"

abbreviation policy_list_ptr_val where
  "policy_list_ptr_val lib view \<equiv> ptr_val (policy_list_kind lib) (policy_list_val lib view)"

abbreviation policy_list_ptr_reach where
  "policy_list_ptr_reach lib view \<equiv> ptr_reach (policy_list_kind lib) (policy_list_reach lib view)"

text \<open>A copy function never gets stuck on well-typed data, and its result is well-typed.\<close>

definition type_sound :: "('v, 'x, ptr option) copier \<Rightarrow>
    (('v, 'x) store \<Rightarrow> ptr option \<Rightarrow> 'd option) \<Rightarrow> ('v, 'x) store \<Rightarrow> bool" where
  "type_sound copy val h \<longleftrightarrow>
     (\<forall>p. val h p \<noteq> None \<longrightarrow>
        (\<exists>h' q. copy h p = Some (h', q) \<and> wf_heap h' \<and> val h' q \<noteq> None \<and> val h' p \<noteq> None))"

lemma type_soundI:
  assumes "deep_copyable copy val reach" and "wf_heap h"
  shows "type_sound copy val h"
  unfolding type_sound_def
proof (intro allI impI)
  fix p assume "val h p \<noteq> None"
  then obtain d where d: "val h p = Some d" by blast
  from deep_copyable.copies [OF assms(1,2) d] obtain h' q where
    "copy h p = Some (h', q)" "wf_heap h'" "ext h h'" "val h' q = Some d" by (rule deep_copiedE)
  moreover from this have "val h' p = Some d"
    using deep_copyable.stable [OF assms(1,2) d] by blast
  ultimately show "\<exists>h' q. copy h p = Some (h', q) \<and> wf_heap h' \<and> val h' q \<noteq> None \<and> val h' p \<noteq> None"
    by auto
qed

text \<open>
  C29: deep copies are type sound: for every struct type of the API, copying a well-typed
  pointer (nil included) succeeds, the heap stays well-formed, and both the copy and the
  original are well-typed afterwards.
\<close>

lemma deep_copies_type_sound:
  assumes "api_libs lib view" and "wf_heap h"
  shows "type_sound NetworkSelector_DeepCopy (ptr_val selector_kind (\<lambda>h. Some)) h \<and>
    type_sound (NetworkPolicyPeer_DeepCopy lib) (ptr_val (peer_kind lib) (peer_val view)) h \<and>
    type_sound (NetworkPolicyIngressRule_DeepCopy lib) (ptr_val ingress_kind (ingress_val lib view)) h \<and>
    type_sound (NetworkPolicyEgressRule_DeepCopy lib) (ptr_val egress_kind (egress_val lib view)) h \<and>
    type_sound (NetPolSpec_DeepCopy lib) (ptr_val (spec_kind lib) (spec_val lib view)) h \<and>
    type_sound (DanmNetworkPolicy_DeepCopy lib) (policy_ptr_val lib view) h \<and>
    type_sound (DanmNetworkPolicyList_DeepCopy lib) (policy_list_ptr_val lib view) h"
  by (intro conjI type_soundI [OF _ assms(2)]; rule api_libs.pointers [OF assms(1)]
      selector_ptr.deep_copyable_axioms)

text \<open>
  C15: \<open>DeepCopyObject\<close> of a list refines the identity on API values: it yields a non-nil
  object at a fresh address that denotes the same policies as the original, which it leaves
  as it was, along with every other old cell.
\<close>

lemma deep_copy_refines_identity:
  assumes "api_libs lib view" and "wf_heap h"
    and "policy_list_ptr_val lib view h (Some p) = Some (Some l)"
  shows "\<exists>h' q. DanmNetworkPolicyList_DeepCopyObject lib h (Some p) = Some (h', PolicyListObject (Some q)) \<and>
    next_addr h \<le> fst q \<and> ext h h' \<and> wf_heap h' \<and>
    policy_list_ptr_val lib view h' (Some q) = Some (Some l) \<and>
    policy_list_ptr_val lib view h' (Some p) = Some (Some l)"
proof -
  note lists = api_libs.pointers(1) [OF assms(1)]
  from deep_copyable.copies [OF lists assms(2,3)] obtain h' q where
    c: "DanmNetworkPolicyList_DeepCopy lib h (Some p) = Some (h', q)" "wf_heap h'" "ext h h'"
      "policy_list_ptr_val lib view h' q = Some (Some l)"
      "policy_list_ptr_reach lib view h' q \<subseteq> {next_addr h..<next_addr h'}" by (rule deep_copiedE)
  from c(4) obtain r where q: "q = Some r" by (cases q) (simp_all add: ptr_val_def)
  with c(5) have "next_addr h \<le> fst r" by (simp add: ptr_reach_def)
  with c q deep_copyable.stable [OF lists assms(2,3) c(3)] show ?thesis
    by (auto simp: DanmNetworkPolicyList_DeepCopyObject_def)
qed

text \<open>
  C16: a policy and its deep copy do not share memory: whatever is written later to cells the
  copy reaches, the original still denotes the same policy, and whatever is written to cells
  the original reaches, the copy still does.
\<close>

lemma deep_copy_isolated:
  assumes "api_libs lib view" and "wf_heap h"
    and "policy_ptr_val lib view h (Some p) = Some (Some pol)"
    and "DanmNetworkPolicy_DeepCopy lib h (Some p) = Some (h', q)"
    and "\<forall>a. a \<notin> policy_ptr_reach lib view h' q \<longrightarrow> cells h2 a = cells h' a"
    and "\<forall>a. a \<notin> policy_ptr_reach lib view h' (Some p) \<longrightarrow> cells h3 a = cells h' a"
  shows "policy_ptr_val lib view h2 (Some p) = Some (Some pol) \<and>
    policy_ptr_val lib view h3 q = Some (Some pol)"
proof -
  note ptrs = api_libs.pointers(2) [OF assms(1)]
  from deep_copyable.copies [OF ptrs assms(2,3)] assms(4)
  have c: "ext h h'" "policy_ptr_val lib view h' q = Some (Some pol)"
    "policy_ptr_reach lib view h' q \<subseteq> {next_addr h..<next_addr h'}"
    by (auto elim!: deep_copiedE)
  have old: "policy_ptr_reach lib view h' (Some p) \<subseteq> {..<next_addr h}"
    "policy_ptr_val lib view h' (Some p) = Some (Some pol)"
    using deep_copyable.stable [OF ptrs assms(2,3) c(1)]
      deep_copyable.allocated [OF ptrs assms(2,3)] by auto
  have "{..<next_addr h} \<inter> {next_addr h..<next_addr h'} = {}" by auto
  with c(3) old(1)
  have disj: "policy_ptr_reach lib view h' (Some p) \<inter> policy_ptr_reach lib view h' q = {}" by blast
  have "\<forall>a\<in>policy_ptr_reach lib view h' (Some p). cells h2 a = cells h' a"
    using assms(5) disj by blast
  moreover have "\<forall>a\<in>policy_ptr_reach lib view h' q. cells h3 a = cells h' a"
    using assms(6) disj by blast
  ultimately show ?thesis
    using deep_copyable.framed [OF ptrs old(2)] deep_copyable.framed [OF ptrs c(2)] by blast
qed

section \<open>An example store\<close>

text \<open>
  One policy whose object metadata and Pod selector share one map, and whose single peer is
  the second element of an array of two.
\<close>

definition stored_peer :: "map_struct go_peer" where
  "stored_peer = \<lparr>gPeerPodSelector = ([], Some 5), gPeerNamespaceSelector = ([], None),
     gPeerNetworkSelector = Slice 4 0 1\<rparr>"

definition example_store :: "(map_struct, labels) store" where
  "example_store = \<lparr>cells = [
     0 \<mapsto> PolicyListArray [\<lparr>gListTypeMeta = \<lparr>Kind = ''DanmNetworkPolicyList'', APIVersion = ''v1''\<rparr>,
       gListMeta = (''7'', None), gItems = Slice 1 0 1\<rparr>],
     1 \<mapsto> PolicyArray [\<lparr>gTypeMeta = \<lparr>Kind = ''DanmNetworkPolicy'', APIVersion = ''v1''\<rparr>,
       gObjectMeta = (''front'', Some 5),
       gSpec = \<lparr>gPodSelector = ([], Some 5), gIngress = Slice 2 0 1, gEgress = NilSlice,
         gPolicyTypes = Slice 6 0 1\<rparr>\<rparr>],
     2 \<mapsto> IngressArray [\<lparr>gIngressPorts = NilSlice, gFrom = Slice 3 1 1\<rparr>],
     3 \<mapsto> PeerArray [stored_peer\<lparr>gPeerNetworkSelector := NilSlice\<rparr>, stored_peer],
     4 \<mapsto> SelectorArray [\<lparr>SelName = ''internal'', SelType = ''DanmNet''\<rparr>],
     5 \<mapsto> LibraryCell [(''app'', ''web'')],
     6 \<mapsto> PolicyTypeArray [''Ingress'']],
     next_addr = 7\<rparr>"

definition stored_policy :: danm_network_policy where
  "stored_policy =
     (let web = \<lparr>MatchLabels = [(''app'', ''web'')], MatchExpressions = []\<rparr> in
      \<lparr>PolTypeMeta = \<lparr>Kind = ''DanmNetworkPolicy'', APIVersion = ''v1''\<rparr>,
       PolMeta = \<lparr>Name = ''front'', Namespace = [], UID = [], Labels = [(''app'', ''web'')],
         ResourceVersion = []\<rparr>,
       PolSpec = \<lparr>PodSelector = web,
         Ingress = [\<lparr>IngressPorts = [], From = [\<lparr>PeerPodSelector = web,
           PeerNamespaceSelector = \<lparr>MatchLabels = [], MatchExpressions = []\<rparr>,
           PeerNetworkSelector = [\<lparr>SelName = ''internal'', SelType = ''DanmNet''\<rparr>]\<rparr>]\<rparr>],
         Egress = [], PolicyTypes = [''Ingress'']\<rparr>\<rparr>)"

lemma wf_example_store: "wf_heap example_store"
  by (simp add: wf_heap_def example_store_def)

lemmas eval_store = example_store_def stored_peer_def ptr_val_def read_elem_def array_at_def
  policy_list_kind_def policy_kind_def peer_kind_def ingress_kind_def egress_kind_def
  selector_kind_def policy_type_kind_def policy_list_val_def policy_val_def spec_val_def
  ingress_val_def peer_val_def slice_val_def map_view_def map_struct_val_def

lemma example_policy_val: "policy_ptr_val map_lib map_view example_store (Some (1, 0)) = Some (Some stored_policy)"
  by (simp add: eval_store stored_policy_def Let_def)

lemma example_list_val: "policy_list_ptr_val map_lib map_view example_store (Some (0, 0)) =
    Some (Some \<lparr>ListTypeMeta = \<lparr>Kind = ''DanmNetworkPolicyList'', APIVersion = ''v1''\<rparr>,
      ListMeta = ''7'', Items = [stored_policy]\<rparr>)"
  by (simp add: eval_store stored_policy_def Let_def)

lemma deep_copies_type_sound_witness:
  "policy_list_ptr_val map_lib map_view example_store (Some (0, 0)) \<noteq> None \<and>
   type_sound (DanmNetworkPolicyList_DeepCopy map_lib) (policy_list_ptr_val map_lib map_view) example_store"
  using deep_copies_type_sound [OF map_api.api_libs_axioms wf_example_store] example_list_val
  by simp

lemma deep_copy_refines_identity_witness:
  "\<exists>h' q. DanmNetworkPolicyList_DeepCopyObject map_lib example_store (Some (0, 0)) =
       Some (h', PolicyListObject (Some q)) \<and>
     map_option (map_option Items) (policy_list_ptr_val map_lib map_view h' (Some q)) =
       Some (Some [stored_policy])"
  using deep_copy_refines_identity
    [OF map_api.api_libs_axioms wf_example_store example_list_val] by auto

definition erase :: "addr set \<Rightarrow> 'c heap \<Rightarrow> 'c heap" where
  "erase S h = h\<lparr>cells := (\<lambda>a. if a \<in> S then None else cells h a)\<rparr>"

lemma deep_copy_isolated_witness:
  "\<exists>h' q. DanmNetworkPolicy_DeepCopy map_lib example_store (Some (1, 0)) = Some (h', q) \<and>
     policy_ptr_val map_lib map_view (erase (policy_ptr_reach map_lib map_view h' q) h') (Some (1, 0)) =
       Some (Some stored_policy) \<and>
     policy_ptr_val map_lib map_view
       (erase (policy_ptr_reach map_lib map_view h' (Some (1, 0))) h') q = Some (Some stored_policy)"
proof -
  have "type_sound (DanmNetworkPolicy_DeepCopy map_lib) (policy_ptr_val map_lib map_view) example_store"
    by (rule type_soundI [OF map_api.pointers(2) wf_example_store])
  with example_policy_val obtain h' q where
    copy: "DanmNetworkPolicy_DeepCopy map_lib example_store (Some (1, 0)) = Some (h', q)"
    unfolding type_sound_def by fastforce
  have "\<forall>a. a \<notin> S \<longrightarrow> cells (erase S h') a = cells h' a" for S by (simp add: erase_def)
  from deep_copy_isolated [OF map_api.api_libs_axioms wf_example_store example_policy_val copy
      this this] copy
  show ?thesis by blast
qed

end
