(* ===== verification/Netpolclient.thy ===== *)
theory Netpolclient
  imports Poltypes "HOL-Library.Word" Complex_Main
begin

text \<open>
  The registration of the API types (\<open>crd/api/netpol\<close>, the \<open>register.go\<close> files of the client
  set) and the generated REST client: the client set of
  \<open>crd/client/clientset/versioned/clientset.go\<close>, the group client \<open>netpol_client.go\<close> and the
  resource client \<open>danmnetworkpolicy.go\<close>. client-go and apimachinery are parameters. A request
  is the list of builder calls the code makes on it, ended by the call that sends it.
\<close>

section \<open>Scheme registration\<close>

definition GroupName :: string where [const_defs]:
  "GroupName = ''danm.k8s.io''"

record group_version =
  Group :: string
  Version :: string

record group_version_kind =
  KindGroup :: string
  KindVersion :: string
  KindName :: string

record group_version_resource =
  ResGroup :: string
  ResVersion :: string
  ResName :: string

record group_kind =
  GkGroup :: string
  GkKind :: string

record group_resource =
  GrGroup :: string
  GrResource :: string

definition SchemeGroupVersion :: group_version where [const_defs]:
  "SchemeGroupVersion = \<lparr>Group = GroupName, Version = ''v1''\<rparr>"

text \<open>\<open>WithKind(k).GroupKind()\<close> and \<open>WithResource(r).GroupResource()\<close> of apimachinery keep the group.\<close>

definition WithResource :: "group_version \<Rightarrow> string \<Rightarrow> group_version_resource" where
  "WithResource gv r = \<lparr>ResGroup = Group gv, ResVersion = Version gv, ResName = r\<rparr>"

definition GroupResource :: "group_version_resource \<Rightarrow> group_resource" where
  "GroupResource gvr = \<lparr>GrGroup = ResGroup gvr, GrResource = ResName gvr\<rparr>"

definition v1_Kind :: "string \<Rightarrow> group_kind" where
  "v1_Kind kind = \<lparr>GkGroup = Group SchemeGroupVersion, GkKind = kind\<rparr>"

definition v1_Resource :: "string \<Rightarrow> group_resource" where
  "v1_Resource resource = GroupResource (WithResource SchemeGroupVersion resource)"

text \<open>
  The Go types the API registers, and what apimachinery offers for it: \<open>AddKnownTypes\<close>,
  \<open>AddToGroupVersion\<close>, and running the functions of a scheme builder.
\<close>

datatype go_type = TDanmNetworkPolicy | TDanmNetworkPolicyList

record 's scheme_lib =
  NewScheme :: 's
  AddKnownTypes :: "'s \<Rightarrow> group_version \<Rightarrow> go_type list \<Rightarrow> 's"
  AddToGroupVersion :: "'s \<Rightarrow> group_version \<Rightarrow> 's"
  RunBuilder :: "('s \<Rightarrow> string option \<times> 's) list \<Rightarrow> 's \<Rightarrow> string option \<times> 's"

definition addKnownTypes :: "'s scheme_lib \<Rightarrow> 's \<Rightarrow> string option \<times> 's" where
  "addKnownTypes lib scheme =
     (let scheme = AddKnownTypes lib scheme SchemeGroupVersion [TDanmNetworkPolicy, TDanmNetworkPolicyList];
          scheme = AddToGroupVersion lib scheme SchemeGroupVersion
      in (None, scheme))"

definition AddToScheme :: "'s scheme_lib \<Rightarrow> 's \<Rightarrow> string option \<times> 's" where
  "AddToScheme lib = RunBuilder lib [addKnownTypes lib]"

text \<open>
  The scheme package of the client set: its builder, and \<open>init\<close>, where \<open>utilruntime.Must\<close> panics on an
  error, which is the left value.
\<close>

definition localSchemeBuilder :: "'s scheme_lib \<Rightarrow> ('s \<Rightarrow> string option \<times> 's) list" where
  "localSchemeBuilder lib = [AddToScheme lib]"

definition scheme_AddToScheme :: "'s scheme_lib \<Rightarrow> 's \<Rightarrow> string option \<times> 's" where
  "scheme_AddToScheme lib = RunBuilder lib (localSchemeBuilder lib)"

definition init_scheme :: "'s scheme_lib \<Rightarrow> string + 's" where
  "init_scheme lib =
     (let scheme = AddToGroupVersion lib (NewScheme lib) \<lparr>Group = [], Version = ''v1''\<rparr>
      in case scheme_AddToScheme lib scheme of
           (Some err, _) \<Rightarrow> Inl err
         | (None, scheme) \<Rightarrow> Inr scheme)"

section \<open>Configurations and clients\<close>

text \<open>
  The fields of \<open>rest.Config\<close> the code touches, \<open>'l\<close> the rate limiters and \<open>'s\<close> the serializers.
  \<open>QPS\<close> is a \<open>float32\<close> that is only compared with zero: a rational number (the infinities
  and NaN are left out). Further fields are \<open>'x\<close>, copied along.
\<close>

record ('l, 's, 'x) rest_config =
  GroupVersion :: "group_version option"
  APIPath :: string
  NegotiatedSerializer :: "'s option"
  UserAgent :: string
  QPS :: rat
  Burst :: int
  RateLimiter :: "'l option"
  Rest :: 'x

text \<open>
  What client-go offers: the REST client and the discovery client for a configuration, with
  \<open>NewDiscoveryClientForConfigOrDie\<close> panicking where the former errs, the clients for a given
  REST client, and the token bucket.
\<close>

record ('l, 's, 'x, 'r, 'd) client_lib =
  RESTClientFor :: "('l, 's, 'x) rest_config \<Rightarrow> string + 'r"
  NewDiscoveryClientForConfig :: "('l, 's, 'x) rest_config \<Rightarrow> string + 'd"
  NewDiscoveryClient :: "'r \<Rightarrow> 'd"
  NewTokenBucketRateLimiter :: "rat \<Rightarrow> int \<Rightarrow> 'l"
  DefaultKubernetesUserAgent :: string
  CodecsWithoutConversion :: 's

definition setConfigDefaults ::
  "('l, 's, 'x, 'r, 'd) client_lib \<Rightarrow> ('l, 's, 'x) rest_config \<Rightarrow> ('l, 's, 'x) rest_config" where
  "setConfigDefaults lib config =
     (let gv = SchemeGroupVersion;
          config = config\<lparr>GroupVersion := Some gv\<rparr>;
          config = config\<lparr>APIPath := ''/apis''\<rparr>;
          config = config\<lparr>NegotiatedSerializer := Some (CodecsWithoutConversion lib)\<rparr>
      in if UserAgent config = [] then config\<lparr>UserAgent := DefaultKubernetesUserAgent lib\<rparr>
         else config)"

record 'r netpol_v1_client =
  restClient :: 'r

definition netpolv1_NewForConfig ::
  "('l, 's, 'x, 'r, 'd) client_lib \<Rightarrow> ('l, 's, 'x) rest_config \<Rightarrow> string + 'r netpol_v1_client" where
  "netpolv1_NewForConfig lib c =
     (let config = setConfigDefaults lib c
      in case RESTClientFor lib config of
           Inl err \<Rightarrow> Inl err
         | Inr client \<Rightarrow> Inr \<lparr>restClient = client\<rparr>)"

text \<open>The left value of the \<open>OrDie\<close> functions is the panic with that error.\<close>

definition netpolv1_NewForConfigOrDie ::
  "('l, 's, 'x, 'r, 'd) client_lib \<Rightarrow> ('l, 's, 'x) rest_config \<Rightarrow> string + 'r netpol_v1_client" where
  "netpolv1_NewForConfigOrDie lib c =
     (case netpolv1_NewForConfig lib c of Inl err \<Rightarrow> Inl err | Inr client \<Rightarrow> Inr client)"

definition netpolv1_New :: "'r \<Rightarrow> 'r netpol_v1_client" where
  "netpolv1_New c = \<lparr>restClient = c\<rparr>"

text \<open>\<open>None\<close> is the nil client, whose REST client is nil.\<close>

definition RESTClient :: "'r netpol_v1_client option \<Rightarrow> 'r option" where
  "RESTClient c = (case c of None \<Rightarrow> None | Some c \<Rightarrow> Some (restClient c))"

record ('r, 'd) clientset =
  DiscoveryClient :: 'd
  netpolV1 :: "'r netpol_v1_client"

definition NetpolV1 :: "('r, 'd) clientset \<Rightarrow> 'r netpol_v1_client" where
  "NetpolV1 c = netpolV1 c"

definition Discovery :: "('r, 'd) clientset option \<Rightarrow> 'd option" where
  "Discovery c = (case c of None \<Rightarrow> None | Some c \<Rightarrow> Some (DiscoveryClient c))"

definition burst_error :: string where
  "burst_error = ''burst is required to be greater than 0 when RateLimiter is not set and QPS is set to greater than 0''"

definition NewForConfig ::
  "('l, 's, 'x, 'r, 'd) client_lib \<Rightarrow> ('l, 's, 'x) rest_config \<Rightarrow> string + ('r, 'd) clientset" where
  "NewForConfig lib c =
     (let configShallowCopy = c
      in case (if RateLimiter configShallowCopy = None \<and> QPS configShallowCopy > 0 then
                 (if Burst configShallowCopy \<le> 0 then Inl burst_error
                  else Inr (configShallowCopy\<lparr>RateLimiter := Some (NewTokenBucketRateLimiter lib
                         (QPS configShallowCopy) (Burst configShallowCopy))\<rparr>))
               else Inr configShallowCopy) of
           Inl err \<Rightarrow> Inl err
         | Inr configShallowCopy \<Rightarrow>
             (case netpolv1_NewForConfig lib configShallowCopy of
                Inl err \<Rightarrow> Inl err
              | Inr netpol \<Rightarrow>
                  (case NewDiscoveryClientForConfig lib configShallowCopy of
                     Inl err \<Rightarrow> Inl err
                   | Inr discovery \<Rightarrow> Inr \<lparr>DiscoveryClient = discovery, netpolV1 = netpol\<rparr>)))"

definition NewForConfigOrDie ::
  "('l, 's, 'x, 'r, 'd) client_lib \<Rightarrow> ('l, 's, 'x) rest_config \<Rightarrow> string + ('r, 'd) clientset" where
  "NewForConfigOrDie lib c =
     (case netpolv1_NewForConfigOrDie lib c of
        Inl err \<Rightarrow> Inl err
      | Inr netpol \<Rightarrow>
          (case NewDiscoveryClientForConfig lib c of
             Inl err \<Rightarrow> Inl err
           | Inr discovery \<Rightarrow> Inr \<lparr>DiscoveryClient = discovery, netpolV1 = netpol\<rparr>))"

definition clientset_New :: "('l, 's, 'x, 'r, 'd) client_lib \<Rightarrow> 'r \<Rightarrow> ('r, 'd) clientset" where
  "clientset_New lib c =
     \<lparr>DiscoveryClient = NewDiscoveryClient lib c, netpolV1 = netpolv1_New c\<rparr>"

section \<open>Requests\<close>

text \<open>The options of the API with the fields the client reads or writes.\<close>

record list_options =
  OptLabelSelector :: string
  OptFieldSelector :: string
  OptWatch :: bool
  TimeoutSeconds :: "64 word option"

type_synonym api_options = "(string \<times> string) list"

datatype req_verb = GET | POST | PUT | DELETE | PATCH string

datatype req_params =
  ParamsOptions api_options
| ParamsList list_options

datatype req_body =
  BodyPolicy danm_network_policy
| BodyOptions api_options
| BodyData string

datatype req_step =
  Verb req_verb
| ReqNamespace string
| ReqResource string
| ReqName string
| SubResource "string list"
| VersionedParams req_params
| Timeout "64 word"
| Body req_body

type_synonym request = "req_step list"

datatype 'r client_event =
  DoRequest 'r request
| WatchRequest 'r request

text \<open>
  What the REST client answers to a request that is sent: \<open>Into\<close> decodes the answer into the
  fresh result and reports an error, and the result is returned whatever the error.
\<close>

record ('r, 'w) client_env =
  policy_answer :: "'r client_event list \<Rightarrow> 'r \<Rightarrow> request \<Rightarrow> danm_network_policy \<times> string option"
  list_answer :: "'r client_event list \<Rightarrow> 'r \<Rightarrow> request \<Rightarrow> danm_network_policy list \<times> string option"
  error_answer :: "'r client_event list \<Rightarrow> 'r \<Rightarrow> request \<Rightarrow> string option"
  watch_answer :: "'r client_event list \<Rightarrow> 'r \<Rightarrow> request \<Rightarrow> string + 'w"

text \<open>\<open>time.Duration(seconds) * time.Second\<close> in the 64-bit arithmetic of Go.\<close>

definition Second :: "64 word" where
  "Second = 1000000000"

definition list_timeout :: "list_options \<Rightarrow> 64 word" where
  "list_timeout opts =
     (case TimeoutSeconds opts of None \<Rightarrow> 0 | Some seconds \<Rightarrow> seconds * Second)"

record 'r danm_network_policies =
  rest_client :: "'r option"
  client_ns :: string

definition newDanmNetworkPolicies :: "'r netpol_v1_client option \<Rightarrow> string \<Rightarrow> 'r danm_network_policies" where
  "newDanmNetworkPolicies c namespace = \<lparr>rest_client = RESTClient c, client_ns = namespace\<rparr>"

definition DanmNetworkPolicies :: "'r netpol_v1_client option \<Rightarrow> string \<Rightarrow> 'r danm_network_policies" where
  "DanmNetworkPolicies c namespace = newDanmNetworkPolicies c namespace"

text \<open>Sending a request; without a REST client the call is on a nil interface.\<close>

definition send ::
  "'r danm_network_policies \<Rightarrow> ('r \<Rightarrow> ('ev, 'a) io) \<Rightarrow> ('ev, 'a go) io" where
  "send c call =
     (case rest_client c of
        None \<Rightarrow> ret (Inl NilDereference)
      | Some client \<Rightarrow> do { answer \<leftarrow> call client; ret (Inr answer) })"

definition policies_resource :: string where [const_defs]:
  "policies_resource = ''danmnetworkpolicies''"

definition client_Get :: "('r, 'w) client_env \<Rightarrow> 'r danm_network_policies \<Rightarrow> string \<Rightarrow> api_options \<Rightarrow>
    ('r client_event, (danm_network_policy \<times> string option) go) io" where
  "client_Get env c name options =
     (let req = [Verb GET, ReqNamespace (client_ns c), ReqResource policies_resource, ReqName name,
        VersionedParams (ParamsOptions options)]
      in send c (\<lambda>client. perform (\<lambda>h. policy_answer env h client req) (DoRequest client req)))"

definition client_List :: "('r, 'w) client_env \<Rightarrow> 'r danm_network_policies \<Rightarrow> list_options \<Rightarrow>
    ('r client_event, (danm_network_policy list \<times> string option) go) io" where
  "client_List env c opts =
     (let timeout = list_timeout opts;
          req = [Verb GET, ReqNamespace (client_ns c), ReqResource policies_resource,
            VersionedParams (ParamsList opts), Timeout timeout]
      in send c (\<lambda>client. perform (\<lambda>h. list_answer env h client req) (DoRequest client req)))"

definition client_Watch :: "('r, 'w) client_env \<Rightarrow> 'r danm_network_policies \<Rightarrow> list_options \<Rightarrow>
    ('r client_event, (string + 'w) go) io" where
  "client_Watch env c opts =
     (let timeout = list_timeout opts;
          opts = opts\<lparr>OptWatch := True\<rparr>;
          req = [Verb GET, ReqNamespace (client_ns c), ReqResource policies_resource,
            VersionedParams (ParamsList opts), Timeout timeout]
      in send c (\<lambda>client. perform (\<lambda>h. watch_answer env h client req) (WatchRequest client req)))"

definition client_Create :: "('r, 'w) client_env \<Rightarrow> 'r danm_network_policies \<Rightarrow> danm_network_policy \<Rightarrow>
    api_options \<Rightarrow> ('r client_event, (danm_network_policy \<times> string option) go) io" where
  "client_Create env c policy opts =
     (let req = [Verb POST, ReqNamespace (client_ns c), ReqResource policies_resource,
        VersionedParams (ParamsOptions opts), Body (BodyPolicy policy)]
      in send c (\<lambda>client. perform (\<lambda>h. policy_answer env h client req) (DoRequest client req)))"

definition client_Update :: "('r, 'w) client_env \<Rightarrow> 'r danm_network_policies \<Rightarrow> danm_network_policy \<Rightarrow>
    api_options \<Rightarrow> ('r client_event, (danm_network_policy \<times> string option) go) io" where
  "client_Update env c policy opts =
     (let req = [Verb PUT, ReqNamespace (client_ns c), ReqResource policies_resource,
        ReqName (Name (PolMeta policy)), VersionedParams (ParamsOptions opts), Body (BodyPolicy policy)]
      in send c (\<lambda>client. perform (\<lambda>h. policy_answer env h client req) (DoRequest client req)))"

definition client_Delete :: "('r, 'w) client_env \<Rightarrow> 'r danm_network_policies \<Rightarrow> string \<Rightarrow> api_options \<Rightarrow>
    ('r client_event, (string option) go) io" where
  "client_Delete env c name opts =
     (let req = [Verb DELETE, ReqNamespace (client_ns c), ReqResource policies_resource, ReqName name,
        Body (BodyOptions opts)]
      in send c (\<lambda>client. perform (\<lambda>h. error_answer env h client req) (DoRequest client req)))"

definition client_DeleteCollection :: "('r, 'w) client_env \<Rightarrow> 'r danm_network_policies \<Rightarrow> api_options \<Rightarrow>
    list_options \<Rightarrow> ('r client_event, (string option) go) io" where
  "client_DeleteCollection env c opts listOpts =
     (let timeout = list_timeout listOpts;
          req = [Verb DELETE, ReqNamespace (client_ns c), ReqResource policies_resource,
            VersionedParams (ParamsList listOpts), Timeout timeout, Body (BodyOptions opts)]
      in send c (\<lambda>client. perform (\<lambda>h. error_answer env h client req) (DoRequest client req)))"

definition client_Patch :: "('r, 'w) client_env \<Rightarrow> 'r danm_network_policies \<Rightarrow> string \<Rightarrow> string \<Rightarrow> string \<Rightarrow>
    api_options \<Rightarrow> string list \<Rightarrow> ('r client_event, (danm_network_policy \<times> string option) go) io" where
  "client_Patch env c name pt data opts subresources =
     (let req = [Verb (PATCH pt), ReqNamespace (client_ns c), ReqResource policies_resource,
        ReqName name, SubResource subresources, VersionedParams (ParamsOptions opts),
        Body (BodyData data)]
      in send c (\<lambda>client. perform (\<lambda>h. policy_answer env h client req) (DoRequest client req)))"

section \<open>The interface of the resource client\<close>

text \<open>
  \<open>DanmNetworkPolicyInterface\<close>, which the REST client and the fake client implement: an object or
  list is a pointer, \<open>None\<close> when it is nil, and comes with an error. A call on a nil client panics.
\<close>

record ('ev, 'w) policy_interface =
  CreateMethod :: "danm_network_policy \<Rightarrow> api_options \<Rightarrow> ('ev, (danm_network_policy option \<times> string option) go) io"
  UpdateMethod :: "danm_network_policy \<Rightarrow> api_options \<Rightarrow> ('ev, (danm_network_policy option \<times> string option) go) io"
  DeleteMethod :: "string \<Rightarrow> api_options \<Rightarrow> ('ev, string option go) io"
  DeleteCollectionMethod :: "api_options \<Rightarrow> list_options \<Rightarrow> ('ev, string option go) io"
  GetMethod :: "string \<Rightarrow> api_options \<Rightarrow> ('ev, (danm_network_policy option \<times> string option) go) io"
  ListMethod :: "list_options \<Rightarrow> ('ev, (danm_network_policy list option \<times> string option) go) io"
  WatchMethod :: "list_options \<Rightarrow> ('ev, ('w option \<times> string option) go) io"
  PatchMethod :: "string \<Rightarrow> string \<Rightarrow> string \<Rightarrow> api_options \<Rightarrow> string list \<Rightarrow>
    ('ev, (danm_network_policy option \<times> string option) go) io"

text \<open>The REST client as an implementation: it never answers a nil object.\<close>

definition answering :: "('a \<Rightarrow> 'b) \<Rightarrow> ('ev, 'a go) io \<Rightarrow> ('ev, 'b go) io" where
  "answering f m = do { r \<leftarrow> m; ret (go_bind r (\<lambda>x. Inr (f x))) }"

definition rest_interface ::
  "('r, 'w) client_env \<Rightarrow> 'r danm_network_policies \<Rightarrow> ('r client_event, 'w) policy_interface" where
  "rest_interface env c =
     \<lparr>CreateMethod = \<lambda>policy opts. answering (apfst Some) (client_Create env c policy opts),
      UpdateMethod = \<lambda>policy opts. answering (apfst Some) (client_Update env c policy opts),
      DeleteMethod = client_Delete env c,
      DeleteCollectionMethod = client_DeleteCollection env c,
      GetMethod = \<lambda>name opts. answering (apfst Some) (client_Get env c name opts),
      ListMethod = \<lambda>opts. answering (apfst Some) (client_List env c opts),
      WatchMethod = \<lambda>opts. answering (case_sum (\<lambda>err. (None, Some err)) (\<lambda>w. (Some w, None))) (client_Watch env c opts),
      PatchMethod = \<lambda>name pt data opts subresources.
        answering (apfst Some) (client_Patch env c name pt data opts subresources)\<rparr>"

section \<open>The interfaces of the client set\<close>

text \<open>
  The interfaces a client set and the client of the group implement, as the values of their methods. An
  interface value holds a pointer, which may be nil; that is not the nil interface. The interface of
  the group embeds the getter of its resource.
\<close>

datatype 'a go_interface = NilInterface | Holding "'a option"

fun interface_or_nil :: "'a option \<Rightarrow> 'a go_interface" where
  "interface_or_nil None = NilInterface"
| "interface_or_nil (Some x) = Holding (Some x)"

record ('ev, 'w) policies_getter =
  DanmNetworkPoliciesMethod :: "string \<Rightarrow> ('ev, 'w) policy_interface"

record ('ev, 'w, 'r) netpol_v1_interface = "('ev, 'w) policies_getter" +
  RESTClientMethod :: "'r go_interface"

record ('ev, 'w, 'r, 'd) clientset_interface =
  DiscoveryMethod :: "'d go_interface"
  NetpolV1Method :: "('ev, 'w, 'r) netpol_v1_interface"

text \<open>The generated client set as an implementation.\<close>

definition rest_netpol_v1 :: "('r, 'w) client_env \<Rightarrow> 'r netpol_v1_client option \<Rightarrow>
    ('r client_event, 'w, 'r) netpol_v1_interface" where
  "rest_netpol_v1 env c =
     \<lparr>DanmNetworkPoliciesMethod = \<lambda>namespace. rest_interface env (DanmNetworkPolicies c namespace),
      RESTClientMethod = interface_or_nil (RESTClient c)\<rparr>"

definition rest_clientset :: "('r, 'w) client_env \<Rightarrow> ('r, 'd) clientset \<Rightarrow>
    ('r client_event, 'w, 'r, 'd) clientset_interface" where
  "rest_clientset env c =
     \<lparr>DiscoveryMethod = interface_or_nil (Discovery (Some c)), NetpolV1Method = rest_netpol_v1 env (Some (NetpolV1 c))\<rparr>"

section \<open>Properties of the client\<close>

text \<open>
  C34: the client-side timeout of List, Watch and DeleteCollection is the requested number of
  seconds in nanoseconds exactly when that number fits into 64 bits, up to 9223372036 seconds;
  beyond, the multiplication wraps around.
\<close>

lemma list_timeout_exact:
  "sint (list_timeout (opts\<lparr>TimeoutSeconds := Some seconds\<rparr>)) = sint seconds * 1000000000 \<longleftrightarrow>
     - 9223372036 \<le> sint seconds \<and> sint seconds \<le> 9223372036"
proof -
  have s: "sint Second = 1000000000" by (simp add: Second_def)
  have "sint (seconds * Second) = signed_take_bit 63 (sint seconds * sint Second)"
    by (simp add: sint_word_ariths)
  then have "sint (list_timeout (opts\<lparr>TimeoutSeconds := Some seconds\<rparr>)) =
      signed_take_bit 63 (sint seconds * 1000000000)"
    by (simp add: list_timeout_def s)
  moreover have "signed_take_bit 63 (k :: int) = k \<longleftrightarrow> - (2 ^ 63) \<le> k \<and> k < 2 ^ 63" for k
    by (rule signed_take_bit_int_eq_self_iff)
  moreover have "- (2 ^ 63) \<le> n * 1000000000 \<and> n * 1000000000 < 2 ^ 63 \<longleftrightarrow>
      - 9223372036 \<le> n \<and> n \<le> 9223372036" for n :: int by (simp, linarith)
  ultimately show ?thesis by metis
qed

text \<open>
  What a request addresses. The operations of the resource client as data, with the verb and
  the object name each stands for.
\<close>

record request_target =
  target_verb :: "req_verb option"
  target_ns :: "string option"
  target_resource :: "string option"
  target_name :: "string option"
  target_watch :: bool

fun set_step :: "req_step \<Rightarrow> request_target \<Rightarrow> request_target" where
  "set_step (Verb v) t = t\<lparr>target_verb := Some v\<rparr>"
| "set_step (ReqNamespace ns) t = t\<lparr>target_ns := Some ns\<rparr>"
| "set_step (ReqResource r) t = t\<lparr>target_resource := Some r\<rparr>"
| "set_step (ReqName n) t = t\<lparr>target_name := Some n\<rparr>"
| "set_step (VersionedParams (ParamsList opts)) t = t\<lparr>target_watch := OptWatch opts\<rparr>"
| "set_step _ t = t"

definition request_of :: "request \<Rightarrow> request_target" where
  "request_of req = fold set_step req \<lparr>target_verb = None, target_ns = None,
     target_resource = None, target_name = None, target_watch = False\<rparr>"

datatype client_op =
  OpGet string api_options
| OpList list_options
| OpWatch list_options
| OpCreate danm_network_policy api_options
| OpUpdate danm_network_policy api_options
| OpDelete string api_options
| OpDeleteCollection api_options list_options
| OpPatch string string string api_options "string list"

definition ignore_answer :: "('ev, 'a go) io \<Rightarrow> ('ev, unit go) io" where
  "ignore_answer m = do { r \<leftarrow> m; ret (go_bind r (\<lambda>_. Inr ())) }"

fun run_client_op ::
  "('r, 'w) client_env \<Rightarrow> 'r danm_network_policies \<Rightarrow> client_op \<Rightarrow> ('r client_event, unit go) io" where
  "run_client_op env c (OpGet name opts) = ignore_answer (client_Get env c name opts)"
| "run_client_op env c (OpList opts) = ignore_answer (client_List env c opts)"
| "run_client_op env c (OpWatch opts) = ignore_answer (client_Watch env c opts)"
| "run_client_op env c (OpCreate policy opts) = ignore_answer (client_Create env c policy opts)"
| "run_client_op env c (OpUpdate policy opts) = ignore_answer (client_Update env c policy opts)"
| "run_client_op env c (OpDelete name opts) = ignore_answer (client_Delete env c name opts)"
| "run_client_op env c (OpDeleteCollection opts listOpts) =
     ignore_answer (client_DeleteCollection env c opts listOpts)"
| "run_client_op env c (OpPatch name pt data opts subresources) =
     ignore_answer (client_Patch env c name pt data opts subresources)"

fun op_verb :: "client_op \<Rightarrow> req_verb" where
  "op_verb (OpCreate _ _) = POST"
| "op_verb (OpUpdate _ _) = PUT"
| "op_verb (OpDelete _ _) = DELETE"
| "op_verb (OpDeleteCollection _ _) = DELETE"
| "op_verb (OpPatch _ pt _ _ _) = PATCH pt"
| "op_verb _ = GET"

text \<open>\<open>Create\<close> and the operations on collections name no object.\<close>

fun op_name :: "client_op \<Rightarrow> string option" where
  "op_name (OpGet name _) = Some name"
| "op_name (OpUpdate policy _) = Some (Name (PolMeta policy))"
| "op_name (OpDelete name _) = Some name"
| "op_name (OpPatch name _ _ _ _) = Some name"
| "op_name _ = None"

fun op_watch :: "client_op \<Rightarrow> bool" where
  "op_watch (OpWatch _) = True"
| "op_watch (OpList opts) = OptWatch opts"
| "op_watch (OpDeleteCollection _ opts) = OptWatch opts"
| "op_watch _ = False"

fun event_request :: "'r client_event \<Rightarrow> 'r \<times> request" where
  "event_request (DoRequest r req) = (r, req)"
| "event_request (WatchRequest r req) = (r, req)"

lemmas client_defs = client_Get_def client_List_def client_Watch_def client_Create_def
  client_Update_def client_Delete_def client_DeleteCollection_def client_Patch_def

text \<open>
  C33: the client of a namespace never leaves it: every operation sends exactly one request, on
  the REST client it was made from, for the resource danmnetworkpolicies in that namespace,
  with the verb and the object name of the operation, and never panics; Watch always asks for
  a watch. The namespace of the object passed to Create and Update plays no role.
\<close>

lemma requests_confined:
  "\<exists>ev req. run_state (run_client_op env (DanmNetworkPolicies (Some c) ns) op) h = (Inr (), h @ [ev]) \<and>
     event_request ev = (restClient c, req) \<and>
     request_of req = \<lparr>target_verb = Some (op_verb op), target_ns = Some ns,
       target_resource = Some ''danmnetworkpolicies'', target_name = op_name op,
       target_watch = op_watch op\<rparr>"
  by (cases op)
    (simp_all add: client_defs ignore_answer_def send_def DanmNetworkPolicies_def
      newDanmNetworkPolicies_def RESTClient_def request_of_def policies_resource_def Let_def)

lemma nil_client_panics:
  "run_state (run_client_op env (DanmNetworkPolicies None ns) op) h = (Inl NilDereference, h)"
  by (cases op)
    (simp_all add: client_defs ignore_answer_def send_def DanmNetworkPolicies_def
      newDanmNetworkPolicies_def RESTClient_def Let_def)

text \<open>
  a client set made from a configuration shares one rate limiter between its two clients:
  the configured one, or a token bucket with a positive burst when only a positive rate is
  configured (a positive rate without a burst is refused); its group client speaks
  danm.k8s.io/v1 under /apis, keeps every other setting, and fills in the user agent only when
  it is empty. The caller's configuration is not written to.
\<close>

lemma NewForConfig_clients:
  "NewForConfig lib c = Inr cs \<longleftrightarrow>
     (\<exists>limiter rest.
        (if RateLimiter c \<noteq> None then limiter = RateLimiter c
         else if QPS c > 0 then Burst c > 0 \<and>
           limiter = Some (NewTokenBucketRateLimiter lib (QPS c) (Burst c))
         else limiter = None) \<and>
        RESTClientFor lib (c\<lparr>GroupVersion := Some \<lparr>Group = ''danm.k8s.io'', Version = ''v1''\<rparr>,
          APIPath := ''/apis'', NegotiatedSerializer := Some (CodecsWithoutConversion lib),
          UserAgent := (if UserAgent c = [] then DefaultKubernetesUserAgent lib else UserAgent c),
          RateLimiter := limiter\<rparr>) = Inr rest \<and>
        netpolV1 cs = \<lparr>restClient = rest\<rparr> \<and>
        NewDiscoveryClientForConfig lib (c\<lparr>RateLimiter := limiter\<rparr>) = Inr (DiscoveryClient cs))"
proof (cases "RateLimiter c")
  case None
  then show ?thesis
    by (cases cs, cases c) (auto simp: NewForConfig_def netpolv1_NewForConfig_def setConfigDefaults_def
        SchemeGroupVersion_def GroupName_def Let_def split: sum.splits if_splits)
next
  case (Some limiter)
  then show ?thesis
    by (cases cs, cases c) (auto simp: NewForConfig_def netpolv1_NewForConfig_def setConfigDefaults_def
        SchemeGroupVersion_def GroupName_def Let_def split: sum.splits if_splits)
qed

end
