(* ===== verification/Lister.thy ===== *)
theory Lister
  imports Netpolclient
begin

text \<open>
  The generated lister (\<open>crd/client/listers/netpol/v1/danmnetworkpolicy.go\<close>) on the indexer of an
  informer. The indexer and the functions of client-go's cache package that walk it are a
  parameter with the contract \<open>policy_indexer\<close>.
\<close>

section \<open>The lister\<close>

text \<open>
  \<open>cache.ListAll\<close> and \<open>cache.ListAllByNamespace\<close> hand the selected objects to a callback, one
  after the other, and return an error; \<open>GetByKey\<close> answers an object, whether it exists, and
  an error.
\<close>

record ('x, 's) cache_api =
  ListAll :: "'x \<Rightarrow> 's \<Rightarrow> danm_network_policy list \<times> string option"
  ListAllByNamespace :: "'x \<Rightarrow> string \<Rightarrow> 's \<Rightarrow> danm_network_policy list \<times> string option"
  GetByKey :: "'x \<Rightarrow> string \<Rightarrow> danm_network_policy \<times> bool \<times> string option"

record 'x policy_lister =
  indexer :: 'x

record 'x policy_namespace_lister =
  ns_indexer :: 'x
  ns_namespace :: string

datatype lister_error =
  NotFound group_resource string
| IndexerError string

definition NewDanmNetworkPolicyLister :: "'x \<Rightarrow> 'x policy_lister" where
  "NewDanmNetworkPolicyLister idx = \<lparr>indexer = idx\<rparr>"

text \<open>The callback \<open>ret = append(ret, m)\<close>, called for each object.\<close>

fun append_each :: "danm_network_policy list \<Rightarrow> danm_network_policy list \<Rightarrow> danm_network_policy list" where
  "append_each [] acc = acc"
| "append_each (m # ms) acc = append_each ms (acc @ [m])"

definition lister_List :: "('x, 's) cache_api \<Rightarrow> 'x policy_lister \<Rightarrow> 's \<Rightarrow>
    danm_network_policy list \<times> string option" where
  "lister_List api s selector =
     (let (ms, err) = ListAll api (indexer s) selector in (append_each ms [], err))"

definition lister_DanmNetworkPolicies :: "'x policy_lister \<Rightarrow> string \<Rightarrow> 'x policy_namespace_lister" where
  "lister_DanmNetworkPolicies s namespace = \<lparr>ns_indexer = indexer s, ns_namespace = namespace\<rparr>"

definition ns_lister_List :: "('x, 's) cache_api \<Rightarrow> 'x policy_namespace_lister \<Rightarrow> 's \<Rightarrow>
    danm_network_policy list \<times> string option" where
  "ns_lister_List api s selector =
     (let (ms, err) = ListAllByNamespace api (ns_indexer s) (ns_namespace s) selector
      in (append_each ms [], err))"

definition ns_lister_Get :: "('x, 's) cache_api \<Rightarrow> 'x policy_namespace_lister \<Rightarrow> string \<Rightarrow>
    lister_error + danm_network_policy" where
  "ns_lister_Get api s name =
     (let (obj, exists, err) = GetByKey api (ns_indexer s) (ns_namespace s @ ''/'' @ name)
      in case err of
           Some e \<Rightarrow> Inl (IndexerError e)
         | None \<Rightarrow>
             (if \<not> exists then Inl (NotFound (v1_Resource ''danmnetworkpolicy'') name)
              else Inr obj))"

lemma append_each_append: "append_each ms acc = acc @ ms"
  by (induction ms acc rule: append_each.induct) auto

section \<open>The contract of the indexer\<close>

text \<open>The key of an object in a store, \<open>cache.MetaNamespaceKeyFunc\<close>.\<close>

definition meta_key :: "danm_network_policy \<Rightarrow> string" where
  "meta_key p = (if Namespace (PolMeta p) \<noteq> [] then Namespace (PolMeta p) @ ''/'' @ Name (PolMeta p)
     else Name (PolMeta p))"

text \<open>
  An indexer holds namespaced policies under their keys, and a namespace is a name without a
  slash. Listing selects by labels, and by namespace through the index of the informer; the empty
  namespace, \<open>metav1.NamespaceAll\<close>, stands for all of them.
\<close>

locale policy_indexer =
  fixes api :: "('x, 's) cache_api"
    and contents :: "'x \<Rightarrow> danm_network_policy list"
    and matches :: "'s \<Rightarrow> labels \<Rightarrow> bool"
  assumes list_all: "\<exists>l. ListAll api x sel = (l, None) \<and> distinct l \<and>
      set l = {p \<in> set (contents x). matches sel (Labels (PolMeta p))}"
    and list_ns: "\<exists>l. ListAllByNamespace api x ns sel = (l, None) \<and> distinct l \<and>
      set l = {p \<in> set (contents x). (ns = [] \<or> Namespace (PolMeta p) = ns) \<and> matches sel (Labels (PolMeta p))}"
    and get_some: "p \<in> set (contents x) \<Longrightarrow> meta_key p = key \<Longrightarrow> GetByKey api x key = (p, True, None)"
    and get_none: "\<forall>p\<in>set (contents x). meta_key p \<noteq> key \<Longrightarrow>
      \<exists>d. GetByKey api x key = (d, False, None)"
    and namespaced: "p \<in> set (contents x) \<Longrightarrow> Namespace (PolMeta p) \<noteq> [] \<and> CHR ''/'' \<notin> set (Namespace (PolMeta p))"
begin

lemma key_found:
  assumes "p \<in> set (contents x)" and "CHR ''/'' \<notin> set ns"
  shows "meta_key p = ns @ ''/'' @ name \<longleftrightarrow> Namespace (PolMeta p) = ns \<and> Name (PolMeta p) = name"
proof -
  have "meta_key p = Namespace (PolMeta p) @ ''/'' @ Name (PolMeta p)"
    using namespaced [OF assms(1)] by (simp add: meta_key_def)
  moreover have "a @ CHR ''/'' # b = c @ CHR ''/'' # d \<longleftrightarrow> a = c \<and> b = d"
    if "CHR ''/'' \<notin> set a" "CHR ''/'' \<notin> set c" for a b c d
    using that
  proof (induction a arbitrary: c)
    case Nil
    then show ?case by (cases c) auto
  next
    case (Cons u a)
    then show ?case by (cases c) auto
  qed
  ultimately show ?thesis using namespaced [OF assms(1)] assms(2) by simp
qed

lemma get_iff:
  assumes "CHR ''/'' \<notin> set ns"
  shows "ns_lister_Get api \<lparr>ns_indexer = x, ns_namespace = ns\<rparr> name = Inr p \<longleftrightarrow>
    p \<in> set (contents x) \<and> Namespace (PolMeta p) = ns \<and> Name (PolMeta p) = name"
proof (cases "\<exists>q\<in>set (contents x). meta_key q = ns @ ''/'' @ name")
  case True
  then obtain q where q: "q \<in> set (contents x)" "meta_key q = ns @ ''/'' @ name" by blast
  have "p = q" if "p \<in> set (contents x)" "meta_key p = ns @ ''/'' @ name"
    using get_some [OF that] get_some [OF q] by simp
  with q get_some [OF q] key_found [OF _ assms] show ?thesis
    by (auto simp: ns_lister_Get_def)
next
  case False
  with get_none [of x "ns @ ''/'' @ name"] key_found [OF _ assms, of p x name] show ?thesis
    by (auto simp: ns_lister_Get_def)
qed

lemma get_errors:
  assumes "ns_lister_Get api s name = Inl e"
  shows "e = NotFound \<lparr>GrGroup = ''danm.k8s.io'', GrResource = ''danmnetworkpolicy''\<rparr> name"
proof (cases "\<exists>q\<in>set (contents (ns_indexer s)). meta_key q = ns_namespace s @ ''/'' @ name")
  case True
  then obtain q where "GetByKey api (ns_indexer s) (ns_namespace s @ ''/'' @ name) = (q, True, None)"
    using get_some by blast
  with assms show ?thesis by (simp add: ns_lister_Get_def)
next
  case False
  then obtain d where "GetByKey api (ns_indexer s) (ns_namespace s @ ''/'' @ name) = (d, False, None)"
    using get_none by blast
  with assms show ?thesis
    by (simp add: ns_lister_Get_def v1_Resource_def GroupResource_def WithResource_def const_defs)
qed

lemma ns_list_set:
  "\<exists>l. ns_lister_List api \<lparr>ns_indexer = x, ns_namespace = ns\<rparr> sel = (l, None) \<and> distinct l \<and>
     set l = {p \<in> set (contents x). (ns = [] \<or> Namespace (PolMeta p) = ns) \<and> matches sel (Labels (PolMeta p))}"
  using list_ns [of x ns sel] by (auto simp: ns_lister_List_def append_each_append)

lemma list_set:
  "\<exists>l. lister_List api (NewDanmNetworkPolicyLister x) sel = (l, None) \<and> distinct l \<and>
     set l = {p \<in> set (contents x). matches sel (Labels (PolMeta p))}"
  using list_all [of x sel] by (auto simp: lister_List_def NewDanmNetworkPolicyLister_def append_each_append)

end

section \<open>An indexer as a list\<close>

text \<open>Policies in a list, cut down to the namespaced ones with distinct keys; a selector is a list of labels.\<close>

definition stored :: "danm_network_policy list \<Rightarrow> danm_network_policy list" where
  "stored ps = filter (\<lambda>p. Namespace (PolMeta p) \<noteq> [] \<and> CHR ''/'' \<notin> set (Namespace (PolMeta p)))
     (dedup meta_key {} ps)"

definition has_labels :: "labels \<Rightarrow> labels \<Rightarrow> bool" where
  "has_labels sel ls \<longleftrightarrow> set sel \<subseteq> set ls"

definition list_cache :: "(danm_network_policy list, labels) cache_api" where
  "list_cache = \<lparr>
     ListAll = (\<lambda>x sel. (filter (\<lambda>p. has_labels sel (Labels (PolMeta p))) (stored x), None)),
     ListAllByNamespace = (\<lambda>x ns sel. (filter (\<lambda>p. (ns = [] \<or> Namespace (PolMeta p) = ns) \<and>
       has_labels sel (Labels (PolMeta p))) (stored x), None)),
     GetByKey = (\<lambda>x key. case find (\<lambda>p. meta_key p = key) (stored x) of
       Some p \<Rightarrow> (p, True, None)
     | None \<Rightarrow> (undefined, False, None))\<rparr>"

lemma distinct_stored: "distinct (map meta_key (stored ps))"
  by (simp add: stored_def distinct_map_filter distinct_dedup)

lemma stored_distinct: "distinct (stored ps)"
  using distinct_stored [of ps] by (simp add: distinct_map)

interpretation list_cache: policy_indexer list_cache stored has_labels
proof
  fix p x key assume p: "p \<in> set (stored x)" "meta_key p = key"
  have "find (\<lambda>q. meta_key q = key) (stored x) = Some p"
  proof (cases "find (\<lambda>q. meta_key q = key) (stored x)")
    case None
    with p show ?thesis by (auto simp: find_None_iff)
  next
    case (Some q)
    then have "q \<in> set (stored x)" "meta_key q = key" by (auto simp: find_Some_iff)
    with p distinct_stored [of x] have "q = p" by (auto simp: distinct_map dest: inj_onD)
    with Some show ?thesis by simp
  qed
  then show "GetByKey list_cache x key = (p, True, None)" by (simp add: list_cache_def)
next
  fix x key assume "\<forall>p\<in>set (stored x). meta_key p \<noteq> key"
  then have "find (\<lambda>p. meta_key p = key) (stored x) = None" by (simp add: find_None_iff)
  then show "\<exists>d. GetByKey list_cache x key = (d, False, None)" by (simp add: list_cache_def)
next
  fix p x assume "p \<in> set (stored x)"
  then show "Namespace (PolMeta p) \<noteq> [] \<and> CHR ''/'' \<notin> set (Namespace (PolMeta p))"
    by (simp add: stored_def)
qed (auto simp: list_cache_def stored_distinct)

section \<open>Properties\<close>

text \<open>
  C35: The lister of a namespace reads the cache faithfully: Get answers a policy exactly when the
  cache holds it under that namespace and name, and that is when List, with a selector the policy
  matches, has it; every failing Get is a not-found error in the registered group. Only the lister
  of all namespaces, the empty one, departs from this: it lists the policies of every namespace and
  can get none of them.
\<close>

lemma lister_reads_cache:
  fixes x
  assumes "policy_indexer api contents matches" and "CHR ''/'' \<notin> set ns"
    and "matches sel (Labels (PolMeta p))"
  defines "s \<equiv> lister_DanmNetworkPolicies (NewDanmNetworkPolicyLister x) ns"
  shows "(ns_lister_Get api s name = Inr p \<longleftrightarrow>
      p \<in> set (contents x) \<and> Namespace (PolMeta p) = ns \<and> Name (PolMeta p) = name) \<and>
    (ns \<noteq> [] \<longrightarrow> (ns_lister_Get api s name = Inr p \<longleftrightarrow>
      p \<in> set (fst (ns_lister_List api s sel)) \<and> Name (PolMeta p) = name)) \<and>
    (ns = [] \<longrightarrow> ns_lister_Get api s name \<noteq> Inr p \<and>
      (p \<in> set (fst (ns_lister_List api s sel)) \<longleftrightarrow> p \<in> set (contents x))) \<and>
    (ns_lister_Get api s name = Inl e \<longrightarrow>
      e = NotFound \<lparr>GrGroup = ''danm.k8s.io'', GrResource = ''danmnetworkpolicy''\<rparr> name)"
proof -
  have s: "s = \<lparr>ns_indexer = x, ns_namespace = ns\<rparr>"
    by (simp add: s_def lister_DanmNetworkPolicies_def NewDanmNetworkPolicyLister_def)
  have "ns_lister_Get api s name \<noteq> Inr p" if "ns = []"
    using policy_indexer.get_iff [OF assms(1,2), of x name p] policy_indexer.namespaced [OF assms(1), of p x] that
    by (auto simp: s)
  then show ?thesis
    using policy_indexer.get_iff [OF assms(1,2), of x name p] policy_indexer.get_errors [OF assms(1)]
      policy_indexer.ns_list_set [OF assms(1), of x ns sel] assms(3)
    by (auto simp: s)
qed

definition cached_policy :: danm_network_policy where
  "cached_policy = \<lparr>PolTypeMeta = \<lparr>Kind = [], APIVersion = []\<rparr>,
     PolMeta = \<lparr>Name = ''front'', Namespace = ''web'', UID = ''u1'', Labels = [], ResourceVersion = []\<rparr>,
     PolSpec = \<lparr>PodSelector = \<lparr>MatchLabels = [], MatchExpressions = []\<rparr>, Ingress = [], Egress = [],
       PolicyTypes = []\<rparr>\<rparr>"

lemma lister_reads_cache_witness:
  "ns_lister_Get list_cache
     (lister_DanmNetworkPolicies (NewDanmNetworkPolicyLister [cached_policy]) ''web'') ''front'' = Inr cached_policy"
proof -
  have "stored [cached_policy] = [cached_policy]" by (simp add: stored_def cached_policy_def)
  moreover have "CHR ''/'' \<notin> set ''web''" and "has_labels [] (Labels (PolMeta cached_policy))"
    by (simp_all add: has_labels_def)
  ultimately show ?thesis
    using lister_reads_cache [OF list_cache.policy_indexer_axioms, of "''web''" "[]" cached_policy
        "[cached_policy]" "''front''"]
    by (simp add: cached_policy_def)
qed

end
