(* ===== verification/Informers.thy ===== *)
theory Informers
  imports Lister
begin

text \<open>
  The generated informers: the shared informer factory
  (\<open>informers/externalversions/factory.go\<close>, \<open>generic.go\<close>), the informer of the policies
  (\<open>netpol/v1/danmnetworkpolicy.go\<close> and the two \<open>interface.go\<close>). The factory's methods hold its mutex, so a
  concurrent use is a sequence of them, the step relation \<open>factory_step\<close>.
\<close>

section \<open>Informers\<close>

text \<open>
  A shared index informer is known by its address; making one and running one (in a goroutine)
  are events. What an informer was made from: the client, the namespace and the filter of its
  list and watch functions, the object type, the resync period, the indexers.
\<close>

type_synonym rtype = string
type_synonym tweak = "list_options \<Rightarrow> list_options"

record 'c informer_spec =
  spec_client :: 'c
  spec_ns :: string
  spec_tweak :: "tweak option"
  spec_type :: rtype
  spec_resync :: "64 word"
  spec_indexers :: "string list"

datatype 'c informer_event =
  Created nat "'c informer_spec"
| RunInformer nat nat
| WaitSync nat nat

fun created :: "'c informer_event list \<Rightarrow> nat list" where
  "created [] = []"
| "created (Created i spec # h) = i # created h"
| "created (_ # h) = created h"

fun ran_informers :: "'c informer_event list \<Rightarrow> nat list" where
  "ran_informers [] = []"
| "ran_informers (RunInformer i stopCh # h) = i # ran_informers h"
| "ran_informers (_ # h) = ran_informers h"

text \<open>\<open>cache.NewSharedIndexInformer\<close>: a new object at a new address.\<close>

definition new_informer :: "'c informer_spec \<Rightarrow> ('c informer_event, nat) io" where
  "new_informer spec = State (\<lambda>h. (length (created h), h @ [Created (length (created h)) spec]))"

definition policy_rtype :: rtype where
  "policy_rtype = ''*v1.DanmNetworkPolicy''"

definition NamespaceIndex :: string where
  "NamespaceIndex = ''namespace''"

definition NewFilteredDanmNetworkPolicyInformer ::
  "'c \<Rightarrow> string \<Rightarrow> 64 word \<Rightarrow> string list \<Rightarrow> tweak option \<Rightarrow> ('c informer_event, nat) io" where
  "NewFilteredDanmNetworkPolicyInformer clt ns resyncPeriod indexers tweakListOptions =
     new_informer \<lparr>spec_client = clt, spec_ns = ns, spec_tweak = tweakListOptions,
       spec_type = policy_rtype, spec_resync = resyncPeriod, spec_indexers = indexers\<rparr>"

definition NewDanmNetworkPolicyInformer ::
  "'c \<Rightarrow> string \<Rightarrow> 64 word \<Rightarrow> string list \<Rightarrow> ('c informer_event, nat) io" where
  "NewDanmNetworkPolicyInformer clt ns resyncPeriod indexers =
     NewFilteredDanmNetworkPolicyInformer clt ns resyncPeriod indexers None"

text \<open>The \<open>ListFunc\<close> and \<open>WatchFunc\<close> of an informer, on the client of the namespace.\<close>

definition tweaked :: "tweak option \<Rightarrow> list_options \<Rightarrow> list_options" where
  "tweaked tweakListOptions options =
     (case tweakListOptions of None \<Rightarrow> options | Some tweak \<Rightarrow> tweak options)"

definition ListFunc :: "('r, 'w) client_env \<Rightarrow> ('r, 'd) clientset informer_spec \<Rightarrow> list_options \<Rightarrow>
    ('r client_event, (danm_network_policy list \<times> string option) go) io" where
  "ListFunc env spec options =
     (let options = tweaked (spec_tweak spec) options
      in client_List env (DanmNetworkPolicies (Some (NetpolV1 (spec_client spec))) (spec_ns spec)) options)"

definition WatchFunc :: "('r, 'w) client_env \<Rightarrow> ('r, 'd) clientset informer_spec \<Rightarrow> list_options \<Rightarrow>
    ('r client_event, (string + 'w) go) io" where
  "WatchFunc env spec options =
     (let options = tweaked (spec_tweak spec) options
      in client_Watch env (DanmNetworkPolicies (Some (NetpolV1 (spec_client spec))) (spec_ns spec)) options)"

section \<open>The shared informer factory\<close>

record 'c shared_informer_factory =
  client :: 'c
  namespace :: string
  tweakListOptions :: "tweak option"
  defaultResync :: "64 word"
  customResync :: "rtype \<rightharpoonup> 64 word"
  informers :: "rtype \<rightharpoonup> nat"
  startedInformers :: "rtype \<rightharpoonup> bool"

type_synonym 'c informer_option = "'c shared_informer_factory \<Rightarrow> 'c shared_informer_factory"

fun set_resyncs :: "(rtype \<times> 64 word) list \<Rightarrow> (rtype \<rightharpoonup> 64 word) \<Rightarrow> (rtype \<rightharpoonup> 64 word)" where
  "set_resyncs [] m = m"
| "set_resyncs ((k, v) # resyncConfig) m = set_resyncs resyncConfig (m(k \<mapsto> v))"

definition WithCustomResyncConfig :: "(rtype \<times> 64 word) list \<Rightarrow> 'c informer_option" where
  "WithCustomResyncConfig resyncConfig factory =
     factory\<lparr>customResync := set_resyncs resyncConfig (customResync factory)\<rparr>"

definition WithTweakListOptions :: "tweak option \<Rightarrow> 'c informer_option" where
  "WithTweakListOptions tweak factory = factory\<lparr>tweakListOptions := tweak\<rparr>"

definition WithNamespace :: "string \<Rightarrow> 'c informer_option" where
  "WithNamespace ns factory = factory\<lparr>namespace := ns\<rparr>"

definition NewSharedInformerFactoryWithOptions ::
  "'c \<Rightarrow> 64 word \<Rightarrow> 'c informer_option list \<Rightarrow> 'c shared_informer_factory" where
  "NewSharedInformerFactoryWithOptions clt resync options =
     fold (\<lambda>opt factory. opt factory) options
       \<lparr>client = clt, namespace = [], tweakListOptions = None, defaultResync = resync,
        customResync = Map.empty, informers = Map.empty, startedInformers = Map.empty\<rparr>"

definition NewSharedInformerFactory :: "'c \<Rightarrow> 64 word \<Rightarrow> 'c shared_informer_factory" where
  "NewSharedInformerFactory clt resync = NewSharedInformerFactoryWithOptions clt resync []"

definition NewFilteredSharedInformerFactory ::
  "'c \<Rightarrow> 64 word \<Rightarrow> string \<Rightarrow> tweak option \<Rightarrow> 'c shared_informer_factory" where
  "NewFilteredSharedInformerFactory clt resync ns tweak =
     NewSharedInformerFactoryWithOptions clt resync [WithNamespace ns, WithTweakListOptions tweak]"

text \<open>
  The order in which a range loop visits the entries of a map is left open by Go: the loops run
  over any list of the entries.
\<close>

definition range_order :: "('k \<rightharpoonup> 'v) \<Rightarrow> ('k \<times> 'v) list \<Rightarrow> bool" where
  "range_order m entries \<longleftrightarrow> distinct (map fst entries) \<and> map_of entries = m"

definition is_started :: "'c shared_informer_factory \<Rightarrow> rtype \<Rightarrow> bool" where
  "is_started f ty \<longleftrightarrow> startedInformers f ty = Some True"

fun start_loop :: "(rtype \<times> nat) list \<Rightarrow> nat \<Rightarrow> 'c shared_informer_factory \<Rightarrow>
    ('c informer_event, 'c shared_informer_factory) io" where
  "start_loop [] stopCh f = ret f"
| "start_loop ((informerType, informer) # entries) stopCh f =
     (if \<not> is_started f informerType then do {
        emit (RunInformer informer stopCh);
        start_loop entries stopCh
          (f\<lparr>startedInformers := (startedInformers f)(informerType \<mapsto> True)\<rparr>) }
      else start_loop entries stopCh f)"

definition Start :: "(rtype \<times> nat) list \<Rightarrow> 'c shared_informer_factory \<Rightarrow> nat \<Rightarrow>
    ('c informer_event, 'c shared_informer_factory) io" where
  "Start entries f stopCh = start_loop entries stopCh f"

fun wait_loop :: "('c informer_event list \<Rightarrow> bool) \<Rightarrow> (rtype \<times> nat) list \<Rightarrow> nat \<Rightarrow> (rtype \<rightharpoonup> bool) \<Rightarrow>
    ('c informer_event, rtype \<rightharpoonup> bool) io" where
  "wait_loop synced [] stopCh res = ret res"
| "wait_loop synced ((informType, informer) # entries) stopCh res = do {
     ok \<leftarrow> perform synced (WaitSync informer stopCh);
     wait_loop synced entries stopCh (res(informType \<mapsto> ok)) }"

text \<open>The started informers are collected under the lock, then waited for without it.\<close>

definition factory_WaitForCacheSync :: "('c informer_event list \<Rightarrow> bool) \<Rightarrow> (rtype \<times> nat) list \<Rightarrow>
    'c shared_informer_factory \<Rightarrow> nat \<Rightarrow> ('c informer_event, rtype \<rightharpoonup> bool) io" where
  "factory_WaitForCacheSync synced entries f stopCh =
     wait_loop synced (filter (\<lambda>(informerType, informer). is_started f informerType) entries)
       stopCh Map.empty"

definition InformerFor :: "rtype \<Rightarrow> ('c \<Rightarrow> 64 word \<Rightarrow> ('c informer_event, nat) io) \<Rightarrow>
    'c shared_informer_factory \<Rightarrow> ('c informer_event, nat \<times> 'c shared_informer_factory) io" where
  "InformerFor informerType newFunc f =
     (case informers f informerType of
        Some informer \<Rightarrow> ret (informer, f)
      | None \<Rightarrow> do {
          let resyncPeriod = (case customResync f informerType of
            Some period \<Rightarrow> period | None \<Rightarrow> defaultResync f);
          informer \<leftarrow> newFunc (client f) resyncPeriod;
          ret (informer, f\<lparr>informers := (informers f)(informerType \<mapsto> informer)\<rparr>) })"

section \<open>The informer of the policies\<close>

text \<open>
  \<open>Netpol()\<close>, \<open>V1()\<close> and \<open>DanmNetworkPolicies()\<close> hand the namespace and the filter of the
  factory down; the factory itself is the state the operations thread.
\<close>

record group_interface =
  group_ns :: string
  group_tweak :: "tweak option"

record version_interface =
  version_ns :: string
  version_tweak :: "tweak option"

record danm_network_policy_informer =
  inf_ns :: string
  inf_tweak :: "tweak option"

definition netpol_New :: "string \<Rightarrow> tweak option \<Rightarrow> group_interface" where
  "netpol_New ns tweak = \<lparr>group_ns = ns, group_tweak = tweak\<rparr>"

definition Netpol :: "'c shared_informer_factory \<Rightarrow> group_interface" where
  "Netpol f = netpol_New (namespace f) (tweakListOptions f)"

definition v1_New :: "string \<Rightarrow> tweak option \<Rightarrow> version_interface" where
  "v1_New ns tweak = \<lparr>version_ns = ns, version_tweak = tweak\<rparr>"

definition V1 :: "group_interface \<Rightarrow> version_interface" where
  "V1 g = v1_New (group_ns g) (group_tweak g)"

definition informer_DanmNetworkPolicies :: "version_interface \<Rightarrow> danm_network_policy_informer" where
  "informer_DanmNetworkPolicies v = \<lparr>inf_ns = version_ns v, inf_tweak = version_tweak v\<rparr>"

definition defaultInformer ::
  "danm_network_policy_informer \<Rightarrow> 'c \<Rightarrow> 64 word \<Rightarrow> ('c informer_event, nat) io" where
  "defaultInformer pinf clt resyncPeriod =
     NewFilteredDanmNetworkPolicyInformer clt (inf_ns pinf) resyncPeriod [NamespaceIndex] (inf_tweak pinf)"

definition Informer :: "danm_network_policy_informer \<Rightarrow> 'c shared_informer_factory \<Rightarrow>
    ('c informer_event, nat \<times> 'c shared_informer_factory) io" where
  "Informer pinf f = InformerFor policy_rtype (defaultInformer pinf) f"

text \<open>The lister of the policies on the indexer of their informer, which this requests.\<close>

definition informer_Lister :: "(nat \<Rightarrow> 'x) \<Rightarrow> danm_network_policy_informer \<Rightarrow> 'c shared_informer_factory \<Rightarrow>
    ('c informer_event, 'x policy_lister \<times> 'c shared_informer_factory) io" where
  "informer_Lister GetIndexer pinf f = do {
     (informer, f) \<leftarrow> Informer pinf f;
     ret (NewDanmNetworkPolicyLister (GetIndexer informer), f) }"

definition policies_informer :: "'c shared_informer_factory \<Rightarrow> danm_network_policy_informer" where
  "policies_informer f = informer_DanmNetworkPolicies (V1 (Netpol f))"

record generic_informer =
  gen_informer :: nat
  gen_resource :: group_resource

definition generic_Informer :: "generic_informer \<Rightarrow> nat" where
  "generic_Informer g = gen_informer g"

definition generic_Lister :: "('x \<Rightarrow> group_resource \<Rightarrow> 'g) \<Rightarrow> (nat \<Rightarrow> 'x) \<Rightarrow> generic_informer \<Rightarrow> 'g" where
  "generic_Lister NewGenericLister GetIndexer g =
     NewGenericLister (GetIndexer (generic_Informer g)) (gen_resource g)"

definition ForResource :: "group_version_resource \<Rightarrow> 'c shared_informer_factory \<Rightarrow>
    ('c informer_event, (group_version_resource + generic_informer) \<times> 'c shared_informer_factory) io" where
  "ForResource resource f =
     (if resource = WithResource SchemeGroupVersion ''danmnetworkpolicies'' then do {
        (informer, f) \<leftarrow> Informer (policies_informer f) f;
        ret (Inr \<lparr>gen_informer = informer, gen_resource = GroupResource resource\<rparr>, f) }
      else ret (Inl resource, f))"

section \<open>Runs of the factory\<close>

text \<open>
  The methods in any order and any number, each with any order of the map ranges, from a
  factory built with any options (which only configure it, so both maps start empty). \<open>InformerFor\<close> is called with functions that make one informer.
\<close>

inductive factory_step :: "'c shared_informer_factory \<times> 'c informer_event list \<Rightarrow>
    'c shared_informer_factory \<times> 'c informer_event list \<Rightarrow> bool" where
  informer_for: "run_state (InformerFor ty (\<lambda>c d. new_informer (mk c d)) f) h = ((i, f'), h') \<Longrightarrow>
    factory_step (f, h) (f', h')"
| for_resource: "run_state (ForResource resource f) h = ((r, f'), h') \<Longrightarrow> factory_step (f, h) (f', h')"
| start: "range_order (informers f) entries \<Longrightarrow> run_state (Start entries f stopCh) h = (f', h') \<Longrightarrow>
    factory_step (f, h) (f', h')"
| wait: "range_order (informers f) entries \<Longrightarrow>
    run_state (factory_WaitForCacheSync synced entries f stopCh) h = (res, h') \<Longrightarrow>
    factory_step (f, h) (f, h')"

inductive factory_reachable :: "'c shared_informer_factory \<times> 'c informer_event list \<Rightarrow> bool" where
  new: "f = NewSharedInformerFactoryWithOptions clt resync opts \<Longrightarrow>
    informers f = Map.empty \<Longrightarrow> startedInformers f = Map.empty \<Longrightarrow> factory_reachable (f, [])"
| step: "factory_reachable s \<Longrightarrow> factory_step s t \<Longrightarrow> factory_reachable t"

inductive_cases factory_stepE: "factory_step (f, h) (f', h')"

lemma is_started_informers [simp]: "is_started (f\<lparr>informers := m\<rparr>) ty \<longleftrightarrow> is_started f ty"
  by (simp add: is_started_def)

lemma created_append: "created (h @ h') = created h @ created h'"
  by (induction h rule: created.induct) auto

lemma ran_append: "ran_informers (h @ h') = ran_informers h @ ran_informers h'"
  by (induction h rule: ran_informers.induct) auto

text \<open>
  The invariant: the informers made are those the map holds, one per type; the started types have an
  informer; the informers that run are those of the started types, each run once.
\<close>

definition factory_inv :: "'c shared_informer_factory \<times> 'c informer_event list \<Rightarrow> bool" where
  "factory_inv s \<longleftrightarrow> (let (f, h) = s in
     created h = [0..<length (created h)] \<and>
     inj_on (informers f) (dom (informers f)) \<and>
     ran (informers f) = set (created h) \<and>
     (\<forall>ty. is_started f ty \<longrightarrow> informers f ty \<noteq> None) \<and>
     distinct (ran_informers h) \<and>
     set (ran_informers h) = {i. \<exists>ty. is_started f ty \<and> informers f ty = Some i})"

lemma created_fresh: "created h = [0..<length (created h)] \<Longrightarrow> length (created h) \<notin> set (created h)"
  by (metis atLeastLessThan_iff less_irrefl set_upt)

lemma InformerFor_inv:
  assumes "factory_inv (f, h)"
    and "run_state (InformerFor ty (\<lambda>c d. new_informer (mk c d)) f) h = ((i, f'), h')"
  shows "factory_inv (f', h')"
proof (cases "informers f ty")
  case (Some j)
  with assms show ?thesis by (simp add: InformerFor_def)
next
  case None
  let ?n = "length (created h)"
  have f': "f' = f\<lparr>informers := (informers f)(ty \<mapsto> ?n)\<rparr>"
    and h': "created h' = created h @ [?n]" "ran_informers h' = ran_informers h"
    using assms(2) None by (auto simp: InformerFor_def new_informer_def created_append ran_append
      split: option.splits)
  have inv: "created h = [0..<?n]" "inj_on (informers f) (dom (informers f))"
    "ran (informers f) = set (created h)" "\<And>ty. is_started f ty \<Longrightarrow> informers f ty \<noteq> None"
    "distinct (ran_informers h)"
    "set (ran_informers h) = {i. \<exists>ty. is_started f ty \<and> informers f ty = Some i}"
    using assms(1) by (auto simp: factory_inv_def)
  have "\<not> is_started f ty" using inv(4) None by blast
  then have "is_started f' ty' \<and> informers f' ty' = Some i \<longleftrightarrow>
      is_started f ty' \<and> informers f ty' = Some i" for ty' i by (auto simp: f')
  then have "set (ran_informers h') = {i. \<exists>ty. is_started f' ty \<and> informers f' ty = Some i}"
    using inv(6) by (simp add: h')
  moreover have "inj_on (informers f') (dom (informers f'))"
  proof -
    have "informers f x \<noteq> Some ?n" for x
      using created_fresh [OF inv(1)] inv(3) by (auto simp: ran_def)
    then show ?thesis using inv(2) None
      by (auto simp: f' inj_on_def domIff)
  qed
  moreover have "created h' = [0..<length (created h')]" using inv(1) h'(1) by (metis length_append_singleton upt_Suc_append zero_le)
  moreover have "ran (informers f') = set (created h')" using inv(3) None by (simp add: f' h')
  ultimately show ?thesis
    using inv(4,5) by (auto simp: factory_inv_def h' f')
qed

text \<open>A start loop runs the informers of the entries not yet started, in their order.\<close>

lemma start_loop_run:
  assumes "distinct (map fst entries)"
  shows "\<exists>t. run_state (start_loop entries stopCh f) h =
    (f\<lparr>startedInformers := (\<lambda>ty. if ty \<in> fst ` set entries then Some True else startedInformers f ty)\<rparr>,
     h @ t) \<and> created t = [] \<and>
    ran_informers t = map snd (filter (\<lambda>e. \<not> is_started f (fst e)) entries)"
  using assms
proof (induction entries arbitrary: f h)
  case (Cons e entries)
  obtain ty i where e: "e = (ty, i)" by fastforce
  show ?case
  proof (cases "is_started f ty")
    case True
    have "(\<lambda>ty'. if ty' \<in> fst ` set (e # entries) then Some True else startedInformers f ty') =
        (\<lambda>ty'. if ty' \<in> fst ` set entries then Some True else startedInformers f ty')"
      using True by (auto simp: e is_started_def)
    with True Cons.IH [of f h] Cons.prems show ?thesis by (simp add: e)
  next
    case False
    let ?f = "f\<lparr>startedInformers := (startedInformers f)(ty \<mapsto> True)\<rparr>"
    have "(\<lambda>ty'. if ty' \<in> fst ` set entries then Some True else startedInformers ?f ty') =
        (\<lambda>ty'. if ty' \<in> fst ` set (e # entries) then Some True else startedInformers f ty')"
      by (auto simp: e)
    moreover have "filter (\<lambda>e. \<not> is_started ?f (fst e)) entries =
        filter (\<lambda>e. \<not> is_started f (fst e)) entries"
      using Cons.prems by (intro filter_cong) (auto simp: e is_started_def)
    moreover obtain t where "run_state (start_loop entries stopCh ?f) (h @ [RunInformer i stopCh]) =
        (?f\<lparr>startedInformers := (\<lambda>ty. if ty \<in> fst ` set entries then Some True else startedInformers ?f ty)\<rparr>,
         (h @ [RunInformer i stopCh]) @ t)" "created t = []"
        "ran_informers t = map snd (filter (\<lambda>e. \<not> is_started ?f (fst e)) entries)"
      using Cons.IH [of ?f "h @ [RunInformer i stopCh]"] Cons.prems by auto
    ultimately show ?thesis
      using False by (intro exI [of _ "RunInformer i stopCh # t"]) (simp add: e)
  qed
qed simp

lemma range_orderD:
  assumes "range_order m entries"
  shows "distinct (map fst entries)" and "fst ` set entries = dom m"
    and "(ty, i) \<in> set entries \<longleftrightarrow> m ty = Some i"
  using assms unfolding range_order_def
  by (simp, metis dom_map_of_conv_image_fst, metis map_of_eq_Some_iff)

lemma Start_inv:
  assumes "factory_inv (f, h)" and "range_order (informers f) entries"
    and "run_state (Start entries f stopCh) h = (f', h')"
  shows "factory_inv (f', h')"
proof -
  note entries = range_orderD [OF assms(2)]
  obtain t where f': "f' = f\<lparr>startedInformers := (\<lambda>ty. if ty \<in> dom (informers f) then Some True
        else startedInformers f ty)\<rparr>"
    and h': "h' = h @ t" "created t = []"
      "ran_informers t = map snd (filter (\<lambda>e. \<not> is_started f (fst e)) entries)"
    using start_loop_run [OF entries(1), of stopCh f h] assms(3) entries(2)
    by (auto simp: Start_def)
  have inv: "inj_on (informers f) (dom (informers f))"
    "\<And>ty. is_started f ty \<Longrightarrow> informers f ty \<noteq> None"
    "distinct (ran_informers h)"
    "set (ran_informers h) = {i. \<exists>ty. is_started f ty \<and> informers f ty = Some i}"
    using assms(1) by (auto simp: factory_inv_def)
  have started: "is_started f' ty \<longleftrightarrow> informers f ty \<noteq> None" for ty
    using inv(2) [of ty] by (auto simp: is_started_def f')
  have informers: "informers f' = informers f" by (simp add: f')
  have new: "set (ran_informers t) = {i. \<exists>ty. \<not> is_started f ty \<and> informers f ty = Some i}"
    using entries(3) by (force simp: h')
  have "inj_on snd (set entries)"
  proof (rule inj_onI)
    fix x y assume "x \<in> set entries" "y \<in> set entries" "snd x = snd y"
    with entries(3) [of "fst x" "snd x"] entries(3) [of "fst y" "snd y"] inj_onD [OF inv(1)]
    show "x = y" by (metis domI prod.collapse)
  qed
  moreover have "distinct entries" using entries(1) by (simp add: distinct_map)
  ultimately have "distinct (ran_informers t)"
    unfolding h'(3) by (simp add: distinct_map inj_on_def)
  moreover have "ty = ty'" if "informers f ty = Some i" "informers f ty' = Some i" for ty ty' i
    using inj_onD [OF inv(1), of ty ty'] that by auto
  then have "set (ran_informers h) \<inter> set (ran_informers t) = {}"
    unfolding new inv(4) by blast
  moreover have "set (ran_informers h') = {i. \<exists>ty. is_started f' ty \<and> informers f' ty = Some i}"
    unfolding h'(1) ran_append set_append new inv(4) started using inv(2) by (auto simp: informers)
  ultimately show ?thesis
    using assms(1) inv(3) started by (simp add: factory_inv_def h' created_append ran_append informers)
qed

lemma wait_loop_run:
  "\<exists>res' t. run_state (wait_loop synced entries stopCh res) h = (res', h @ t) \<and>
     created t = [] \<and> ran_informers t = [] \<and> dom res' = dom res \<union> fst ` set entries"
proof (induction entries arbitrary: res h)
  case (Cons e entries)
  obtain ty i where e: "e = (ty, i)" by fastforce
  from Cons.IH [of "res(ty \<mapsto> synced h)" "h @ [WaitSync i stopCh]"] obtain res' t where
    "run_state (wait_loop synced entries stopCh (res(ty \<mapsto> synced h))) (h @ [WaitSync i stopCh]) =
       (res', (h @ [WaitSync i stopCh]) @ t)"
    "created t = []" "ran_informers t = []"
    "dom res' = dom (res(ty \<mapsto> synced h)) \<union> fst ` set entries" by blast
  then show ?case
    by (intro exI [of _ res'] exI [of _ "WaitSync i stopCh # t"]) (simp add: e)
qed simp

lemma WaitForCacheSync_inv:
  assumes "factory_inv (f, h)" and "run_state (factory_WaitForCacheSync synced entries f stopCh) h = (res, h')"
  shows "factory_inv (f, h')"
proof -
  obtain t where "h' = h @ t" "created t = []" "ran_informers t = []"
    using wait_loop_run [of synced "filter (\<lambda>(informerType, informer). is_started f informerType) entries"
        stopCh Map.empty h] assms(2) by (auto simp: factory_WaitForCacheSync_def)
  with assms(1) show ?thesis by (simp add: factory_inv_def created_append ran_append)
qed

text \<open>\<open>Informer\<close> and \<open>ForResource\<close> are calls of \<open>InformerFor\<close> for the type of the policies.\<close>

lemma Informer_as_InformerFor:
  fixes f :: "'c shared_informer_factory"
  shows "Informer pinf f = InformerFor policy_rtype (\<lambda>c d. new_informer \<lparr>spec_client = c, spec_ns = inf_ns pinf,
     spec_tweak = inf_tweak pinf, spec_type = policy_rtype, spec_resync = d,
     spec_indexers = [NamespaceIndex]\<rparr>) f"
proof -
  have "defaultInformer pinf = (\<lambda>(c :: 'c) d. new_informer \<lparr>spec_client = c, spec_ns = inf_ns pinf,
     spec_tweak = inf_tweak pinf, spec_type = policy_rtype, spec_resync = d,
     spec_indexers = [NamespaceIndex]\<rparr>)"
    by (intro ext) (simp add: defaultInformer_def NewFilteredDanmNetworkPolicyInformer_def)
  then show ?thesis by (simp add: Informer_def)
qed

lemma factory_step_inv:
  assumes "factory_step s t" and "factory_inv s"
  shows "factory_inv t"
  using assms
proof (induction rule: factory_step.induct)
  case (informer_for ty mk f h i f' h')
  then show ?case by (metis InformerFor_inv)
next
  case (for_resource resource f h r f' h')
  then show ?case
    using InformerFor_inv [of f h policy_rtype]
    by (auto simp: ForResource_def Informer_as_InformerFor split: if_splits prod.splits)
next
  case (start f entries stopCh h f' h')
  then show ?case by (metis Start_inv)
next
  case (wait f entries synced stopCh h res h')
  then show ?case by (metis WaitForCacheSync_inv)
qed

lemma factory_reachable_inv: "factory_reachable s \<Longrightarrow> factory_inv s"
proof (induction rule: factory_reachable.induct)
  case (new f clt resync opts)
  then show ?case by (auto simp: factory_inv_def is_started_def)
next
  case (step s t)
  then show ?case by (metis factory_step_inv)
qed

section \<open>Properties of the factory\<close>

text \<open>
  C30: Over any sequence of calls of the factory's methods, one informer is made per requested type:
  as many were made as types have one, each type has its own, and all that were made are kept; and
  no informer is run twice, or without having been made.
\<close>

lemma informers_made_and_run_once:
  assumes "factory_reachable (f, h)"
  shows "bij_betw (\<lambda>ty. the (informers f ty)) (dom (informers f)) (set (created h)) \<and>
    length (created h) = card (dom (informers f)) \<and>
    distinct (ran_informers h) \<and> set (ran_informers h) \<subseteq> set (created h)"
proof -
  from factory_reachable_inv [OF assms]
  have inv: "created h = [0..<length (created h)]" "inj_on (informers f) (dom (informers f))"
    "ran (informers f) = set (created h)" "distinct (ran_informers h)"
    "set (ran_informers h) = {i. \<exists>ty. is_started f ty \<and> informers f ty = Some i}"
    by (auto simp: factory_inv_def)
  have "inj_on (\<lambda>ty. the (informers f ty)) (dom (informers f))"
  proof (rule inj_onI)
    fix x y assume "x \<in> dom (informers f)" "y \<in> dom (informers f)" "the (informers f x) = the (informers f y)"
    with inj_onD [OF inv(2), of x y] show "x = y" by auto
  qed
  moreover have "(\<lambda>ty. the (informers f ty)) ` dom (informers f) = ran (informers f)"
    by (force simp: ran_def image_iff)
  ultimately have bij: "bij_betw (\<lambda>ty. the (informers f ty)) (dom (informers f)) (set (created h))"
    by (simp add: bij_betw_def inv(3))
  have "distinct (created h)" by (subst inv(1)) (rule distinct_upt)
  then have "length (created h) = card (dom (informers f))"
    using bij_betw_same_card [OF bij] by (simp add: distinct_card)
  moreover have "set (ran_informers h) \<subseteq> ran (informers f)" unfolding inv(5) by (auto simp: ran_def)
  ultimately show ?thesis using bij inv(3,4) by blast
qed

text \<open>
  After Start every informer the factory knows has been started exactly once, also when
  Start is called again after more informers were requested, and WaitForCacheSync then reports
  exactly the types of these informers.
\<close>

lemma start_runs_every_informer:
  assumes "factory_reachable (f, h)" and "range_order (informers f) entries"
    and "run_state (Start entries f stopCh) h = (f', h')"
    and "run_state (factory_WaitForCacheSync synced entries f' stopCh) h' = (res, h2)"
  shows "distinct (ran_informers h') \<and> set (ran_informers h') = ran (informers f) \<and>
    dom res = dom (informers f)"
proof -
  note entries = range_orderD [OF assms(2)]
  have inv: "factory_inv (f', h')"
    by (rule Start_inv [OF factory_reachable_inv [OF assms(1)] assms(2,3)])
  obtain t where f': "f' = f\<lparr>startedInformers := (\<lambda>ty. if ty \<in> dom (informers f) then Some True
        else startedInformers f ty)\<rparr>"
    using start_loop_run [OF entries(1), of stopCh f h] assms(3) entries(2)
    by (auto simp: Start_def)
  then have "informers f' = informers f" by simp
  moreover have started: "is_started f' ty" if "informers f ty = Some i" for ty i
    using that by (auto simp: is_started_def f')
  ultimately have "set (ran_informers h') = ran (informers f)"
    using inv unfolding factory_inv_def ran_def by (simp only: prod.case Let_def) blast
  moreover have "filter (\<lambda>(informerType, informer). is_started f' informerType) entries = entries"
    using started entries(3) by (auto simp: filter_id_conv)
  then have "dom res = fst ` set entries"
    using wait_loop_run [of synced entries stopCh Map.empty h'] assms(4)
    by (auto simp: factory_WaitForCacheSync_def)
  ultimately show ?thesis using inv entries(2) by (simp add: factory_inv_def)
qed

text \<open>
  Once a type has an informer it keeps it: no step replaces an entry of the map.
\<close>

lemma factory_step_keeps:
  assumes "factory_step s t" and "informers (fst s) ty = Some i"
  shows "informers (fst t) ty = Some i"
  using assms
proof (induction rule: factory_step.induct)
  case (start f entries stopCh h f' h')
  then show ?case
    using start_loop_run [OF range_orderD(1) [OF start(1)], of stopCh f h] by (auto simp: Start_def)
next
  case (for_resource resource f h r f' h')
  then show ?case
    by (auto simp: ForResource_def Informer_as_InformerFor InformerFor_def new_informer_def
        split: if_splits prod.splits option.splits)
qed (auto simp: InformerFor_def new_informer_def split: option.splits)

text \<open>
  C31: the informer of the policies is shared: whoever asks for it first, through the factory's
  accessors or as a generic resource, every later request on either way, after any further
  calls on the factory, answers the same informer and makes none.
\<close>

lemma policy_informer_shared:
  assumes "run_state (Informer (policies_informer f) f) h = ((i, f1), h1)"
    and "factory_step\<^sup>*\<^sup>* (f1, h1) (f2, h2)"
  shows "run_state (Informer pinf f2) h2 = ((i, f2), h2) \<and>
    run_state (ForResource (WithResource SchemeGroupVersion ''danmnetworkpolicies'') f2) h2 =
      ((Inr \<lparr>gen_informer = i,
         gen_resource = \<lparr>GrGroup = ''danm.k8s.io'', GrResource = ''danmnetworkpolicies''\<rparr>\<rparr>, f2), h2)"
proof -
  have "informers f1 policy_rtype = Some i"
    using assms(1)
    by (auto simp: Informer_as_InformerFor InformerFor_def new_informer_def split: option.splits)
  with assms(2) have "informers (fst (f2, h2)) policy_rtype = Some i"
    by (induction rule: rtranclp_induct) (auto dest: factory_step_keeps)
  then show ?thesis
    by (simp add: ForResource_def Informer_def InformerFor_def WithResource_def GroupResource_def
        const_defs)
qed

lemma netpol_group_unknown:
  "run_state (ForResource \<lparr>ResGroup = ''netpol.k8s.io'', ResVersion = ''v1'', ResName = ''danmnetworkpolicies''\<rparr> f) h =
     ((Inl \<lparr>ResGroup = ''netpol.k8s.io'', ResVersion = ''v1'', ResName = ''danmnetworkpolicies''\<rparr>, f), h)"
  by (simp add: ForResource_def WithResource_def const_defs)

text \<open>Witnesses on a new factory for a client known by a number.\<close>

definition example_factory :: "nat shared_informer_factory" where
  "example_factory = NewSharedInformerFactory 0 30"

definition requested_factory :: "nat shared_informer_factory" where
  "requested_factory = example_factory\<lparr>informers := [policy_rtype \<mapsto> 0]\<rparr>"

definition policy_created :: "nat informer_event" where
  "policy_created = Created 0 \<lparr>spec_client = 0, spec_ns = [], spec_tweak = None,
     spec_type = policy_rtype, spec_resync = 30, spec_indexers = [NamespaceIndex]\<rparr>"

lemma request_informer:
  "run_state (Informer (policies_informer example_factory) example_factory) [] =
     ((0, requested_factory), [policy_created])"
  by (simp add: Informer_as_InformerFor InformerFor_def new_informer_def example_factory_def
      requested_factory_def policy_created_def NewSharedInformerFactory_def
      NewSharedInformerFactoryWithOptions_def policies_informer_def informer_DanmNetworkPolicies_def
      V1_def Netpol_def netpol_New_def v1_New_def)

lemma requested_reachable: "factory_reachable (requested_factory, [policy_created])"
proof (rule factory_reachable.step)
  show "factory_reachable (example_factory, [])"
    by (rule factory_reachable.new [of _ 0 30 "[]"]) (simp_all add: example_factory_def NewSharedInformerFactory_def
        NewSharedInformerFactoryWithOptions_def)
  show "factory_step (example_factory, []) (requested_factory, [policy_created])"
    by (rule factory_step.informer_for) (rule request_informer [unfolded Informer_as_InformerFor])
qed

lemma informers_made_and_run_once_witness:
  "\<exists>f' h'. run_state (Start [(policy_rtype, 0)] requested_factory 7) [policy_created] = (f', h') \<and>
     ran_informers h' = [0] \<and> length (created h') = card (dom (informers f')) \<and> distinct (ran_informers h') \<and>
     set (ran_informers h') \<subseteq> set (created h')"
proof -
  obtain f' h' where s: "run_state (Start [(policy_rtype, 0)] requested_factory 7) [policy_created] = (f', h')"
    by fastforce
  then have "ran_informers h' = [0]"
    by (auto simp: Start_def is_started_def requested_factory_def example_factory_def policy_created_def
        NewSharedInformerFactory_def NewSharedInformerFactoryWithOptions_def)
  moreover have "factory_reachable (f', h')"
    by (rule factory_reachable.step [OF requested_reachable factory_step.start [OF _ s]])
      (auto simp: range_order_def requested_factory_def)
  ultimately show ?thesis using informers_made_and_run_once s by blast
qed

lemma start_runs_every_informer_witness:
  "\<exists>f' h' res h2. run_state (Start [(policy_rtype, 0)] requested_factory 7) [policy_created] = (f', h') \<and>
     run_state (factory_WaitForCacheSync (\<lambda>h. True) [(policy_rtype, 0)] f' 7) h' = (res, h2) \<and>
     ran_informers h' = [0] \<and> dom res = {policy_rtype}"
proof -
  obtain f' h' where s: "run_state (Start [(policy_rtype, 0)] requested_factory 7) [policy_created] = (f', h')"
    by fastforce
  obtain res h2 where w: "run_state (factory_WaitForCacheSync (\<lambda>h. True) [(policy_rtype, 0)] f' 7) h' = (res, h2)"
    by fastforce
  have "range_order (informers requested_factory) [(policy_rtype, 0)]"
    by (auto simp: range_order_def requested_factory_def)
  from start_runs_every_informer [OF requested_reachable this s w]
  have "distinct (ran_informers h')" "set (ran_informers h') = {0}" "dom res = {policy_rtype}"
    by (auto simp: requested_factory_def)
  then have "ran_informers h' = [0]" by (cases "ran_informers h'") (auto simp: subset_singleton_iff)
  with s w \<open>dom res = _\<close> show ?thesis by blast
qed

lemma policy_informer_shared_witness:
  "run_state (Informer (policies_informer requested_factory) requested_factory) [policy_created] =
     ((0, requested_factory), [policy_created])"
  using policy_informer_shared [OF request_informer rtranclp.rtrancl_refl] by blast

end
