(* ===== verification/Fakeclient.thy ===== *)
theory Fakeclient
  imports Netpolclient
begin

text \<open>
  The generated fake client (\<open>clientset/versioned/fake\<close> and \<open>typed/netpol/v1/fake\<close>), which tests
  use in place of the REST client. The testing package of client-go is a parameter: \<open>Invokes\<close>
  records an action and answers it, and the object tracker behind it is the contract
  \<open>object_tracker\<close>.
\<close>

section \<open>Actions\<close>

definition danmnetworkpoliciesResource :: group_version_resource where [const_defs]:
  "danmnetworkpoliciesResource =
     \<lparr>ResGroup = ''netpol.k8s.io'', ResVersion = ''v1'', ResName = ''danmnetworkpolicies''\<rparr>"

definition danmnetworkpoliciesKind :: group_version_kind where [const_defs]:
  "danmnetworkpoliciesKind =
     \<lparr>KindGroup = ''netpol.k8s.io'', KindVersion = ''v1'', KindName = ''DanmNetworkPolicy''\<rparr>"

datatype fake_action =
  GetAction group_version_resource string string
| ListAction group_version_resource group_version_kind string list_options
| WatchAction group_version_resource string list_options
| CreateAction group_version_resource string danm_network_policy
| UpdateAction group_version_resource string danm_network_policy
| DeleteAction group_version_resource string string
| DeleteCollectionAction group_version_resource string list_options
| PatchSubresourceAction group_version_resource string string string string "string list"

text \<open>
  What \<open>Fake.Invokes\<close> and \<open>InvokesWatch\<close> answer after the actions so far: an object (\<open>None\<close> is
  nil) and an error. A list carries its metadata \<open>'m\<close>.
\<close>

record ('m, 'w) fake_env =
  invokes_policy :: "fake_action list \<Rightarrow> fake_action \<Rightarrow> danm_network_policy option \<times> string option"
  invokes_list :: "fake_action list \<Rightarrow> fake_action \<Rightarrow>
    ('m \<times> danm_network_policy list) option \<times> string option"
  invokes_watch :: "fake_action list \<Rightarrow> fake_action \<Rightarrow> 'w option \<times> string option"

text \<open>The label selectors of apimachinery: \<open>ExtractFromListOptions\<close> answers nil or a selector.\<close>

record 's selector_lib =
  ExtractLabel :: "list_options \<Rightarrow> 's option"
  Everything :: 's
  Matches :: "'s \<Rightarrow> labels \<Rightarrow> bool"

section \<open>The fake resource client\<close>

record fake_policies =
  fake_ns :: string

definition FakeDanmNetworkPolicies :: "string \<Rightarrow> fake_policies" where
  "FakeDanmNetworkPolicies namespace = \<lparr>fake_ns = namespace\<rparr>"

definition fake_Get :: "('m, 'w) fake_env \<Rightarrow> fake_policies \<Rightarrow> string \<Rightarrow>
    (fake_action, danm_network_policy option \<times> string option) io" where
  "fake_Get env c name = do {
     let action = GetAction danmnetworkpoliciesResource (fake_ns c) name;
     (obj, err) \<leftarrow> perform (\<lambda>h. invokes_policy env h action) action;
     (if obj = None then ret (None, err) else ret (obj, err)) }"

fun matching_items :: "'s selector_lib \<Rightarrow> 's \<Rightarrow> danm_network_policy list \<Rightarrow>
    danm_network_policy list \<Rightarrow> danm_network_policy list" where
  "matching_items lib label [] acc = acc"
| "matching_items lib label (item # items) acc =
     (if Matches lib label (Labels (PolMeta item))
      then matching_items lib label items (acc @ [item])
      else matching_items lib label items acc)"

definition fake_List :: "'s selector_lib \<Rightarrow> ('m, 'w) fake_env \<Rightarrow> fake_policies \<Rightarrow> list_options \<Rightarrow>
    (fake_action, ('m \<times> danm_network_policy list) option \<times> string option) io" where
  "fake_List lib env c opts = do {
     let action = ListAction danmnetworkpoliciesResource danmnetworkpoliciesKind (fake_ns c) opts;
     (obj, err) \<leftarrow> perform (\<lambda>h. invokes_list env h action) action;
     (case obj of
        None \<Rightarrow> ret (None, err)
      | Some (listMeta, items) \<Rightarrow> do {
          let label = ExtractLabel lib opts;
          let label = (case label of None \<Rightarrow> Everything lib | Some label \<Rightarrow> label);
          ret (Some (listMeta, matching_items lib label items []), err) }) }"

definition fake_Watch :: "('m, 'w) fake_env \<Rightarrow> fake_policies \<Rightarrow> list_options \<Rightarrow>
    (fake_action, 'w option \<times> string option) io" where
  "fake_Watch env c opts =
     (let action = WatchAction danmnetworkpoliciesResource (fake_ns c) opts
      in perform (\<lambda>h. invokes_watch env h action) action)"

definition fake_Create :: "('m, 'w) fake_env \<Rightarrow> fake_policies \<Rightarrow> danm_network_policy \<Rightarrow>
    (fake_action, danm_network_policy option \<times> string option) io" where
  "fake_Create env c policy = do {
     let action = CreateAction danmnetworkpoliciesResource (fake_ns c) policy;
     (obj, err) \<leftarrow> perform (\<lambda>h. invokes_policy env h action) action;
     (if obj = None then ret (None, err) else ret (obj, err)) }"

definition fake_Update :: "('m, 'w) fake_env \<Rightarrow> fake_policies \<Rightarrow> danm_network_policy \<Rightarrow>
    (fake_action, danm_network_policy option \<times> string option) io" where
  "fake_Update env c policy = do {
     let action = UpdateAction danmnetworkpoliciesResource (fake_ns c) policy;
     (obj, err) \<leftarrow> perform (\<lambda>h. invokes_policy env h action) action;
     (if obj = None then ret (None, err) else ret (obj, err)) }"

definition fake_Delete :: "('m, 'w) fake_env \<Rightarrow> fake_policies \<Rightarrow> string \<Rightarrow>
    (fake_action, string option) io" where
  "fake_Delete env c name = do {
     let action = DeleteAction danmnetworkpoliciesResource (fake_ns c) name;
     (obj, err) \<leftarrow> perform (\<lambda>h. invokes_policy env h action) action;
     ret err }"

definition fake_DeleteCollection :: "('m, 'w) fake_env \<Rightarrow> fake_policies \<Rightarrow> list_options \<Rightarrow>
    (fake_action, string option) io" where
  "fake_DeleteCollection env c listOpts = do {
     let action = DeleteCollectionAction danmnetworkpoliciesResource (fake_ns c) listOpts;
     (obj, err) \<leftarrow> perform (\<lambda>h. invokes_list env h action) action;
     ret err }"

definition fake_Patch :: "('m, 'w) fake_env \<Rightarrow> fake_policies \<Rightarrow> string \<Rightarrow> string \<Rightarrow> string \<Rightarrow>
    string list \<Rightarrow> (fake_action, danm_network_policy option \<times> string option) io" where
  "fake_Patch env c name pt data subresources = do {
     let action = PatchSubresourceAction danmnetworkpoliciesResource (fake_ns c) name pt data subresources;
     (obj, err) \<leftarrow> perform (\<lambda>h. invokes_policy env h action) action;
     (if obj = None then ret (None, err) else ret (obj, err)) }"

lemma matching_items_filter:
  "matching_items lib label items acc =
     acc @ filter (\<lambda>item. Matches lib label (Labels (PolMeta item))) items"
  by (induction items arbitrary: acc) auto

text \<open>The fake as an implementation of the interface; it ignores the options it does not record.\<close>

definition fake_interface :: "'s selector_lib \<Rightarrow> ('m, 'w) fake_env \<Rightarrow> fake_policies \<Rightarrow>
    (fake_action, 'w) policy_interface" where
  "fake_interface lib env c =
     \<lparr>CreateMethod = \<lambda>policy opts. do { r \<leftarrow> fake_Create env c policy; ret (Inr r) },
      UpdateMethod = \<lambda>policy opts. do { r \<leftarrow> fake_Update env c policy; ret (Inr r) },
      DeleteMethod = \<lambda>name opts. do { r \<leftarrow> fake_Delete env c name; ret (Inr r) },
      DeleteCollectionMethod = \<lambda>opts listOpts. do { r \<leftarrow> fake_DeleteCollection env c listOpts; ret (Inr r) },
      GetMethod = \<lambda>name opts. do { r \<leftarrow> fake_Get env c name; ret (Inr r) },
      ListMethod = \<lambda>opts. do { r \<leftarrow> fake_List lib env c opts; ret (Inr (apfst (map_option snd) r)) },
      WatchMethod = \<lambda>opts. do { r \<leftarrow> fake_Watch env c opts; ret (Inr r) },
      PatchMethod = \<lambda>name pt data opts subresources. do { r \<leftarrow> fake_Patch env c name pt data subresources; ret (Inr r) }\<rparr>"

section \<open>The scheme of the fake client set\<close>

text \<open>\<open>fake/register.go\<close> repeats the code of the scheme package for a scheme of its own.\<close>

definition fake_localSchemeBuilder :: "'s scheme_lib \<Rightarrow> ('s \<Rightarrow> string option \<times> 's) list" where
  "fake_localSchemeBuilder lib = [AddToScheme lib]"

definition fake_AddToScheme :: "'s scheme_lib \<Rightarrow> 's \<Rightarrow> string option \<times> 's" where
  "fake_AddToScheme lib = RunBuilder lib (fake_localSchemeBuilder lib)"

definition fake_init_scheme :: "'s scheme_lib \<Rightarrow> string + 's" where
  "fake_init_scheme lib =
     (let scheme = AddToGroupVersion lib (NewScheme lib) \<lparr>Group = [], Version = ''v1''\<rparr>
      in case fake_AddToScheme lib scheme of
           (Some err, _) \<Rightarrow> Inl err
         | (None, scheme) \<Rightarrow> Inr scheme)"

text \<open>Both schemes know the same types: the fake misses no kind.\<close>

lemma same_schemes: "fake_init_scheme lib = init_scheme lib"
  by (simp add: fake_init_scheme_def init_scheme_def fake_AddToScheme_def scheme_AddToScheme_def
      fake_localSchemeBuilder_def localSchemeBuilder_def)

section \<open>The fake client set\<close>

text \<open>
  A client set: the discovery client \<open>'d\<close>, the tracker, the chain of reactors and the chain of watch
  reactors, each with the verb and the resource it is registered for.
\<close>

datatype reactor = ObjectReaction | TrackerWatchReaction

record ('t, 'd) fake_clientset =
  discovery :: 'd
  fake_tracker :: 't
  ReactionChain :: "(string \<times> string \<times> reactor) list"
  WatchReactionChain :: "(string \<times> reactor) list"

fun add_objects :: "('t \<Rightarrow> danm_network_policy \<Rightarrow> string + 't) \<Rightarrow> 't \<Rightarrow> danm_network_policy list \<Rightarrow>
    string + 't" where
  "add_objects add t [] = Inr t"
| "add_objects add t (obj # objs) =
     (case add t obj of Inl err \<Rightarrow> Inl err | Inr t \<Rightarrow> add_objects add t objs)"

text \<open>An error of \<open>tracker.Add\<close> is a panic, the left value.\<close>

definition NewSimpleClientset :: "'d \<Rightarrow> 't \<Rightarrow> ('t \<Rightarrow> danm_network_policy \<Rightarrow> string + 't) \<Rightarrow>
    danm_network_policy list \<Rightarrow> string + ('t, 'd) fake_clientset" where
  "NewSimpleClientset disc new add objects =
     (case add_objects add new objects of
        Inl err \<Rightarrow> Inl err
      | Inr tracker \<Rightarrow> Inr \<lparr>discovery = disc, fake_tracker = tracker,
          ReactionChain = [(''*'', ''*'', ObjectReaction)],
          WatchReactionChain = [(''*'', TrackerWatchReaction)]\<rparr>)"

text \<open>The watch reactor: not handled when the tracker cannot watch the resource.\<close>

definition watch_reactor :: "('t \<Rightarrow> group_version_resource \<Rightarrow> string \<Rightarrow> string + 'w) \<Rightarrow> 't \<Rightarrow>
    group_version_resource \<Rightarrow> string \<Rightarrow> bool \<times> 'w option \<times> string option" where
  "watch_reactor track_watch tracker gvr ns =
     (case track_watch tracker gvr ns of
        Inl err \<Rightarrow> (False, None, Some err)
      | Inr w \<Rightarrow> (True, Some w, None))"

definition fake_Tracker :: "('t, 'd) fake_clientset \<Rightarrow> 't" where
  "fake_Tracker cs = fake_tracker cs"

definition fake_Discovery :: "('t, 'd) fake_clientset \<Rightarrow> 'd" where
  "fake_Discovery cs = discovery cs"

text \<open>
  The client of the group holds the \<open>testing.Fake\<close> its client set embeds, here what that answers. Its
  \<open>RESTClient\<close> is a nil pointer as an interface value, which a caller's nil test does not catch.
\<close>

record ('m, 'w) fake_netpol_v1 =
  Fake :: "('m, 'w) fake_env"

definition fake_NetpolV1 :: "('m, 'w) fake_env \<Rightarrow> ('t, 'd) fake_clientset \<Rightarrow> ('m, 'w) fake_netpol_v1" where
  "fake_NetpolV1 env cs = \<lparr>Fake = env\<rparr>"

definition fake_RESTClient :: "'r go_interface" where
  "fake_RESTClient = Holding None"

definition fake_DanmNetworkPolicies :: "'s selector_lib \<Rightarrow> ('m, 'w) fake_netpol_v1 \<Rightarrow> string \<Rightarrow>
    (fake_action, 'w) policy_interface" where
  "fake_DanmNetworkPolicies lib c namespace = fake_interface lib (Fake c) (FakeDanmNetworkPolicies namespace)"

text \<open>The fake client set implements the interface of the client set.\<close>

definition fake_clientset_interface :: "'s selector_lib \<Rightarrow> ('m, 'w) fake_env \<Rightarrow> ('t, 'd) fake_clientset \<Rightarrow>
    (fake_action, 'w, 'r, 'd) clientset_interface" where
  "fake_clientset_interface lib env cs =
     \<lparr>DiscoveryMethod = Holding (Some (fake_Discovery cs)),
      NetpolV1Method = \<lparr>DanmNetworkPoliciesMethod = fake_DanmNetworkPolicies lib (fake_NetpolV1 env cs),
        RESTClientMethod = fake_RESTClient\<rparr>\<rparr>"

section \<open>The object tracker\<close>

text \<open>
  The tracker of client-go files an object under the resource guessed from the kind its type is
  registered under, here danm.k8s.io/v1, and finds it again under that resource, its namespace
  and its name.
\<close>

locale object_tracker =
  fixes new :: 't
    and add :: "'t \<Rightarrow> danm_network_policy \<Rightarrow> string + 't"
    and get :: "'t \<Rightarrow> group_version_resource \<Rightarrow> string \<Rightarrow> string \<Rightarrow> danm_network_policy option"
  assumes get_new: "get new r ns name = None"
    and get_add: "add t p = Inr t' \<Longrightarrow>
      get t' r ns name =
        (if r = WithResource SchemeGroupVersion ''danmnetworkpolicies'' \<and>
            ns = Namespace (PolMeta p) \<and> name = Name (PolMeta p)
         then Some p else get t r ns name)"
begin

lemma get_add_objects:
  "add_objects add t objs = Inr t' \<Longrightarrow> r \<noteq> WithResource SchemeGroupVersion ''danmnetworkpolicies'' \<Longrightarrow>
     get t' r ns name = get t r ns name"
  by (induction objs arbitrary: t) (auto simp: get_add split: sum.splits)

lemma fake_resource_empty:
  assumes "NewSimpleClientset disc new add objs = Inr cs"
  shows "get (fake_tracker cs) danmnetworkpoliciesResource ns name = None"
proof -
  have "danmnetworkpoliciesResource \<noteq> WithResource SchemeGroupVersion ''danmnetworkpolicies''"
    by (simp add: const_defs WithResource_def)
  with assms get_add_objects [of new objs "fake_tracker cs" danmnetworkpoliciesResource ns name]
  show ?thesis by (auto simp: NewSimpleClientset_def get_new split: sum.splits)
qed

end

text \<open>A tracker as a map, which accepts every policy.\<close>

type_synonym map_tracker = "group_version_resource \<times> string \<times> string \<rightharpoonup> danm_network_policy"

definition track :: "map_tracker \<Rightarrow> danm_network_policy \<Rightarrow> string + map_tracker" where
  "track t p = Inr (t((WithResource SchemeGroupVersion ''danmnetworkpolicies'',
     Namespace (PolMeta p), Name (PolMeta p)) \<mapsto> p))"

definition tracked :: "map_tracker \<Rightarrow> group_version_resource \<Rightarrow> string \<Rightarrow> string \<Rightarrow>
    danm_network_policy option" where
  "tracked t r ns name = t (r, ns, name)"

interpretation map_tracker: object_tracker Map.empty track tracked
  by unfold_locales (auto simp: track_def tracked_def)

section \<open>Properties\<close>

text \<open>
  List of the fake client returns, with the metadata and the error of the answer, exactly
  the policies whose labels the requested selector matches, in their order; without a selector
  those that \<open>labels.Everything\<close> matches.
\<close>

lemma fake_List_exact:
  "run_state (fake_List lib env c opts) h =
     (let action = ListAction danmnetworkpoliciesResource danmnetworkpoliciesKind (fake_ns c) opts;
          label = (case ExtractLabel lib opts of None \<Rightarrow> Everything lib | Some l \<Rightarrow> l)
      in (apfst (map_option (apsnd (filter (\<lambda>item. Matches lib label (Labels (PolMeta item))))))
            (invokes_list env h action), h @ [action]))"
  by (auto simp: fake_List_def matching_items_filter Let_def split: prod.splits option.splits)

text \<open>
  A fake client set filled with policies finds none of them: it files them under the group
  they are registered with, danm.k8s.io, and its client asks for netpol.k8s.io, so Get of any
  name answers nil and not found.
\<close>

lemma fake_client_misses_objects:
  assumes "object_tracker new add get"
    and "NewSimpleClientset disc new add objs = Inr cs"
    and "\<And>h r ns name. invokes_policy env h (GetAction r ns name) =
      (case get (fake_tracker cs) r ns name of
         Some p \<Rightarrow> (Some p, None) | None \<Rightarrow> (None, Some (not_found r name)))"
  shows "fst (run_state (fake_Get env (FakeDanmNetworkPolicies ns) name) h) =
    (None, Some (not_found danmnetworkpoliciesResource name))"
  using object_tracker.fake_resource_empty [OF assms(1,2)]
  by (simp add: fake_Get_def assms(3) FakeDanmNetworkPolicies_def)

definition lone_policy :: danm_network_policy where
  "lone_policy = \<lparr>PolTypeMeta = \<lparr>Kind = [], APIVersion = []\<rparr>,
     PolMeta = \<lparr>Name = ''front'', Namespace = ''web'', UID = ''u1'', Labels = [], ResourceVersion = []\<rparr>,
     PolSpec = \<lparr>PodSelector = \<lparr>MatchLabels = [], MatchExpressions = []\<rparr>, Ingress = [], Egress = [],
       PolicyTypes = []\<rparr>\<rparr>"

definition tracker_env :: "map_tracker \<Rightarrow> (unit, unit) fake_env" where
  "tracker_env t = \<lparr>
     invokes_policy = (\<lambda>h a. case a of
       GetAction r ns name \<Rightarrow>
         (case tracked t r ns name of Some p \<Rightarrow> (Some p, None) | None \<Rightarrow> (None, Some ''not found''))
     | _ \<Rightarrow> (None, None)),
     invokes_list = (\<lambda>h a. (None, None)), invokes_watch = (\<lambda>h a. (None, None))\<rparr>"

lemma fake_client_misses_objects_witness:
  "\<exists>cs. NewSimpleClientset () Map.empty track [lone_policy] = Inr cs \<and>
     fst (run_state (fake_Get (tracker_env (fake_tracker cs)) (FakeDanmNetworkPolicies ''web'') ''front'') []) =
       (None, Some ''not found'')"
proof -
  obtain cs where cs: "NewSimpleClientset () Map.empty track [lone_policy] = Inr cs"
    by (simp add: NewSimpleClientset_def track_def)
  from fake_client_misses_objects [OF map_tracker.object_tracker_axioms cs,
      where env = "tracker_env (fake_tracker cs)" and not_found = "\<lambda>_ _. ''not found''"] cs
  show ?thesis by (simp add: tracker_env_def)
qed

end
