(* ===== verification/Wiring.thy ===== *)
theory Wiring
  imports Polctrl Informers Fakeclient
begin

text \<open>
  The controller on top of the generated code: its listings are requests of the generated client,
  its policy informer is made by the generated factory, and what it asks of the API server is
  held against the role \<open>integration/manifests/policer/policer.yaml\<close> gives it.
\<close>

section \<open>Listing policies through the client set\<close>

definition no_options :: list_options where
  "no_options = \<lparr>OptLabelSelector = [], OptFieldSelector = [], OptWatch = False, TimeoutSeconds = None\<rparr>"

text \<open>
  \<open>NewPolicySet\<close> over any implementation of the client set: its client is an interface value. A
  nil list without an error is dereferenced.
\<close>

definition NewPolicySet_on :: "libs \<Rightarrow> ('ev, 'w, 'r, 'd) clientset_interface \<Rightarrow> string \<Rightarrow>
    ('ev, danm_network_policy buckets go) io" where
  "NewPolicySet_on lib netpolClient ns = do {
     r \<leftarrow> ListMethod (DanmNetworkPoliciesMethod (NetpolV1Method netpolClient) ns) no_options;
     (case r of
        Inl panic \<Rightarrow> ret (Inl panic)
      | Inr (netPols, Some err) \<Rightarrow> ret (Inr Map.empty)
      | Inr (None, None) \<Rightarrow> ret (Inl NilDereference)
      | Inr (Some items, None) \<Rightarrow> ret (Inr (sortPoliciesIntoBuckets lib items)))
   }"

text \<open>
  The REST client of a namespace, \<open>PolicyClient.NetpolV1().DanmNetworkPolicies(ns)\<close>, and what a listing
  of it means to the controller.
\<close>

definition rest_policies :: "('r, 'w) client_env \<Rightarrow> ('r, 'd) clientset \<Rightarrow> string \<Rightarrow>
    ('r client_event, 'w) policy_interface" where
  "rest_policies cenv c = DanmNetworkPoliciesMethod (NetpolV1Method (rest_clientset cenv c))"

fun list_result :: "(danm_network_policy list option \<times> string option) go \<Rightarrow> string + danm_network_policy list" where
  "list_result (Inr (Some items, None)) = Inr items"
| "list_result (Inr (items, Some err)) = Inl err"
| "list_result r = Inl []"

text \<open>The requests behind a history of the controller, and the controller's environment.\<close>

definition policy_request :: "('r, 'd) clientset \<Rightarrow> string \<Rightarrow> 'r client_event" where
  "policy_request c ns = DoRequest (restClient (NetpolV1 c)) [Verb GET, ReqNamespace ns,
     ReqResource policies_resource, VersionedParams (ParamsList no_options), Timeout 0]"

fun sent :: "('r, 'd) clientset \<Rightarrow> pol_event list \<Rightarrow> 'r client_event list" where
  "sent c [] = []"
| "sent c (ListPolicies ns a # t) = policy_request c ns # sent c t"
| "sent c (e # t) = sent c t"

definition rest_api :: "('r, 'w) client_env \<Rightarrow> ('r, 'd) clientset \<Rightarrow>
    (pol_event list \<Rightarrow> string \<Rightarrow> string + danm_ep list) \<Rightarrow> pol_env" where
  "rest_api cenv c eps =
     \<lparr>list_policies = \<lambda>h ns. list_result (fst (run_state (ListMethod (rest_policies cenv c ns) no_options) (sent c h))),
      list_eps = eps\<rparr>"

lemma sent_append: "sent c (h @ h') = sent c h @ sent c h'"
  by (induction h rule: sent.induct) auto

lemmas rest_policies_defs = rest_policies_def rest_clientset_def rest_netpol_v1_def rest_interface_def answering_def client_List_def send_def
  DanmNetworkPolicies_def newDanmNetworkPolicies_def RESTClient_def list_timeout_def no_options_def Let_def

lemma run_rest_list:
  "run_state (ListMethod (rest_policies cenv c ns) no_options) h =
     (let (items, err) = list_answer cenv h (restClient (NetpolV1 c)) [Verb GET, ReqNamespace ns,
        ReqResource policies_resource, VersionedParams (ParamsList no_options), Timeout 0]
      in (Inr (Some items, err), h @ [policy_request c ns]))"
  by (simp add: rest_policies_defs policy_request_def split: prod.split)

text \<open>
  Over the REST client the policy set is the one the controller's model takes from the answer of the
  API server, and the event of the controller is one request of the client.
\<close>

lemma policy_set_over_rest:
  "run_state (NewPolicySet_on lib (rest_clientset cenv c) ns) (sent c h) =
     (let (answer, h') = run_state (observe (\<lambda>h. list_policies (rest_api cenv c eps) h ns) (ListPolicies ns)) h
      in (Inr (NewPolicySet lib answer), sent c h'))"
proof -
  obtain items err where "list_answer cenv (sent c h) (restClient (NetpolV1 c)) [Verb GET, ReqNamespace ns,
      ReqResource policies_resource, VersionedParams (ParamsList no_options), Timeout 0] = (items, err)" by fastforce
  then show ?thesis
    by (cases err) (simp_all add: NewPolicySet_on_def run_rest_list [unfolded rest_policies_def] rest_policies_def rest_api_def sent_append NewPolicySet_def)
qed

section \<open>The policy informer of the controller\<close>

text \<open>The first two lines of \<open>createPolicyController\<close>.\<close>

definition createPolicyInformer :: "'c \<Rightarrow> ('c informer_event, nat) io" where
  "createPolicyInformer polClient = do {
     let netpolInformerFactory = NewSharedInformerFactory polClient (Second * 30);
     (polController, factory) \<leftarrow> Informer (policies_informer netpolInformerFactory) netpolInformerFactory;
     ret polController
   }"

definition cluster_policies :: "'c \<Rightarrow> 'c informer_spec" where
  "cluster_policies c = \<lparr>spec_client = c, spec_ns = [], spec_tweak = None, spec_type = policy_rtype,
     spec_resync = 30000000000, spec_indexers = [NamespaceIndex]\<rparr>"

lemma run_createPolicyInformer:
  "run_state (createPolicyInformer c) h = (length (created h), h @ [Created (length (created h)) (cluster_policies c)])"
  by (simp add: createPolicyInformer_def Informer_as_InformerFor InformerFor_def new_informer_def Let_def
      NewSharedInformerFactory_def NewSharedInformerFactoryWithOptions_def policies_informer_def
      informer_DanmNetworkPolicies_def V1_def Netpol_def netpol_New_def v1_New_def cluster_policies_def Second_def)

section \<open>What the role allows\<close>

text \<open>
  A request as the authorizer of the API server sees it: a GET is a list without a name and a get
  with one, or a watch.
\<close>

record access =
  AccGroup :: string
  AccResource :: string
  AccVerb :: string

definition rbac_verb :: "request_target \<Rightarrow> string" where
  "rbac_verb t = (case target_verb t of
     None \<Rightarrow> []
   | Some GET \<Rightarrow> if target_watch t then ''watch'' else if target_name t = None then ''list'' else ''get''
   | Some POST \<Rightarrow> ''create''
   | Some PUT \<Rightarrow> ''update''
   | Some (PATCH p) \<Rightarrow> ''patch''
   | Some DELETE \<Rightarrow> if target_name t = None then ''deletecollection'' else ''delete'')"

fun access_of :: "'r client_event \<Rightarrow> access" where
  "access_of (DoRequest r req) = \<lparr>AccGroup = Group SchemeGroupVersion,
     AccResource = (case target_resource (request_of req) of None \<Rightarrow> [] | Some res \<Rightarrow> res),
     AccVerb = rbac_verb (request_of req)\<rparr>"
| "access_of (WatchRequest r req) = \<lparr>AccGroup = Group SchemeGroupVersion,
     AccResource = (case target_resource (request_of req) of None \<Rightarrow> [] | Some res \<Rightarrow> res),
     AccVerb = rbac_verb (request_of req)\<rparr>"

record role_rule =
  ApiGroups :: "string list"
  Resources :: "string list"
  Verbs :: "string list"

definition role_allows :: "role_rule list \<Rightarrow> access \<Rightarrow> bool" where
  "role_allows role a \<longleftrightarrow> list_ex (\<lambda>r. AccGroup a \<in> set (ApiGroups r) \<and> AccResource a \<in> set (Resources r) \<and>
     AccVerb a \<in> set (Verbs r)) role"

definition policer_role :: "role_rule list" where
  "policer_role =
     [\<lparr>ApiGroups = [''danm.k8s.io''], Resources = [''danmnets'', ''clusternetworks'', ''tenantnetworks'', ''danmeps''],
       Verbs = [''get'', ''list'']\<rparr>,
      \<lparr>ApiGroups = [''danm.k8s.io''], Resources = [''danmnetworkpolicies''], Verbs = [''get'', ''list'', ''watch'']\<rparr>,
      \<lparr>ApiGroups = [[]], Resources = [''pods''], Verbs = [''get'', ''list'', ''watch'']\<rparr>]"

text \<open>
  The accesses of an event of the controller: its listings, and what the informers it runs list
  and watch, the policy informer by the functions of its specification.
\<close>

definition policy_informer_requests ::
  "('r, 'w) client_env \<Rightarrow> ('r, 'd) clientset \<Rightarrow> list_options \<Rightarrow> 'r client_event list" where
  "policy_informer_requests cenv c opts =
     snd (run_state (ListFunc cenv (cluster_policies c) opts) []) @
     snd (run_state (WatchFunc cenv (cluster_policies c) opts) [])"

fun pol_accesses :: "('r, 'w) client_env \<Rightarrow> ('r, 'd) clientset \<Rightarrow> list_options \<Rightarrow> pol_event \<Rightarrow> access list" where
  "pol_accesses cenv c opts (ListPolicies ns a) = [access_of (policy_request c ns)]"
| "pol_accesses cenv c opts (ListDanmEps ns a) =
     [\<lparr>AccGroup = ''danm.k8s.io'', AccResource = ''danmeps'', AccVerb = ''list''\<rparr>]"
| "pol_accesses cenv c opts (SpawnRun PolicyInformer) = map access_of (policy_informer_requests cenv c opts)"
| "pol_accesses cenv c opts (SpawnRun PodInformer) =
     [\<lparr>AccGroup = [], AccResource = ''pods'', AccVerb = ''list''\<rparr>,
      \<lparr>AccGroup = [], AccResource = ''pods'', AccVerb = ''watch''\<rparr>]"
| "pol_accesses cenv c opts e = []"

lemma list_access:
  "access_of (policy_request c ns) = \<lparr>AccGroup = ''danm.k8s.io'', AccResource = ''danmnetworkpolicies'', AccVerb = ''list''\<rparr>"
  by (simp add: policy_request_def request_of_def rbac_verb_def no_options_def const_defs)

lemma informer_requests:
  "policy_informer_requests cenv c opts =
     [DoRequest (restClient (NetpolV1 c)) [Verb GET, ReqNamespace [], ReqResource policies_resource,
        VersionedParams (ParamsList opts), Timeout (list_timeout opts)],
      WatchRequest (restClient (NetpolV1 c)) [Verb GET, ReqNamespace [], ReqResource policies_resource,
        VersionedParams (ParamsList (opts\<lparr>OptWatch := True\<rparr>)), Timeout (list_timeout opts)]]"
  by (simp add: policy_informer_requests_def ListFunc_def WatchFunc_def tweaked_def cluster_policies_def
      client_List_def client_Watch_def send_def DanmNetworkPolicies_def newDanmNetworkPolicies_def RESTClient_def Let_def)

lemma informer_accesses:
  "map access_of (policy_informer_requests cenv c opts) =
     [\<lparr>AccGroup = ''danm.k8s.io'', AccResource = ''danmnetworkpolicies'',
        AccVerb = (if OptWatch opts then ''watch'' else ''list'')\<rparr>,
      \<lparr>AccGroup = ''danm.k8s.io'', AccResource = ''danmnetworkpolicies'', AccVerb = ''watch''\<rparr>]"
  by (cases "OptWatch opts") (simp_all add: informer_requests request_of_def rbac_verb_def const_defs)

lemma allowed_event: "a \<in> set (pol_accesses cenv c opts e) \<Longrightarrow> role_allows policer_role a"
  by (cases "(cenv, c, opts, e)" rule: pol_accesses.cases)
    (auto simp: list_access informer_accesses role_allows_def policer_role_def simp del: set_map split: if_splits)

section \<open>The requests of a run\<close>

text \<open>The controller from its creation on: discovery, the informers, then their notifications.\<close>

definition controller_run ::
  "libs \<Rightarrow> pol_env \<Rightarrow> string \<Rightarrow> notification list \<Rightarrow> (pol_event, string + unit go) io" where
  "controller_run lib env node ns = do {
     ctrl \<leftarrow> NewNetPolControl env None None None;
     (case ctrl of
        Inl err \<Rightarrow> ret (Inl err)
      | Inr ctrl \<Rightarrow> do { Run; r \<leftarrow> serve lib env node ctrl ns; ret (Inr r) })
   }"

definition pod_requests :: "('r, 'd) clientset \<Rightarrow> string \<Rightarrow> pod list \<Rightarrow> 'r client_event list" where
  "pod_requests c node pods = map (\<lambda>p. policy_request c (Namespace (PodMeta p))) (filter (\<lambda>p. NodeName p = node) pods)"

lemma sent_attempts [simp]: "sent c (attempts ns as) = []"
  by (induction as) auto

lemma sent_refusals [simp]: "sent c (refusals es) = replicate (length es) (policy_request c [])"
  by (induction es) auto

lemma AddPod_requests:
  "\<exists>r t. run_state (AddPod lib env node pod) h = (r, h @ t) \<and> sent c t = pod_requests c node [pod]"
proof (cases "NodeName pod = node")
  case True
  then show ?thesis
    by (rule run_AddPod [of pod node lib env h]) (auto simp: sent_append pod_requests_def True)
qed (simp add: pod_requests_def)

lemma notify_requests:
  assumes "serving ctrl"
  shows "\<exists>r t. run_state (notify lib env node ctrl n) h = (r, h @ t) \<and> sent c t = pod_requests c node (arriving n)"
proof (cases n)
  case (PodAdded p)
  with assms AddPod_requests [of lib env node p h c] show ?thesis by (simp add: notify_def serving_def)
next
  case (PodUpdated p p')
  with assms AddPod_requests [of lib env node p' h c] show ?thesis
    by (simp add: notify_def serving_def UpdatePod_def pod_requests_def)
qed (auto simp: notify_def AddNetPol_def UpdateNetPol_def DeleteNetPol_def pod_requests_def
    split: option.splits pol_handler.splits)

lemma serve_requests:
  assumes "serving ctrl"
  shows "\<exists>r t. run_state (serve lib env node ctrl ns) h = (r, h @ t) \<and>
     prefix (sent c t) (pod_requests c node (concat (map arriving ns))) \<and>
     (r = Inr () \<longrightarrow> sent c t = pod_requests c node (concat (map arriving ns)))"
proof (induction ns arbitrary: h)
  case Nil
  then show ?case by (simp add: pod_requests_def)
next
  case (Cons n ns)
  have app: "pod_requests c node (xs @ ys) = pod_requests c node xs @ pod_requests c node ys" for xs ys
    by (simp add: pod_requests_def)
  obtain r t where first: "run_state (notify lib env node ctrl n) h = (r, h @ t)"
    "sent c t = pod_requests c node (arriving n)"
    using notify_requests [OF assms] by blast
  show ?case
  proof (cases r)
    case (Inl panic)
    with first show ?thesis by (intro exI [of _ "Inl panic"] exI [of _ t]) (simp add: app)
  next
    case (Inr u)
    from Cons.IH [of "h @ t"] obtain r' t' where
      "run_state (serve lib env node ctrl ns) (h @ t) = (r', (h @ t) @ t')"
      "prefix (sent c t') (pod_requests c node (concat (map arriving ns)))"
      "r' = Inr () \<longrightarrow> sent c t' = pod_requests c node (concat (map arriving ns))" by blast
    with first Inr show ?thesis
      by (intro exI [of _ r'] exI [of _ "t @ t'"]) (simp add: sent_append app)
  qed
qed

lemma NewNetPolControl_requests:
  "\<exists>k \<le> 5. \<exists>r t. run_state (NewNetPolControl env None None None) h = (r, h @ t) \<and>
     sent c t = replicate k (policy_request c []) \<and> (\<forall>ctrl. r = Inr ctrl \<longrightarrow> serving ctrl)"
proof -
  let ?none = "\<lparr>PolicyController = None, PodController = None\<rparr>"
  have pods: "serving (createPodController None ctrl)" for ctrl
    by (simp add: serving_def createPodController_def)
  show ?thesis
    using run_discoverApi [of 5 env ?none h]
  proof (elim disjE exE conjE)
    fix es items
    assume a: "length es < 5" "run_state (discoverApi env 5 ?none) h =
      (createPolicyController ?none, h @ refusals es @ [ListPolicies [] (Inr items)])"
    then have "run_state (NewNetPolControl env None None None) h =
        (Inr (createPodController None (createPolicyController ?none)), h @ refusals es @ [ListPolicies [] (Inr items)])"
      by (simp add: NewNetPolControl_def MaxRetryCount_def createPolicyController_def)
    moreover have "sent c (refusals es @ [ListPolicies [] (Inr items)]) = replicate (Suc (length es)) (policy_request c [])"
      by (simp add: sent_append replicate_append_same)
    ultimately show ?thesis using a(1) pods by (intro exI [of _ "Suc (length es)"]) auto
  next
    fix es
    assume "length es = 5" "run_state (discoverApi env 5 ?none) h = (?none, h @ refusals es)"
    then show ?thesis
      by (intro exI [of _ 5]) (simp add: NewNetPolControl_def MaxRetryCount_def)
  qed
qed

section \<open>Properties\<close>

text \<open>
  C32: What the controller asks of the API server, in its whole life: at most five listings of the
  policies of the cluster to discover the API, then, for each Pod that arrives on the node, one listing
  of the policies of its namespace, in that order and nothing else; and every access, of the
  handlers and of the informers it runs, is one that its role grants.
\<close>

theorem controller_requests_exact:
  "\<exists>r t. run_state (controller_run lib (rest_api cenv c eps) node ns) h = (r, h @ t) \<and>
     (\<exists>k \<le> 5. prefix (sent c t) (replicate k (policy_request c []) @ pod_requests c node (concat (map arriving ns))) \<and>
        (r = Inr (Inr ()) \<longrightarrow>
           sent c t = replicate k (policy_request c []) @ pod_requests c node (concat (map arriving ns)))) \<and>
     (\<Union>e \<in> set t. set (pol_accesses cenv c opts e)) \<subseteq> {a. role_allows policer_role a}"
proof -
  let ?env = "rest_api cenv c eps"
  have role: "(\<Union>e \<in> set t. set (pol_accesses cenv c opts e)) \<subseteq> {a. role_allows policer_role a}" for t
    using allowed_event by blast
  obtain k r t where start: "k \<le> 5" "run_state (NewNetPolControl ?env None None None) h = (r, h @ t)"
    "sent c t = replicate k (policy_request c [])" "\<And>ctrl. r = Inr ctrl \<Longrightarrow> serving ctrl"
    using NewNetPolControl_requests [of ?env h c] by blast
  let ?asked = "\<lambda>r t. \<exists>k \<le> 5.
      prefix (sent c t) (replicate k (policy_request c []) @ pod_requests c node (concat (map arriving ns))) \<and>
      (r = Inr (Inr ()) \<longrightarrow>
         sent c t = replicate k (policy_request c []) @ pod_requests c node (concat (map arriving ns)))"
  have "\<exists>r t. run_state (controller_run lib ?env node ns) h = (r, h @ t) \<and> ?asked r t"
  proof (cases r)
    case (Inl err)
    then have "run_state (controller_run lib ?env node ns) h = (Inl err, h @ t)"
      using start(2) by (simp add: controller_run_def)
    moreover have "?asked (Inl err :: string + unit go) t" using start(1,3) by (intro exI [of _ k]) simp
    ultimately show ?thesis by blast
  next
    case (Inr ctrl)
    let ?run = "[SpawnRun PolicyInformer, SpawnRun PodInformer]"
    obtain r' t' where rest: "run_state (serve lib ?env node ctrl ns) (h @ t @ ?run) = (r', (h @ t @ ?run) @ t')"
      "prefix (sent c t') (pod_requests c node (concat (map arriving ns)))"
      "r' = Inr () \<longrightarrow> sent c t' = pod_requests c node (concat (map arriving ns))"
      using serve_requests [OF start(4) [OF Inr]] by blast
    have "run_state (controller_run lib ?env node ns) h = (Inr r', h @ (t @ ?run @ t'))"
      using start(2) Inr rest(1) by (simp add: controller_run_def Run_def)
    moreover have "sent c (t @ ?run @ t') = replicate k (policy_request c []) @ sent c t'"
      by (simp add: sent_append start(3))
    then have "?asked (Inr r' :: string + unit go) (t @ ?run @ t')" using start(1) rest(2,3) by (intro exI [of _ k]) simp
    ultimately show ?thesis by blast
  qed
  with role show ?thesis by blast
qed

text \<open>
  The policy informer watches the whole cluster: the controller makes one informer, new in every
  history, and its list and watch functions send, for any options of the reflector, a list and a watch of
  the policies in all namespaces; it is resynchronised every 30 seconds.
\<close>

theorem policy_informer_watches_cluster:
  "\<exists>i. run_state (createPolicyInformer c) h = (i, h @ [Created i (cluster_policies c)]) \<and>
     i = length (created h) \<and> spec_resync (cluster_policies c) = 30 * Second \<and>
     map access_of (policy_informer_requests cenv c opts) =
       [\<lparr>AccGroup = ''danm.k8s.io'', AccResource = ''danmnetworkpolicies'',
          AccVerb = (if OptWatch opts then ''watch'' else ''list'')\<rparr>,
        \<lparr>AccGroup = ''danm.k8s.io'', AccResource = ''danmnetworkpolicies'', AccVerb = ''watch''\<rparr>]"
  by (simp add: run_createPolicyInformer informer_accesses cluster_policies_def Second_def)

text \<open>
  C36: Tests on the generated fake client see no isolation: a fake client set filled with any policies
  answers every listing of the policer with an error or without a policy, since it files the policies
  under another group than it asks for; the policy set made from it selects no policy for any Pod.
\<close>

theorem fake_policies_never_apply:
  assumes "object_tracker new add get" and "NewSimpleClientset disc new add objs = Inr cs"
    and "\<And>h r k ns opts. case invokes_list fenv h (ListAction r k ns opts) of
        (None, err) \<Rightarrow> err \<noteq> None
      | (Some (m, items), err) \<Rightarrow> \<forall>p \<in> set items. \<exists>ns name. get (fake_tracker cs) r ns name = Some p"
  shows "\<exists>policySet h'. run_state (NewPolicySet_on lib (fake_clientset_interface slib fenv cs) ns) h =
      (Inr policySet, h') \<and> FilterApplicablePolicies policySet pod = []"
proof -
  let ?action = "ListAction danmnetworkpoliciesResource danmnetworkpoliciesKind ns no_options"
  have none: "get (fake_tracker cs) danmnetworkpoliciesResource ns name = None" for ns name
    by (rule object_tracker.fake_resource_empty [OF assms(1,2)])
  have "concat (map (bucket_get Map.empty) (pod_keys pod)) = ([] :: danm_network_policy list)"
    by (simp add: concat_eq_Nil_conv bucket_get_def)
  then have no_policy: "FilterApplicablePolicies Map.empty pod = []"
    by (simp only: FilterApplicablePolicies_eq dedup.simps)
  have empty: "sortPoliciesIntoBuckets lib [] = Map.empty" by (simp add: sortPoliciesIntoBuckets_def)
  obtain obj err where answer: "invokes_list fenv h ?action = (obj, err)" by fastforce
  have "(case obj of None \<Rightarrow> err \<noteq> None | Some (m, items) \<Rightarrow> items = [])"
  proof (cases obj)
    case None
    with assms(3) [where h = h and r = danmnetworkpoliciesResource and k = danmnetworkpoliciesKind and ns = ns and opts = no_options] answer show ?thesis by simp
  next
    case (Some p)
    with assms(3) [where h = h and r = danmnetworkpoliciesResource and k = danmnetworkpoliciesKind and ns = ns and opts = no_options] answer none
    show ?thesis by (cases p; cases "snd p") auto
  qed
  then have "\<exists>h'. run_state (NewPolicySet_on lib (fake_clientset_interface slib fenv cs) ns) h =
      (Inr Map.empty, h')"
    using answer by (cases err; cases obj) (auto simp: NewPolicySet_on_def fake_clientset_interface_def
        fake_DanmNetworkPolicies_def fake_NetpolV1_def fake_interface_def fake_List_exact FakeDanmNetworkPolicies_def Let_def empty)
  with no_policy show ?thesis by blast
qed

section \<open>The property at a concrete run\<close>

text \<open>A cluster without policies: one discovery request, one listing for the Pod.\<close>

definition quiet_client :: "(nat, unit) clientset" where
  "quiet_client = \<lparr>DiscoveryClient = (), netpolV1 = \<lparr>restClient = 0\<rparr>\<rparr>"

definition quiet_cenv :: "(nat, unit) client_env" where
  "quiet_cenv = \<lparr>policy_answer = \<lambda>_ _ _. (example_policy [], None), list_answer = \<lambda>_ _ _. ([], None),
     error_answer = \<lambda>_ _ _. None, watch_answer = \<lambda>_ _ _. Inr ()\<rparr>"

lemma quiet_api [simp]: "list_policies (rest_api quiet_cenv quiet_client eps) h ns = Inr []"
  by (simp add: rest_api_def run_rest_list quiet_cenv_def)

lemma controller_requests_exact_witness:
  "\<exists>t k. run_state (controller_run example_lib (rest_api quiet_cenv quiet_client (\<lambda>_ _. Inr [])) ''node''
       [PodAdded example_pod]) [] = (Inr (Inr ()), [] @ t) \<and> k \<le> 5 \<and>
     sent quiet_client t = replicate k (policy_request quiet_client []) @ [policy_request quiet_client ''ns'']"
proof -
  let ?run = "controller_run example_lib (rest_api quiet_cenv quiet_client (\<lambda>_ _. Inr [])) ''node'' [PodAdded example_pod]"
  have "FilterApplicablePolicies (NewPolicySet example_lib (Inr [])) example_pod = []" by code_simp
  then have done_run: "fst (run_state ?run []) = Inr (Inr ())"
    by (simp add: controller_run_def NewNetPolControl_def MaxRetryCount_def numeral_eq_Suc createPolicyController_def
        createPodController_def Run_def notify_def AddPod_def Let_def example_pod_def)
  obtain r t where run: "run_state ?run [] = (r, [] @ t)" and asked: "\<exists>k\<le>5. r = Inr (Inr ()) \<longrightarrow> sent quiet_client t =
      replicate k (policy_request quiet_client []) @ pod_requests quiet_client ''node'' (concat (map arriving [PodAdded example_pod]))"
    using controller_requests_exact [of example_lib quiet_cenv quiet_client "\<lambda>_ _. Inr []" "''node''"
        "[PodAdded example_pod]" "[]" no_options] by blast
  have r: "r = Inr (Inr ())" using done_run run by simp
  have pods: "pod_requests quiet_client ''node'' (concat (map arriving [PodAdded example_pod])) = [policy_request quiet_client ''ns'']"
    by (simp add: pod_requests_def example_pod_def)
  obtain k where "k \<le> 5" "sent quiet_client t = replicate k (policy_request quiet_client []) @ [policy_request quiet_client ''ns'']"
    using asked r pods by auto
  with run r show ?thesis by blast
qed

lemma fake_policies_never_apply_witness:
  "\<exists>cs policySet h'. NewSimpleClientset () Map.empty track [example_policy []] = Inr cs \<and>
     run_state (NewPolicySet_on example_lib (fake_clientset_interface
         \<lparr>ExtractLabel = \<lambda>_. None, Everything = (), Matches = \<lambda>_ _. True\<rparr>
         (tracker_env (fake_tracker cs)\<lparr>invokes_list := \<lambda>h a. (None, Some ''no kind'')\<rparr>) cs) ''ns'') [] = (Inr policySet, h') \<and>
     FilterApplicablePolicies policySet example_pod = []"
proof -
  obtain cs where cs: "NewSimpleClientset () Map.empty track [example_policy []] = Inr cs"
    by (simp add: NewSimpleClientset_def track_def)
  from fake_policies_never_apply [OF map_tracker.object_tracker_axioms cs,
      where fenv = "tracker_env (fake_tracker cs)\<lparr>invokes_list := \<lambda>h a. (None, Some ''no kind'')\<rparr>"
        and lib = example_lib and pod = example_pod and ns = "''ns''" and h = "[]"
        and slib = "\<lparr>ExtractLabel = \<lambda>_. None, Everything = (), Matches = \<lambda>_ _. True\<rparr>"] cs
  show ?thesis by auto
qed

end
