(* ===== verification/Startup.thy ===== *)
theory Startup
  imports Polctrl Netpolclient Cleaner Showalloc
begin

text \<open>
  The three programs from their command lines: Go's flag package as far as they use it (boolean
  and string flags, errors exit with status 2), \<open>cmd/policer/policer.go\<close>,
  \<open>cmd/cleaner/cleaner.go\<close> and the flags of \<open>cmd/showalloc/showalloc.go\<close>.
\<close>

section \<open>The flag package\<close>

datatype flag_kind = BoolFlag | StringFlag

text \<open>The flags defined so far and their values in text form.\<close>

type_synonym formal_flags = "string \<rightharpoonup> flag_kind"
type_synonym flag_values = "string \<rightharpoonup> string"

datatype flag_error =
  BadSyntax string
| NotDefined string
| HelpRequested
| InvalidBool string string
| NeedsArgument string

definition true_texts :: "string list" where
  "true_texts = [''1'', ''t'', ''T'', ''TRUE'', ''true'', ''True'']"

definition false_texts :: "string list" where
  "false_texts = [''0'', ''f'', ''F'', ''FALSE'', ''false'', ''False'']"

text \<open>\<open>strconv.ParseBool\<close>, and the text \<open>Set\<close> leaves in a boolean flag.\<close>

definition parse_bool :: "string \<Rightarrow> string option" where
  "parse_bool s = (if s \<in> set true_texts then Some ''true''
     else if s \<in> set false_texts then Some ''false'' else None)"

text \<open>The name of a flag argument and the value after its first \<open>=\<close>.\<close>

definition split_flag :: "string \<Rightarrow> string \<times> string option" where
  "split_flag s = (takeWhile (\<lambda>c. c \<noteq> CHR ''='') s,
     case dropWhile (\<lambda>c. c \<noteq> CHR ''='') s of [] \<Rightarrow> None | c # value \<Rightarrow> Some value)"

definition flag_body :: "string \<Rightarrow> string" where
  "flag_body s = (if s ! 1 = CHR ''-'' then drop 2 s else drop 1 s)"

text \<open>One flag argument: the flag, its value, and the arguments left over.\<close>

definition parse_one :: "formal_flags \<Rightarrow> string \<Rightarrow> string list \<Rightarrow>
    flag_error + string \<times> string \<times> string list" where
  "parse_one formal s args =
     (if flag_body s = [] \<or> hd (flag_body s) \<in> {CHR ''-'', CHR ''=''} then Inl (BadSyntax s)
      else (let (name, value) = split_flag (flag_body s) in
        case formal name of
          None \<Rightarrow> Inl (if name = ''help'' \<or> name = ''h'' then HelpRequested else NotDefined name)
        | Some BoolFlag \<Rightarrow>
            (case value of
               None \<Rightarrow> Inr (name, ''true'', args)
             | Some v \<Rightarrow> (case parse_bool v of
                 None \<Rightarrow> Inl (InvalidBool name v)
               | Some b \<Rightarrow> Inr (name, b, args)))
        | Some StringFlag \<Rightarrow>
            (case value of
               Some v \<Rightarrow> Inr (name, v, args)
             | None \<Rightarrow> (case args of
                 [] \<Rightarrow> Inl (NeedsArgument name)
               | v # args \<Rightarrow> Inr (name, v, args)))))"

lemma parse_one_shorter: "parse_one formal s args = Inr (name, v, rest) \<Longrightarrow> length rest \<le> length args"
  by (auto simp: parse_one_def split_def Let_def split: if_splits option.splits flag_kind.splits list.splits)

text \<open>
  \<open>flag.Parse\<close>: flags are set one after the other, up to the first argument that is no flag,
  or to \<open>--\<close>.
\<close>

function parse_flags :: "formal_flags \<Rightarrow> flag_values \<Rightarrow> string list \<Rightarrow> flag_error + flag_values" where
  "parse_flags formal vals [] = Inr vals"
| "parse_flags formal vals (s # args) =
     (if length s < 2 \<or> hd s \<noteq> CHR ''-'' \<or> s = ''--'' then Inr vals
      else (case parse_one formal s args of
              Inl err \<Rightarrow> Inl err
            | Inr (name, v, rest) \<Rightarrow> parse_flags formal (vals(name \<mapsto> v)) rest))"
  by pat_completeness auto
termination
proof (relation "measure (\<lambda>(formal, vals, args). length args)")
  fix formal :: formal_flags and vals :: flag_values and s args r name y v rest
  assume "parse_one formal s args = Inr r" "(name, y) = r" "(v, rest) = y"
  then have "parse_one formal s args = Inr (name, v, rest)" by simp
  then have "length rest \<le> length args" by (rule parse_one_shorter)
  then show "((formal, vals(name \<mapsto> v), rest), formal, vals, s # args) \<in>
      measure (\<lambda>(formal, vals, args). length args)" by simp
qed simp

text \<open>
  Defining one more flag does not change how a command line is parsed that parses without it,
  and leaves the value of that flag alone: parsing an undefined flag is an error.
\<close>

lemma parse_one_name: "parse_one formal s args = Inr (name, v, rest) \<Longrightarrow>
    name = fst (split_flag (flag_body s)) \<and> formal name \<noteq> None"
  by (auto simp: parse_one_def split_def Let_def split: if_splits option.splits flag_kind.splits list.splits)

lemma parse_one_cong: "formal' (fst (split_flag (flag_body s))) = formal (fst (split_flag (flag_body s))) \<Longrightarrow>
    parse_one formal' s args = parse_one formal s args"
  by (simp add: parse_one_def split_def Let_def)

lemma parse_one_undefined:
  assumes "parse_one formal s args = Inr (name, v, rest)" and "formal n = None"
  shows "parse_one (formal(n \<mapsto> k)) s args = Inr (name, v, rest) \<and> name \<noteq> n"
proof -
  from parse_one_name [OF assms(1)] assms(2) have "name \<noteq> n" "fst (split_flag (flag_body s)) \<noteq> n"
    by auto
  with parse_one_cong [of "formal(n \<mapsto> k)" s formal args] assms(1) show ?thesis by simp
qed

lemma parse_flags_undefined:
  "parse_flags formal vals args = Inr vals' \<Longrightarrow> formal n = None \<Longrightarrow>
     \<exists>w. parse_flags (formal(n \<mapsto> k)) vals2 args = Inr w \<and> w n = vals2 n"
proof (induction formal vals args arbitrary: vals2 rule: parse_flags.induct)
  case (2 formal vals s args)
  show ?case
  proof (cases "length s < 2 \<or> hd s \<noteq> CHR ''-'' \<or> s = ''--''")
    case False
    with "2.prems" obtain name v rest where one: "parse_one formal s args = Inr (name, v, rest)"
      by (auto split: sum.splits)
    with False "2.prems" have "parse_flags formal (vals(name \<mapsto> v)) rest = Inr vals'" by simp
    from "2.IH" [OF False one refl refl this "2.prems"(2), of "vals2(name \<mapsto> v)"] obtain w
      where "parse_flags (formal(n \<mapsto> k)) (vals2(name \<mapsto> v)) rest = Inr w"
        "w n = (vals2(name \<mapsto> v)) n" by blast
    then show ?thesis using False parse_one_undefined [OF one "2.prems"(2), of k]
      by (simp del: fun_upd_apply) (auto simp: fun_upd_apply)
  qed simp
qed simp

section \<open>The policer\<close>

text \<open>
  What a program does at start-up, in order. A nested event is one of the controller. The exit
  status is that of \<open>os.Exit\<close>; exits of the flag package have status 2.
\<close>

datatype main_event =
  LogVersion
| BuildConfigFromFlags string string
| InClusterConfig
| Policer pol_event
| BlockForever
| ExitWith int

text \<open>Running the controller's operations, which see their own part of the history.\<close>

fun policer_part :: "main_event list \<Rightarrow> pol_event list" where
  "policer_part [] = []"
| "policer_part (Policer e # h) = e # policer_part h"
| "policer_part (_ # h) = policer_part h"

definition as_policer :: "(pol_event, 'a) io \<Rightarrow> (main_event, 'a) io" where
  "as_policer m = State (\<lambda>h. let p = policer_part h; (x, p') = run_state m p
     in (x, h @ map Policer (drop (length p) p')))"

text \<open>
  The environment of the policer: the two ways to a configuration, DANM's client constructor,
  the libraries of the policy client, and the API server.
\<close>

record ('l, 's, 'x, 'r, 'd) policer_env =
  config_from_flags :: "main_event list \<Rightarrow> string \<Rightarrow> string \<Rightarrow> string + ('l, 's, 'x) rest_config"
  config_in_cluster :: "main_event list \<Rightarrow> string + ('l, 's, 'x) rest_config"
  danm_client_err :: "('l, 's, 'x) rest_config \<Rightarrow> string option"
  pod_client_err :: "('l, 's, 'x) rest_config \<Rightarrow> string option"
  client_go :: "('l, 's, 'x, 'r, 'd) client_lib"
  api_server :: pol_env

text \<open>\<open>kubeConfig\<close> is the pointer the flag package returned, never nil here.\<close>

definition getClientConfig :: "('l, 's, 'x, 'r, 'd) policer_env \<Rightarrow> string option \<Rightarrow>
    (main_event, string + ('l, 's, 'x) rest_config) io" where
  "getClientConfig env kubeConfig =
     (case kubeConfig of
        Some path \<Rightarrow> perform (\<lambda>h. config_from_flags env h [] path) (BuildConfigFromFlags [] path)
      | None \<Rightarrow> perform (config_in_cluster env) InClusterConfig)"

definition left :: "'e + 'a \<Rightarrow> 'e option" where
  "left r = (case r of Inl e \<Rightarrow> Some e | Inr _ \<Rightarrow> None)"

definition policer_start :: "('l, 's, 'x, 'r, 'd) policer_env \<Rightarrow> string option \<Rightarrow> (main_event, unit) io" where
  "policer_start env kubeConfig = do {
     config \<leftarrow> getClientConfig env kubeConfig;
     (case config of
        Inl err \<Rightarrow> emit (ExitWith (- 1))
      | Inr config \<Rightarrow> do {
          netPolicer \<leftarrow> as_policer (NewNetPolControl (api_server env)
            (left (NewForConfig (client_go env) config)) (danm_client_err env config) (pod_client_err env config));
          (case netPolicer of
             Inl err \<Rightarrow> emit (ExitWith (- 1))
           | Inr ctrl \<Rightarrow> do { as_policer Run; emit BlockForever }) }) }"

definition policer_main :: "('l, 's, 'x, 'r, 'd) policer_env \<Rightarrow> string list \<Rightarrow> (main_event, unit) io" where
  "policer_main env args =
     (let formal = [''version'' \<mapsto> BoolFlag]; vals = [''version'' \<mapsto> ''false'']
      in case parse_flags formal vals args of
           Inl err \<Rightarrow> emit (ExitWith 2)
         | Inr vals \<Rightarrow>
             (if vals ''version'' = Some ''true'' then emit LogVersion
              else
                (let formal = formal(''kubeconf'' \<mapsto> StringFlag); vals = vals(''kubeconf'' \<mapsto> [])
                 in case parse_flags formal vals args of
                      Inl err \<Rightarrow> emit (ExitWith 2)
                    | Inr vals \<Rightarrow> policer_start env (vals ''kubeconf''))))"

text \<open>
  C18: the policer never uses the kubeconf flag it announces: whatever the command line, it
  either exits at the flags with status 2, or prints its version, or starts with the empty
  path, which stands for the configuration of the cluster it runs in. In particular every
  command line whose first argument sets kubeconf ends in status 2, because the flag is only
  defined after the first Parse.
\<close>

lemma kubeconf_never_used:
  "(run_state (policer_main env args) h = run_state (emit (ExitWith 2)) h \<or>
    run_state (policer_main env args) h = run_state (emit LogVersion) h \<or>
    run_state (policer_main env args) h = run_state (policer_start env (Some [])) h) \<and>
   run_state (policer_main env ((''-kubeconf='' @ path) # rest)) h = run_state (emit (ExitWith 2)) h \<and>
   run_state (policer_main env (''-kubeconf'' # rest)) h = run_state (emit (ExitWith 2)) h"
proof (intro conjI)
  let ?f = "[''version'' \<mapsto> BoolFlag]" and ?v = "[''version'' \<mapsto> ''false'']"
  show "run_state (policer_main env args) h = run_state (emit (ExitWith 2)) h \<or>
    run_state (policer_main env args) h = run_state (emit LogVersion) h \<or>
    run_state (policer_main env args) h = run_state (policer_start env (Some [])) h"
  proof (cases "parse_flags ?f ?v args")
    case (Inr vals)
    from parse_flags_undefined [OF Inr, of "''kubeconf''" StringFlag "vals(''kubeconf'' \<mapsto> [])"]
    obtain w where "parse_flags (?f(''kubeconf'' \<mapsto> StringFlag)) (vals(''kubeconf'' \<mapsto> [])) args = Inr w"
      and "w ''kubeconf'' = Some []" by auto
    with Inr show ?thesis by (simp add: policer_main_def Let_def del: fun_upd_apply)
  qed (simp add: policer_main_def)
  show "run_state (policer_main env ((''-kubeconf='' @ path) # rest)) h = run_state (emit (ExitWith 2)) h"
    and "run_state (policer_main env (''-kubeconf'' # rest)) h = run_state (emit (ExitWith 2)) h"
    by (simp_all add: policer_main_def parse_one_def flag_body_def split_flag_def)
qed

text \<open>The controller's operations inside the program.\<close>

lemma policer_part_append: "policer_part (h @ h') = policer_part h @ policer_part h'"
  by (induction h rule: policer_part.induct) auto

lemma policer_part_map [simp]: "policer_part (map Policer t) = t"
  by (induction t) auto

lemma run_as_policer:
  assumes "run_state m (policer_part h) = (x, policer_part h @ t)"
  shows "run_state (as_policer m) h = (x, h @ map Policer t)"
  using assms by (simp add: as_policer_def)

lemma run_NewNetPolControl:
  "(\<exists>e. run_state (NewNetPolControl api err1 err2 err3) h = (Inl e, h)) \<and> (err1 \<noteq> None \<or> err2 \<noteq> None) \<or>
   err1 = None \<and> err2 = None \<and>
   ((\<exists>es items ctrl. length es < 5 \<and> run_state (NewNetPolControl api err1 err2 err3) h =
       (Inr ctrl, h @ refusals es @ [ListPolicies [] (Inr items)])) \<or>
    (\<exists>es e. length es = 5 \<and> run_state (NewNetPolControl api err1 err2 err3) h = (Inl e, h @ refusals es)))"
proof (cases "err1 = None \<and> err2 = None")
  case True
  with run_discoverApi [of 5 api "\<lparr>PolicyController = None, PodController = None\<rparr>" h]
  show ?thesis
    by (auto simp: NewNetPolControl_def MaxRetryCount_def createPolicyController_def)
qed (auto simp: NewNetPolControl_def split: option.split)

text \<open>
  C17: the start-up has two ends. Either the configuration is built, the clients of the policies
  and of DANM are made, one of at most five discovery listings succeeds, and then both informers are
  started and the program blocks, whether or not the client of the Pods could be made; or it exits with status -1 without starting an informer, after no or after
  exactly five failed listings.
\<close>

lemma policer_runs_or_exits:
  "\<exists>t. run_state (policer_start env (Some path)) h = ((), h @ BuildConfigFromFlags [] path # t) \<and>
    ((\<exists>config cs es items. config_from_flags env h [] path = Inr config \<and>
        NewForConfig (client_go env) config = Inr cs \<and> danm_client_err env config = None \<and>
        length es < 5 \<and>
        t = map Policer (refusals es @ [ListPolicies [] (Inr items),
              SpawnRun PolicyInformer, SpawnRun PodInformer]) @ [BlockForever]) \<or>
     (\<exists>es. (es = [] \<or> length es = 5) \<and> t = map Policer (refusals es) @ [ExitWith (- 1)]))"
proof (cases "config_from_flags env h [] path")
  case (Inl e)
  then show ?thesis
    by (intro exI [of _ "[ExitWith (- 1)]"])
      (auto simp: policer_start_def getClientConfig_def intro!: exI [of _ "[]"])
next
  case (Inr config)
  let ?h = "h @ [BuildConfigFromFlags [] path]"
  let ?m = "NewNetPolControl (api_server env) (left (NewForConfig (client_go env) config))
    (danm_client_err env config) (pod_client_err env config)"
  from run_NewNetPolControl [of "api_server env" "left (NewForConfig (client_go env) config)"
      "danm_client_err env config" "pod_client_err env config" "policer_part ?h"]
  show ?thesis
  proof (elim disjE conjE exE)
    fix es items ctrl
    assume ok: "left (NewForConfig (client_go env) config) = None" "danm_client_err env config = None"
      "length es < 5" "run_state ?m (policer_part ?h) =
        (Inr ctrl, policer_part ?h @ refusals es @ [ListPolicies [] (Inr items)])"
    obtain cs where "NewForConfig (client_go env) config = Inr cs"
      using ok(1) by (auto simp: left_def split: sum.splits)
    moreover have "run_state (as_policer Run) h' =
        ((), h' @ map Policer [SpawnRun PolicyInformer, SpawnRun PodInformer])" for h'
      by (rule run_as_policer) (simp add: Run_def)
    ultimately show ?thesis
      using ok Inr run_as_policer [OF ok(4)]
      by (intro exI [of _ "map Policer (refusals es @ [ListPolicies [] (Inr items),
              SpawnRun PolicyInformer, SpawnRun PodInformer]) @ [BlockForever]"])
        (auto simp: policer_start_def getClientConfig_def)
  next
    fix es e
    assume "length es = 5" and "run_state ?m (policer_part ?h) = (Inl e, policer_part ?h @ refusals es)"
    from this(1) run_as_policer [OF this(2)] Inr show ?thesis
      by (intro exI [of _ "map Policer (refusals es) @ [ExitWith (- 1)]"])
        (auto simp: policer_start_def getClientConfig_def)
  next
    fix e assume "run_state ?m (policer_part ?h) = (Inl e, policer_part ?h)"
    then have "run_state (as_policer ?m) ?h = (Inl e, ?h @ map Policer [])"
      by (intro run_as_policer) simp
    with Inr show ?thesis
      by (intro exI [of _ "[ExitWith (- 1)]"])
        (auto simp: policer_start_def getClientConfig_def intro!: exI [of _ "[]"])
  next
    fix e assume "run_state ?m (policer_part ?h) = (Inl e, policer_part ?h)"
    then have "run_state (as_policer ?m) ?h = (Inl e, ?h @ map Policer [])"
      by (intro run_as_policer) simp
    with Inr show ?thesis
      by (intro exI [of _ "[ExitWith (- 1)]"])
        (auto simp: policer_start_def getClientConfig_def intro!: exI [of _ "[]"])
  qed
qed

section \<open>The cleaner\<close>

datatype cleaner_main_event =
  CleanerConfig string string
| WrapTransport
| NewKubeClient
| NewDanmClient
| NewInformerFactory nat
| NewCleanerOn
| NewBroadcaster
| StartRecordingToSink string
| NewRecorder string
| NewResourceLock string string string
| LostLeader
| RunOrDie nat nat nat
| CancelContext
| CleanerExit int

text \<open>The errors of the constructors, and the host name when the system knows it.\<close>

record cleaner_main_env =
  cleaner_config_err :: "string \<Rightarrow> string \<Rightarrow> string option"
  kube_client_err :: "string option"
  cleaner_danm_client_err :: "string option"
  lock_err :: "string option"
  hostname :: "string option"

definition GetHostname :: "cleaner_main_env \<Rightarrow> string" where
  "GetHostname env = (case hostname env of Some name \<Rightarrow> name | None \<Rightarrow> [])"

text \<open>The recorder of the leader election, which writes its events to a namespace.\<close>

definition createRecorder :: "string \<Rightarrow> (cleaner_main_event, unit) io" where
  "createRecorder component = do {
     emit NewBroadcaster;
     emit (StartRecordingToSink ''kube-system'');
     emit (NewRecorder component) }"

text \<open>
  \<open>RunOrDie\<close> blocks until the lease is lost, and then calls \<open>OnStoppedLeading\<close>, which reports
  \<open>LostLeader\<close>; while the lease is held \<open>cleanStuff\<close> of Cleaner runs. The
  deferred \<open>cancel\<close> runs on a return, not on \<open>os.Exit\<close>. Durations are in seconds.
\<close>

definition cleaner_main :: "cleaner_main_env \<Rightarrow> string list \<Rightarrow> (cleaner_main_event, unit) io" where
  "cleaner_main env args =
     (case parse_flags [''kubeconf'' \<mapsto> StringFlag] [''kubeconf'' \<mapsto> []] args of
        Inl err \<Rightarrow> emit (CleanerExit 2)
      | Inr vals \<Rightarrow> do {
          let kubeConf = the (vals ''kubeconf'');
          err \<leftarrow> perform (\<lambda>h. cleaner_config_err env [] kubeConf) (CleanerConfig [] kubeConf);
          (if err \<noteq> None then emit (CleanerExit 1) else do {
            emit WrapTransport;
            err \<leftarrow> perform (\<lambda>h. kube_client_err env) NewKubeClient;
            (if err \<noteq> None then emit (CleanerExit 1) else do {
              err \<leftarrow> perform (\<lambda>h. cleaner_danm_client_err env) NewDanmClient;
              (if err \<noteq> None then emit (CleanerExit 1) else do {
                emit (NewInformerFactory 30);
                emit NewCleanerOn;
                createRecorder ''danm-cleaner'';
                err \<leftarrow> perform (\<lambda>h. lock_err env)
                  (NewResourceLock ''kube-system'' ''danm-cleaner'' (GetHostname env));
                (if err \<noteq> None then emit (CleanerExit 1) else do {
                  emit (RunOrDie 10 5 3);
                  emit LostLeader;
                  emit CancelContext }) }) }) }) })"

section \<open>Flags written and read back\<close>

text \<open>An argument that sets a flag, and the names and values it can carry.\<close>

definition render_flag :: "string \<times> string \<Rightarrow> string" where
  "render_flag nv = ''-'' @ fst nv @ ''='' @ snd nv"

definition settable :: "formal_flags \<Rightarrow> string \<times> string \<Rightarrow> bool" where
  "settable formal nv \<longleftrightarrow> fst nv \<noteq> [] \<and> CHR ''='' \<notin> set (fst nv) \<and> hd (fst nv) \<noteq> CHR ''-'' \<and>
     (formal (fst nv) = Some StringFlag \<or>
      formal (fst nv) = Some BoolFlag \<and> snd nv \<in> {''true'', ''false''})"

lemma split_flag_render: "CHR ''='' \<notin> set n \<Longrightarrow> split_flag (n @ CHR ''='' # v) = (n, Some v)"
  by (simp add: split_flag_def takeWhile_append2 dropWhile_append)

lemma parse_one_render:
  assumes "settable formal (n, v)"
  shows "parse_one formal (render_flag (n, v)) args = Inr (n, v, args)"
proof -
  from assms obtain c cs where n: "n = c # cs" "c \<noteq> CHR ''-''" "CHR ''='' \<notin> set n" "c \<noteq> CHR ''=''"
    by (cases n) (auto simp: settable_def)
  then have "flag_body (render_flag (n, v)) = n @ CHR ''='' # v"
    by (simp add: flag_body_def render_flag_def)
  moreover have "split_flag (n @ CHR ''='' # v) = (n, Some v)" using n(3) by (rule split_flag_render)
  ultimately show ?thesis using assms n
    by (auto simp: parse_one_def settable_def parse_bool_def true_texts_def false_texts_def)
qed

lemma parse_settings:
  assumes "list_all (settable formal) settings"
  shows "parse_flags formal vals (map render_flag settings) = Inr (vals ++ map_of (rev settings))"
  using assms
proof (induction settings arbitrary: vals)
  case (Cons nv settings)
  obtain n v where nv: "nv = (n, v)" by fastforce
  with Cons.prems have set: "settable formal (n, v)" by simp
  have first: "\<not> (length (render_flag (n, v)) < 2 \<or> hd (render_flag (n, v)) \<noteq> CHR ''-'' \<or>
      render_flag (n, v) = ''--'')"
    using set by (cases n) (auto simp: render_flag_def settable_def)
  have "parse_flags formal vals (map render_flag (nv # settings)) =
      parse_flags formal (vals(n \<mapsto> v)) (map render_flag settings)"
    using first by (simp add: nv parse_one_render [OF set])
  also have "\<dots> = Inr (vals(n \<mapsto> v) ++ map_of (rev settings))" using Cons by simp
  also have "vals(n \<mapsto> v) ++ map_of (rev settings) = vals ++ map_of (rev (nv # settings))"
    by (simp add: nv map_of_append)
  finally show ?case .
qed simp

text \<open>
  flags round-trip through the command line: arguments written as -name=value for defined
  flags (any text for a string flag, true or false for a boolean one) are parsed back to
  exactly these values, the last one winning, and every other flag keeps its value.
\<close>

lemma parse_rendered_flags:
  assumes "list_all (settable formal) settings"
  shows "parse_flags formal vals (map render_flag settings) = Inr (vals ++ map_of (rev settings))"
  using assms by (rule parse_settings)

definition policer_settings :: "(string \<times> string) list" where
  "policer_settings = [(''kubeconf'', ''/etc/kube=1''), (''version'', ''true''), (''kubeconf'', [])]"

lemma parse_rendered_flags_witness:
  "parse_flags [''version'' \<mapsto> BoolFlag, ''kubeconf'' \<mapsto> StringFlag] Map.empty
     (map render_flag policer_settings) = Inr (map_of (rev policer_settings))"
proof -
  have "list_all (settable [''version'' \<mapsto> BoolFlag, ''kubeconf'' \<mapsto> StringFlag]) policer_settings"
    by (simp add: policer_settings_def settable_def)
  from parse_rendered_flags [OF this, of Map.empty] show ?thesis by simp
qed

section \<open>The command line of showalloc\<close>

definition sa_formal :: formal_flags where
  "sa_formal = [''kubeconfig'' \<mapsto> StringFlag, ''dnet'' \<mapsto> StringFlag, ''cnet'' \<mapsto> StringFlag,
     ''tnet'' \<mapsto> StringFlag, ''n'' \<mapsto> StringFlag, ''6'' \<mapsto> BoolFlag, ''showCIDR'' \<mapsto> StringFlag,
     ''a'' \<mapsto> BoolFlag]"

definition sa_defaults :: flag_values where
  "sa_defaults = [''kubeconfig'' \<mapsto> [], ''dnet'' \<mapsto> [], ''cnet'' \<mapsto> [], ''tnet'' \<mapsto> [],
     ''n'' \<mapsto> ''default'', ''6'' \<mapsto> ''false'', ''showCIDR'' \<mapsto> [], ''a'' \<mapsto> ''false'']"

definition sa_flags_of :: "flag_values \<Rightarrow> sa_flags" where
  "sa_flags_of vals = \<lparr>Dnet = the (vals ''dnet''), Cnet = the (vals ''cnet''),
     Tnet = the (vals ''tnet''), NsFlag = the (vals ''n''), V6Flag = (vals ''6'' = Some ''true''),
     ShowCidrStr = the (vals ''showCIDR''), ShowAllFlag = (vals ''a'' = Some ''true'')\<rparr>"

text \<open>
  The program from its arguments; \<open>build\<close> is \<open>clientcmd.BuildConfigFromFlags\<close>. The left value is
  the exit status of the flag package.
\<close>

definition showalloc_program :: "sa_api \<Rightarrow> (string \<Rightarrow> string option) \<Rightarrow> string list \<Rightarrow> int + sa_result" where
  "showalloc_program api build args =
     (case parse_flags sa_formal sa_defaults args of
        Inl err \<Rightarrow> Inl 2
      | Inr vals \<Rightarrow>
          Inr (showalloc_main (api\<lparr>BuildConfig := build (the (vals ''kubeconfig''))\<rparr>) (sa_flags_of vals)))"

text \<open>The command line that asks for given flags.\<close>

definition bool_text :: "bool \<Rightarrow> string" where
  "bool_text b = (if b then ''true'' else ''false'')"

definition sa_args :: "sa_flags \<Rightarrow> string \<Rightarrow> string list" where
  "sa_args fl path = map render_flag [(''kubeconfig'', path), (''dnet'', Dnet fl), (''cnet'', Cnet fl),
     (''tnet'', Tnet fl), (''n'', NsFlag fl), (''6'', bool_text (V6Flag fl)),
     (''showCIDR'', ShowCidrStr fl), (''a'', bool_text (ShowAllFlag fl))]"

text \<open>
  every combination of showalloc's options can be asked for on the command line: the
  arguments that spell out the options make the program run with exactly these options.
\<close>

lemma showalloc_options_reachable:
  "showalloc_program api build (sa_args fl path) =
     Inr (showalloc_main (api\<lparr>BuildConfig := build path\<rparr>) fl)"
proof -
  let ?settings = "[(''kubeconfig'', path), (''dnet'', Dnet fl), (''cnet'', Cnet fl),
     (''tnet'', Tnet fl), (''n'', NsFlag fl), (''6'', bool_text (V6Flag fl)),
     (''showCIDR'', ShowCidrStr fl), (''a'', bool_text (ShowAllFlag fl))]"
  have "list_all (settable sa_formal) ?settings"
    by (simp add: settable_def sa_formal_def bool_text_def)
  then have "parse_flags sa_formal sa_defaults (sa_args fl path) =
      Inr (sa_defaults ++ map_of (rev ?settings))"
    unfolding sa_args_def by (rule parse_settings)
  moreover have "sa_flags_of (sa_defaults ++ map_of (rev ?settings)) = fl"
    by (cases fl) (simp add: sa_flags_of_def bool_text_def)
  ultimately show ?thesis by (simp add: showalloc_program_def)
qed

text \<open>
  the cleaner takes part in the leader election exactly when its command line parses, the
  configuration of the path it names (the cluster's own without one) can be built, and both
  clients and the lock can be made; otherwise it exits, with status 2 on a bad command line and
  1 on any other failure, and RunOrDie is then never called.
\<close>

lemma cleaner_leads_or_exits:
  "(case parse_flags [''kubeconf'' \<mapsto> StringFlag] [''kubeconf'' \<mapsto> []] args of
      Inl err \<Rightarrow> run_state (cleaner_main env args) h = ((), h @ [CleanerExit 2])
    | Inr vals \<Rightarrow>
        (\<exists>t. run_state (cleaner_main env args) h =
             ((), h @ CleanerConfig [] (the (vals ''kubeconf'')) # t) \<and>
          (if cleaner_config_err env [] (the (vals ''kubeconf'')) = None \<and> kube_client_err env = None \<and>
              cleaner_danm_client_err env = None \<and> lock_err env = None
           then t = [WrapTransport, NewKubeClient, NewDanmClient, NewInformerFactory 30, NewCleanerOn,
                  NewBroadcaster, StartRecordingToSink ''kube-system'', NewRecorder ''danm-cleaner'',
                  NewResourceLock ''kube-system'' ''danm-cleaner'' (GetHostname env),
                  RunOrDie 10 5 3, LostLeader, CancelContext]
           else last t = CleanerExit 1 \<and> (\<forall>lease renew retry. RunOrDie lease renew retry \<notin> set t))))"
proof (cases "parse_flags [''kubeconf'' \<mapsto> StringFlag] [''kubeconf'' \<mapsto> []] args")
  case (Inr vals)
  then show ?thesis
    by (cases "lock_err env"; cases "cleaner_danm_client_err env"; cases "kube_client_err env";
        cases "cleaner_config_err env [] (the (vals ''kubeconf''))")
      (simp_all add: cleaner_main_def createRecorder_def)
qed (simp add: cleaner_main_def)

end
