(* ===== verification/Spec2Isabelle.thy ===== *)
theory Spec2Isabelle
  imports Policyspec Cleansystem Showalloc Deepcopy Wiring Startup
begin

text \<open>
  A verification library for danm-utils: the DANM policer (network policies enforced by iptables
  rules inside the network namespaces of Pods), the DANM cleaner (freeing the addresses of
  dangling endpoints) and showalloc (listing the allocations of a network).

  How the program works. The policer (\<open>cmd/policer\<close>) runs \<open>pkg/polctrl\<close>: a Pod that arrives on the
  node is handled by \<open>AddPod\<close>, which lists the DanmNetworkPolicies of its namespace and selects the
  applicable ones (\<open>pkg/polset\<close>), lists the DanmEps and indexes them (\<open>pkg/depset\<close>), builds a rule
  set (\<open>pkg/netruleset\<close>) and starts the provisioner (\<open>pkg/provisioner/iptables\<close>) as a goroutine. The
  cleaner (\<open>cmd/cleaner\<close>) runs \<open>pkg/cleaner\<close>: a periodic sweep and queue workers, both of which
  delete endpoints through \<open>pkg/danmep\<close>. Showalloc (\<open>cmd/showalloc\<close>) is a single run. The policer
  reaches its policies through the generated code under \<open>crd\<close>: the API types with their deep copies
  and their registration, the client set, the informer factory and the lister.

  Conventions (\<open>Prelude\<close>). A Go panic is a value of \<open>go_panic\<close>; operations that can panic return
  \<open>'a go\<close>. A pointer is an option, a Go map a partial function, a Go map that is only ranged over the
  list of its entries in the order of this run, which is arbitrary. Everything outside the program
  (the API server, iptables, namespaces, sleeps, goroutines, the work queue) is an event; a stateful
  operation runs in the state monad over the history of events, and what a call answers is an
  arbitrary function of the history before it. Libraries that are not part of the repository are
  parameters (\<open>libs\<close>, \<open>ipam_lib\<close>, \<open>cache_lib\<close>, \<open>sa_api\<close>, \<open>api_lib\<close>, \<open>scheme_lib\<close>, \<open>client_lib\<close>,
  \<open>cache_api\<close>, the tracker of \<open>Fakeclient\<close>); what is relied on of them is a locale. Go's own \<open>net\<close> and
  \<open>flag\<close> packages, \<open>strings.Split\<close> and slices are modelled. Log output is left out. Only the deep copies
  depend on which pointers and slices share memory; they alone work on an explicit store, everywhere
  else a struct is the value it denotes.

  The theories, from the bottom:
    \<^item> \<open>Prelude\<close>: panics, events, and the UID cache: the locale \<open>uid_loop\<close> reduces a loop that fills a
      list through such a cache to \<open>dedup\<close>.
    \<^item> \<open>Buckets\<close>: maps from strings to slices, and the locale \<open>bucket_index\<close>, the contract of an index.
    \<^item> \<open>Poltypes\<close>: \<open>crd/api/netpol/v1/types.go\<close>, \<open>types/poltypes\<close>, the Kubernetes and DANM objects.
    \<^item> \<open>Polset\<close>, \<open>Depset\<close>: the two sorters, each an interpretation of \<open>bucket_index\<close>, and the filter
      of applicable policies.
    \<^item> \<open>Netruleset\<close>: selection of endpoints and rule building; the locale \<open>parser_contract\<close> is the
      contract of the function type \<open>RuleParser\<close>, interpreted on both parsers.
    \<^item> \<open>Iptables\<close>: the provisioner as a sequence of calls. \<open>table_calls\<close> is the sequence that a run of
      \<open>AddRulesToNewPod\<close> is shown to make when no call fails (\<open>calls_succeed\<close>), \<open>ns_run\<close> the discipline of
      the locked thread.
    \<^item> \<open>Netfilter\<close>: the contract of the iptables wrapper (locale \<open>filter_table\<close>), its reference
      implementation \<open>kernel_call\<close>, the refinement between the two, and the tables after runs: \<open>after_run\<close>
      applies the calls of a run of \<open>AddRulesToNewPod\<close>, \<open>provisioned\<close> reads the tables it leaves.
    \<^item> \<open>Isolation\<close>: chain traversal with jumps and verdicts; what provisioned tables accept.
    \<^item> \<open>Threads\<close>: provisioner runs interleaved on OS threads: \<open>node_step\<close> is one call of one goroutine,
      \<open>node_inv\<close> the invariant that keeps the namespaces of the Pods apart.
    \<^item> \<open>Polctrl\<close>: the controller: retries, discovery, notifications, and which of them it reacts to.
    \<^item> \<open>Policer\<close>: the pipeline from the arrival of a Pod to the verdict on a packet, and what becomes of each
      rule of a rule set in the tables (\<open>holds_rules\<close>, \<open>extends_by\<close>).
    \<^item> \<open>Policyspec\<close>: what policies allow, as predicates on packets: \<open>ingress_allows\<close> and \<open>egress_allows\<close> as the
      code means them; \<open>ingress_documented\<close> and \<open>egress_documented\<close> as the guide does, which is the
      Kubernetes NetworkPolicy with a network selector: match expressions, namespace selectors, policy types,
      empty peer lists and default protocols included. The tables of a node refine the first, and on plain
      policies, which leave out what the code does not support, both agree.
    \<^item> \<open>Ipaddr\<close>: byte-slice addresses, masks and their parsers, as in Go 1.13.
    \<^item> \<open>Danmep\<close>: release services behind the locale \<open>release_service_contract\<close>, endpoint deletion.
    \<^item> \<open>Cleaner\<close>: sweep, queue workers, Pod handlers, start and stop.
    \<^item> \<open>Cleanrace\<close>: the threads of the cleaner interleaved over the endpoints of the API server, with and
      without two of them on the same endpoint.
    \<^item> \<open>Cleanspec\<close>: the sweep as a refinement of an abstract cleanup on the set of existing endpoints.
    \<^item> \<open>Workqueue\<close>: the workers over the contract of client-go's queue (locale \<open>work_queue\<close>, interpreted on
      \<open>wq_step\<close>, the algorithm it documents) and of its keys (locale \<open>cache_keys\<close>, interpreted on \<open>slash_keys\<close>).
    \<^item> \<open>Drain\<close>: the way of a Pod that goes away from the informer through the queue to a worker; the locales
      \<open>draining_queue\<close> and \<open>pod_keys\<close> extend the two contracts.
    \<^item> \<open>Cleansystem\<close>: all threads of the cleaner together, \<open>cleaner_threads\<close>.
    \<^item> \<open>Showalloc\<close>: address arithmetic on 32-bit words and the listing loop.
    \<^item> \<open>Store\<close>: memory as arrays at addresses, slices as windows into them, and the locale
      \<open>deep_copyable\<close>, the contract of a copy function: it ends, the copy denotes the same value, lies in new
      memory only, and the old memory is as before. Slices and pointers inherit it.
    \<^item> \<open>Deepcopy\<close>: \<open>crd/api/netpol/v1/zz_generated.deepcopy.go\<close>; each of its functions meets the contract, given
      that the copies of the library structs do (locale \<open>api_libs\<close>, interpreted on \<open>map_lib\<close>).
    \<^item> \<open>Netpolclient\<close>: registration (\<open>crd/api/netpol/register.go\<close>, \<open>v1/register.go\<close>, \<open>scheme/register.go\<close>) and
      the REST client (\<open>clientset.go\<close>, \<open>netpol_client.go\<close>, \<open>danmnetworkpolicy.go\<close>), with the Go interfaces it
      implements as records of their methods.
    \<^item> \<open>Fakeclient\<close>: the client set for tests, the second implementation of those interfaces, over the contract
      \<open>object_tracker\<close>.
    \<^item> \<open>Lister\<close>: reading the cache of an informer, over the contract \<open>policy_indexer\<close>.
    \<^item> \<open>Informers\<close>: the informer factory as a state machine, \<open>factory_step\<close>; its methods hold the mutex,
      so that a concurrent use is a sequence of steps.
    \<^item> \<open>Wiring\<close>: the controller over the real client set: the requests of its whole life against the role
      in its manifest, and the policy set over any client set, the real one and the fake one.
    \<^item> \<open>Startup\<close>: the flag package, \<open>cmd/policer/policer.go\<close>, \<open>cmd/cleaner/cleaner.go\<close> and the command line
      of \<open>cmd/showalloc\<close>.

  What is shown. Selection: the applicable policies and selected endpoints are exactly characterised,
  independently of map order. Rules: the rule set has a closed form on every path, and its
  addresses are exactly those of the selected endpoints. Provisioning: runs for different
  Pods, interleaved in any way, leave what each leaves alone; re-running is idempotent; every rule becomes
  one entry of a chain of the policer's own, and nothing but defaults and jumps is added elsewhere; on fresh tables
  INPUT and OUTPUT accept exactly lo, established, DNS (out) and whitelisted packets. Enforcement:
  the tables in the namespace of a Pod accept exactly what the policies and endpoints that
  the API server listed for it allow, and on plain policies this is what the guide says. Control: the
  provisioner is started only for own Pods with rules justified by API answers, within five attempts, and at most once for each arrival, whatever else
  the controller is notified of;
  the requests of the controller are exactly known, and its role grants them. Cleaning: a sweep takes
  only endpoints whose Pod is gone, and all of them when no call fails; whichever thread deletes an endpoint has released both its
  addresses and can account for it; no Pod whose departure the informer saw is forgotten by the queue; workers never
  release an address their endpoint has lost, and balance the queue and stop. Listing: an entry for exactly the
  indices that are to be listed, in order, and telling what is documented of each. Generated code: deep copies refine the identity on
  API values, are type sound and share nothing with their original; a namespaced client sends one request
  per call and stays in its namespace; the lister agrees with the cache; the factory makes one
  informer per requested type and runs it at most once. Start-up: the policer runs or exits, and no run uses the kubeconf flag.
  Some theorems state behaviour that departs from the user guide (one matching label suffices, an
  unmatched selector widens, integer ports open all ports, rules out of date after re-provisioning,
  failing open, deletions blocked by a missing address, lost tombstones, an unusable flag, the ignored error of
  the Pod client, a fake client on which no policy ever applies, ingress policies that stop egress, a timeout that wraps around, addresses released twice, IPv6 neighbour
  solicitations rejected, running Pods that never see a later policy).

  Bounds. The retry loops count down from \<open>MaxRetryCount\<close> (5). \<open>pollSynced\<close> terminates by its timer,
  \<open>show_loop\<close> by the distance to the length of the bit array. \<open>runWorker\<close> and \<open>tick_loop\<close>, endless in
  the code, take the number of rounds; \<open>worker_terminates\<close> shows how many suffice once the queue is
  shut down. \<open>traverse\<close> bounds nested jumps; \<open>accepts\<close> allows one, and the program's own chains hold no
  jump.

  Not modelled: what client-go, DANM and the iptables wrapper do inside (leader election,
  watches and the delta queues of informers, rate limiting, discovery), beyond the contracts above; the
  receivers of the policer's stop channel, which are inside client-go; JSON tags; log output. Where goroutines
  share state their calls are interleaved (\<open>Threads\<close>, \<open>Cleansystem\<close>, \<open>factory_step\<close>); everywhere else
  one thread is followed, and every call may meet an environment that changed its answers since the
  call before.
\<close>

section \<open>Properties of the policer as a whole\<close>

text \<open>
  No stranger gets in. Whatever provisioner run the arrival of a Pod starts, once it succeeded
  on the fresh tables of the Pod a new connection from outside is accepted by INPUT only if its
  source is the address of an endpoint that the API server listed in that very run and that a
  peer of an applicable policy selects.
\<close>

theorem policer_ingress_sound:
  assumes "run_state (AddPod lib api node pod) h = (r, h @ t)" and "SpawnAddRules rs p \<in> set t"
    and "\<And>deps. ListDanmEps (Namespace (PodMeta pod)) (Inr deps) \<in> set t \<Longrightarrow> inj_on ep_uid (set deps)"
    and "calls_succeed env" and "filter_table apply_call rules_of" and "fresh (rules_of k)"
    and "accepts (provisioned apply_call rules_of env rs k) f ChainInput (packet_matches pkt)"
    and "PktIn pkt \<noteq> ''lo''" and "PktState pkt = ''NEW''"
  shows "\<exists>pols deps d.
     ListPolicies (Namespace (PodMeta pod)) (Inr pols) \<in> set t \<and>
     ListDanmEps (Namespace (PodMeta pod)) (Inr deps) \<in> set t \<and>
     d \<in> whitelisted lib (NewDanmEpSet (Inr deps) pod) ingress_peers (applicable lib (Inr pols) pod) \<and>
     has_address lib (fam_address f d) \<and> field_matches (host_part (fam_address f d)) (PktSrc pkt)"
proof -
  obtain pols deps where pd: "ListPolicies (Namespace (PodMeta pod)) (Inr pols) \<in> set t"
    "ListDanmEps (Namespace (PodMeta pod)) (Inr deps) \<in> set t"
    "NewNetRuleSet lib (applicable lib (Inr pols) pod) (NewDanmEpSet (Inr deps) pod) = Inr rs"
    using spawn_justified [OF assms(1,2)] unfolding justified_def by blast
  obtain q where q: "q \<in> set (Rules (ingress_chain f rs))" "rule_matches pkt q"
    using assms(7-9) unfolding provisioned_ingress [OF assms(4-6) pd(3)] by (auto simp: list_ex_iff)
  from ingress_rule_origin [OF assms(3) [OF pd(2)] refl pd(3) q(1)] obtain d where
    "d \<in> whitelisted lib (NewDanmEpSet (Inr deps) pod) ingress_peers (applicable lib (Inr pols) pod)"
    "has_address lib (fam_address f d)" "SourceIp q = host_part (fam_address f d)" by blast
  with q(2) pd show ?thesis unfolding rule_matches_def by metis
qed

text \<open>
  A Pod reaches no stranger: a new connection other than DNS is let out by OUTPUT only if its
  destination is the address of a listed endpoint that an egress peer of an applicable policy
  selects.
\<close>

theorem policer_egress_sound:
  assumes "run_state (AddPod lib api node pod) h = (r, h @ t)" and "SpawnAddRules rs p \<in> set t"
    and "\<And>deps. ListDanmEps (Namespace (PodMeta pod)) (Inr deps) \<in> set t \<Longrightarrow> inj_on ep_uid (set deps)"
    and "calls_succeed env" and "filter_table apply_call rules_of" and "fresh (rules_of k)"
    and "accepts (provisioned apply_call rules_of env rs k) f ChainOutput (packet_matches pkt)"
    and "PktOut pkt \<noteq> ''lo''" and "PktState pkt = ''NEW''" and "PktDport pkt \<noteq> ''53''"
  shows "\<exists>pols deps d.
     ListPolicies (Namespace (PodMeta pod)) (Inr pols) \<in> set t \<and>
     ListDanmEps (Namespace (PodMeta pod)) (Inr deps) \<in> set t \<and>
     d \<in> whitelisted lib (NewDanmEpSet (Inr deps) pod) egress_peers (applicable lib (Inr pols) pod) \<and>
     has_address lib (fam_address f d) \<and> field_matches (host_part (fam_address f d)) (PktDst pkt)"
proof -
  obtain pols deps where pd: "ListPolicies (Namespace (PodMeta pod)) (Inr pols) \<in> set t"
    "ListDanmEps (Namespace (PodMeta pod)) (Inr deps) \<in> set t"
    "NewNetRuleSet lib (applicable lib (Inr pols) pod) (NewDanmEpSet (Inr deps) pod) = Inr rs"
    using spawn_justified [OF assms(1,2)] unfolding justified_def by blast
  obtain q where q: "q \<in> set (Rules (egress_chain f rs))" "rule_matches pkt q"
    using assms(7-10) unfolding provisioned_egress [OF assms(4-6) pd(3)] by (auto simp: list_ex_iff)
  from egress_rule_origin [OF assms(3) [OF pd(2)] refl pd(3) q(1)] obtain d where
    "d \<in> whitelisted lib (NewDanmEpSet (Inr deps) pod) egress_peers (applicable lib (Inr pols) pod)"
    "has_address lib (fam_address f d)" "DestIp q = host_part (fam_address f d)" by blast
  with q(2) pd show ?thesis unfolding rule_matches_def by metis
qed

text \<open>
  Friends get in: a policy whose first ingress section names no ports makes INPUT accept every
  packet from every usable address of every endpoint its peers select.
\<close>

theorem policer_ingress_complete:
  assumes "inj_on ep_uid (set deps)"
    and "NewNetRuleSet lib ps (NewDanmEpSet (Inr deps) pod) = Inr rs"
    and "calls_succeed env" and "filter_table apply_call rules_of" and "fresh (rules_of k)"
    and "p \<in> set ps" and "ingress_ports p = []" and "peer \<in> set (ingress_peers p)"
    and "d \<in> set (finalDeps lib (NewDanmEpSet (Inr deps) pod) peer)"
    and "has_address lib (fam_address f d)" and "PktSrc pkt = host_part (fam_address f d)"
  shows "accepts (provisioned apply_call rules_of env rs k) f ChainInput (packet_matches pkt)"
proof -
  have "zero_rule\<lparr>SourceIp := host_part (fam_address f d)\<rparr> \<in> set (Rules (ingress_chain f rs))"
    by (rule portless_ingress_rule [OF assms(1) refl assms(2,6,7,8,9,10)])
  moreover have "rule_matches pkt (zero_rule\<lparr>SourceIp := host_part (fam_address f d)\<rparr>)"
    using assms(11) by (simp add: rule_matches_def proto_matches_def field_matches_def zero_rule_def)
  ultimately show ?thesis
    unfolding provisioned_ingress [OF assms(3,4,5,2)] by (auto simp: list_ex_iff)
qed

text \<open>
  C37: An integer port opens all ports: for a port given as an integer, whose string form is empty,
  INPUT accepts every packet of the protocol from the selected address, whatever its ports.
\<close>

theorem integer_port_opens_all_ports:
  assumes "inj_on ep_uid (set deps)"
    and "NewNetRuleSet lib ps (NewDanmEpSet (Inr deps) pod) = Inr rs"
    and "calls_succeed env" and "filter_table apply_call rules_of" and "fresh (rules_of k)"
    and "p \<in> set ps" and "port \<in> set (ingress_ports p)"
    and "Port port = Some ios" and "StrVal ios = []" and "Protocol port = Some proto"
    and "lower proto = PktProto pkt"
    and "peer \<in> set (ingress_peers p)" and "d \<in> set (finalDeps lib (NewDanmEpSet (Inr deps) pod) peer)"
    and "has_address lib (fam_address f d)" and "PktSrc pkt = host_part (fam_address f d)"
  shows "accepts (provisioned apply_call rules_of env rs k) f ChainInput (packet_matches pkt)"
proof -
  let ?rule = "zero_rule\<lparr>SourceIp := PktSrc pkt, SourcePort := [], RuleProtocol := proto\<rparr>"
  have "?rule \<in> set (Rules (ingress_chain f rs))"
    using port_ingress_rule [OF assms(1) refl assms(2,6,7,12,13,14)] assms(8,9,10,15)
    by (simp add: port_string_def proto_string_def)
  moreover have "rule_matches pkt ?rule"
    using assms(11) by (simp add: rule_matches_def proto_matches_def field_matches_def zero_rule_def)
  ultimately show ?thesis
    unfolding provisioned_ingress [OF assms(3,4,5,2)] by (auto simp: list_ex_iff)
qed

section \<open>The properties at concrete inputs\<close>

definition example_packet :: "string \<Rightarrow> string \<Rightarrow> packet" where
  "example_packet src dport = \<lparr>PktIn = ''eth0'', PktOut = ''eth0'', PktSrc = src, PktDst = src,
     PktProto = ''tcp'', PktSport = ''40000'', PktDport = dport, PktState = ''NEW''\<rparr>"

lemma example_ingress:
  assumes "NewNetRuleSet lib ps ds = Inr rs"
  shows "accepts (provisioned kernel_call id quiet_env rs pod_tables) f ChainInput (packet_matches pkt) \<longleftrightarrow>
     PktIn pkt = ''lo'' \<or> PktState pkt = ''ESTABLISHED'' \<or> PktState pkt = ''RELATED'' \<or>
     list_ex (rule_matches pkt) (Rules (ingress_chain f rs))"
  by (rule provisioned_ingress [where rules_of = id, OF quiet_env_succeeds example_hyps(4)
        example_fresh assms])

lemma example_egress:
  assumes "NewNetRuleSet lib ps ds = Inr rs"
  shows "accepts (provisioned kernel_call id quiet_env rs pod_tables) f ChainOutput (packet_matches pkt) \<longleftrightarrow>
     PktOut pkt = ''lo'' \<or> PktState pkt = ''ESTABLISHED'' \<or> PktState pkt = ''RELATED'' \<or>
     (PktProto pkt = ''tcp'' \<or> PktProto pkt = ''udp'') \<and> PktDport pkt = ''53'' \<and> PktState pkt = ''NEW'' \<or>
     list_ex (rule_matches pkt) (Rules (egress_chain f rs))"
  by (rule provisioned_egress [where rules_of = id, OF quiet_env_succeeds example_hyps(4)
        example_fresh assms])

lemma example_listing:
  assumes "ListDanmEps (Namespace (PodMeta example_pod)) (Inr deps) \<in>
      set [ListPolicies ''ns'' (Inr pols), ListDanmEps ''ns'' (Inr example_deps), SpawnAddRules rs example_pod]"
  shows "inj_on ep_uid (set deps)"
  using assms example_inj by simp

lemma policer_ingress_sound_witness:
  "\<exists>pols deps d. d \<in> whitelisted example_lib (NewDanmEpSet (Inr deps) example_pod) ingress_peers
       (applicable example_lib (Inr pols) example_pod) \<and>
     field_matches (host_part (fam_address V4 d)) ''10.0.0.1''"
proof -
  have acc: "accepts (provisioned kernel_call id quiet_env example_rules pod_tables) V4 ChainInput
      (packet_matches (example_packet ''10.0.0.1'' ''80''))"
    by (simp add: example_ingress [OF example_NewNetRuleSet])
      (simp add: example_rules_def example_packet_def rule_matches_def proto_matches_def field_matches_def zero_rule_def)
  show ?thesis
    using policer_ingress_sound [where rules_of = id and k = pod_tables, OF example_AddPod _ example_listing
        quiet_env_succeeds example_hyps(4) example_fresh acc, of example_pod]
    by (auto simp: example_packet_def)
qed

lemma policer_ingress_complete_witness:
  "accepts (provisioned kernel_call id quiet_env example_rules pod_tables) V4 ChainInput
     (packet_matches (example_packet ''10.0.0.1'' ''22''))"
proof (rule policer_ingress_complete [where rules_of = id and k = pod_tables, OF example_inj
      example_NewNetRuleSet quiet_env_succeeds example_hyps(4) example_fresh])
  let ?d = "example_ep ''a'' [(''app'', ''web'')] ''red'' ''10.0.0.1/24''"
  let ?peer = "example_peer [(''app'', ''web'')] []"
  show "example_policy [?peer] \<in> set [example_policy [?peer]]" by simp
  show "ingress_ports (example_policy [?peer]) = []" "?peer \<in> set (ingress_peers (example_policy [?peer]))"
    by (simp_all add: ingress_ports_def ingress_peers_def example_policy_def)
  show "?d \<in> set (finalDeps example_lib (NewDanmEpSet (Inr example_deps) example_pod) ?peer)"
    by (subst set_finalDeps [OF example_inj])
      (simp add: pod_selected_code network_selected_code netruleset_example_defs)
  show "has_address example_lib (fam_address V4 ?d)"
    by (simp add: has_address_def example_ep_def example_lib_def)
  show "PktSrc (example_packet ''10.0.0.1'' ''22'') = host_part (fam_address V4 ?d)"
    by (simp add: example_packet_def host_part_def example_ep_def)
qed

text \<open>A policy that lets the Pod reach the endpoints on the network blue.\<close>

definition egress_policy :: danm_network_policy where
  "egress_policy = \<lparr>PolTypeMeta = \<lparr>Kind = [], APIVersion = []\<rparr>,
     PolMeta = \<lparr>Name = ''p'', Namespace = ''ns'', UID = ''p'', Labels = [], ResourceVersion = []\<rparr>,
     PolSpec = \<lparr>PodSelector = \<lparr>MatchLabels = [], MatchExpressions = []\<rparr>, Ingress = [],
       Egress = [\<lparr>EgressPorts = [], To = [example_peer [] [\<lparr>SelName = ''blue'', SelType = []\<rparr>]]\<rparr>],
       PolicyTypes = []\<rparr>\<rparr>"

definition egress_example_rules :: net_rule_set where
  "egress_example_rules =
     \<lparr>IngressV4Chain = \<lparr>ChainName = IngressV4ChainName, Rules = []\<rparr>,
      IngressV6Chain = \<lparr>ChainName = IngressV6ChainName, Rules = []\<rparr>,
      EgressV4Chain = \<lparr>ChainName = EgressV4ChainName,
        Rules = [zero_rule\<lparr>DestIp := ''10.0.1.1''\<rparr>, zero_rule\<lparr>DestIp := ''10.0.1.2''\<rparr>]\<rparr>,
      EgressV6Chain = \<lparr>ChainName = EgressV6ChainName, Rules = []\<rparr>,
      RuleNetns = ''/proc/1/ns/net''\<rparr>"

lemma egress_NewNetRuleSet:
  "NewNetRuleSet example_lib [egress_policy] (NewDanmEpSet (Inr example_deps) example_pod) =
     Inr egress_example_rules"
  by code_simp

lemma egress_applicable:
  "FilterApplicablePolicies (NewPolicySet example_lib (Inr [egress_policy])) example_pod = [egress_policy]"
  by code_simp

lemma policer_egress_sound_witness:
  "\<exists>pols deps d. d \<in> whitelisted example_lib (NewDanmEpSet (Inr deps) example_pod) egress_peers
       (applicable example_lib (Inr pols) example_pod) \<and>
     field_matches (host_part (fam_address V4 d)) ''10.0.1.2''"
proof -
  have acc: "accepts (provisioned kernel_call id quiet_env egress_example_rules pod_tables) V4 ChainOutput
      (packet_matches (example_packet ''10.0.1.2'' ''80''))"
    by (simp add: example_egress [OF egress_NewNetRuleSet])
      (simp add: egress_example_rules_def example_packet_def rule_matches_def proto_matches_def field_matches_def zero_rule_def)
  note run = example_run [OF egress_applicable list.distinct(2) egress_NewNetRuleSet]
  show ?thesis
    using policer_egress_sound [where rules_of = id and k = pod_tables, OF run _ example_listing
        quiet_env_succeeds example_hyps(4) example_fresh acc, of example_pod]
    by (auto simp: example_packet_def)
qed

text \<open>The web policy for port 80, given as an integer.\<close>

definition port_policy :: danm_network_policy where
  "port_policy = \<lparr>PolTypeMeta = \<lparr>Kind = [], APIVersion = []\<rparr>,
     PolMeta = \<lparr>Name = ''p'', Namespace = ''ns'', UID = ''p'', Labels = [], ResourceVersion = []\<rparr>,
     PolSpec = \<lparr>PodSelector = \<lparr>MatchLabels = [], MatchExpressions = []\<rparr>,
       Ingress = [\<lparr>IngressPorts = [\<lparr>Protocol = Some ''tcp'',
           Port = Some \<lparr>IosType = IosInt, IntVal = 80, StrVal = []\<rparr>\<rparr>],
         From = [example_peer [(''app'', ''web'')] []]\<rparr>],
       Egress = [], PolicyTypes = []\<rparr>\<rparr>"

definition port_example_rules :: net_rule_set where
  "port_example_rules = example_rules\<lparr>IngressV4Chain := \<lparr>ChainName = IngressV4ChainName,
     Rules = [zero_rule\<lparr>SourceIp := ''10.0.0.1'', RuleProtocol := ''tcp''\<rparr>,
       zero_rule\<lparr>SourceIp := ''10.0.1.1'', RuleProtocol := ''tcp''\<rparr>]\<rparr>\<rparr>"

lemma port_NewNetRuleSet:
  "NewNetRuleSet example_lib [port_policy] (NewDanmEpSet (Inr example_deps) example_pod) =
     Inr port_example_rules"
  by code_simp

lemma integer_port_opens_all_ports_witness:
  "accepts (provisioned kernel_call id quiet_env port_example_rules pod_tables) V4 ChainInput
     (packet_matches (example_packet ''10.0.0.1'' ''22''))"
proof (rule integer_port_opens_all_ports [where rules_of = id and k = pod_tables, OF example_inj
      port_NewNetRuleSet quiet_env_succeeds example_hyps(4) example_fresh])
  let ?d = "example_ep ''a'' [(''app'', ''web'')] ''red'' ''10.0.0.1/24''"
  let ?peer = "example_peer [(''app'', ''web'')] []"
  let ?ios = "\<lparr>IosType = IosInt, IntVal = 80, StrVal = []\<rparr>"
  let ?port = "\<lparr>Protocol = Some ''tcp'', Port = Some ?ios\<rparr>"
  show "port_policy \<in> set [port_policy]" by simp
  show "?port \<in> set (ingress_ports port_policy)" "?peer \<in> set (ingress_peers port_policy)"
    by (simp_all add: ingress_ports_def ingress_peers_def port_policy_def)
  show "Port ?port = Some ?ios" "StrVal ?ios = []" by simp_all
  show "Protocol ?port = Some ''tcp''" by simp
  show "lower ''tcp'' = PktProto (example_packet ''10.0.0.1'' ''22'')"
    by (simp add: example_packet_def lower_def)
  show "?d \<in> set (finalDeps example_lib (NewDanmEpSet (Inr example_deps) example_pod) ?peer)"
    by (subst set_finalDeps [OF example_inj])
      (simp add: pod_selected_code network_selected_code netruleset_example_defs)
  show "has_address example_lib (fam_address V4 ?d)"
    by (simp add: has_address_def example_ep_def example_lib_def)
  show "PktSrc (example_packet ''10.0.0.1'' ''22'') = host_part (fam_address V4 ?d)"
    by (simp add: example_packet_def host_part_def example_ep_def)
qed

end
